(* ===== verification/NS_Prelude.thy ===== *)
theory NS_Prelude
  imports Main "HOL-Library.Word"
begin

unbundle bit_operations_syntax

text \<open>
  Shared vocabulary of the development: the machine integers of the C++ sources, the
  result type that carries undefined behaviour and failed assertions as values, the model
  of \<open>std::map\<close> (a sorted association list, because the engine iterates over its maps in
  key order) with the interface it promises as a locale, and the network byte order
  conversions.
\<close>

section \<open>Machine integers and results\<close>

type_synonym u8 = "8 word"
type_synonym u16 = "16 word"
type_synonym u32 = "32 word"
type_synonym u64 = "64 word"

text \<open>
  What stops a C++ execution abnormally: a failed \<open>assert\<close>, an access outside a memory
  block, a null pointer, a call of an empty \<open>std::function\<close>, a read of a member that was
  never written, and the C++ exception into which the bindings turn a Python exception. \<open>Out_of_fuel\<close> says that a loop did not finish within the number of
  iterations the model was given: the execution has not returned yet.
\<close>

datatype fault =
    Assertion_failed
  | Out_of_bounds
  | Null_pointer
  | Bad_function_call
  | Uninitialised
  | Python_exception
  | Archive_exception
  | Out_of_fuel

type_synonym 'a res = "fault + 'a"

definition bind_res :: "'a res \<Rightarrow> ('a \<Rightarrow> 'b res) \<Rightarrow> 'b res" where
  "bind_res m f = (case m of Inl e \<Rightarrow> Inl e | Inr x \<Rightarrow> f x)"

definition guard_res :: "bool \<Rightarrow> fault \<Rightarrow> unit res" where
  "guard_res b e = (if b then Inr () else Inl e)"

named_theorems res_simps \<open>unfolding of results\<close>

lemma bind_res_Inr [simp, res_simps]: "bind_res (Inr x) f = f x"
  by (simp add: bind_res_def)

lemma bind_res_Inl [simp, res_simps]: "bind_res (Inl e) f = Inl e"
  by (simp add: bind_res_def)

lemma bind_res_eq_Inr [res_simps]: "bind_res m f = Inr y \<longleftrightarrow> (\<exists>x. m = Inr x \<and> f x = Inr y)"
  by (cases m) auto

lemma bind_res_eq_Inl: "bind_res m f = Inl e \<longleftrightarrow> m = Inl e \<or> (\<exists>x. m = Inr x \<and> f x = Inl e)"
  by (cases m) auto

lemma bind_res_assoc: "bind_res (bind_res m f) g = bind_res m (\<lambda>x. bind_res (f x) g)"
  by (cases m) auto

lemma bind_res_cong [fundef_cong]:
  assumes "m = m'" and "\<And>x. m' = Inr x \<Longrightarrow> f x = f' x"
  shows "bind_res m f = bind_res m' f'"
  using assms by (cases m') auto

lemma guard_res_True [simp, res_simps]: "guard_res True e = Inr ()"
  by (simp add: guard_res_def)

lemma guard_res_False [simp, res_simps]: "guard_res False e = Inl e"
  by (simp add: guard_res_def)

lemma guard_res_eq_Inr [simp]: "guard_res b e = Inr u \<longleftrightarrow> b"
  by (simp add: guard_res_def)

section \<open>std::map\<close>

text \<open>
  A \<open>std::map\<close> is an association list with strictly increasing keys. \<open>smap_insert\<close> is
  \<open>map::insert\<close>, which leaves an existing entry alone; \<open>smap_put\<close> is an assignment through
  \<open>operator[]\<close> or through a reference into the map; \<open>smap_erase\<close> is \<open>map::erase\<close>.
\<close>

type_synonym ('k, 'v) smap = "('k \<times> 'v) list"

definition smap_find :: "('k, 'v) smap \<Rightarrow> 'k \<Rightarrow> 'v option" where
  "smap_find m k = map_of m k"

fun smap_insert :: "'k::linorder \<Rightarrow> 'v \<Rightarrow> ('k, 'v) smap \<Rightarrow> ('k, 'v) smap" where
  "smap_insert k v [] = [(k, v)]"
| "smap_insert k v ((a, b) # m) =
     (if k < a then (k, v) # (a, b) # m
      else if k = a then (a, b) # m
      else (a, b) # smap_insert k v m)"

fun smap_put :: "'k::linorder \<Rightarrow> 'v \<Rightarrow> ('k, 'v) smap \<Rightarrow> ('k, 'v) smap" where
  "smap_put k v [] = [(k, v)]"
| "smap_put k v ((a, b) # m) =
     (if k < a then (k, v) # (a, b) # m
      else if k = a then (k, v) # m
      else (a, b) # smap_put k v m)"

fun smap_erase :: "'k \<Rightarrow> ('k, 'v) smap \<Rightarrow> ('k, 'v) smap" where
  "smap_erase k [] = []"
| "smap_erase k ((a, b) # m) = (if k = a then m else (a, b) # smap_erase k m)"

definition smap_keys :: "('k, 'v) smap \<Rightarrow> 'k list" where
  "smap_keys m = map fst m"

definition smap_ok :: "('k::linorder, 'v) smap \<Rightarrow> bool" where
  "smap_ok m = sorted_wrt (<) (map fst m)"

lemma smap_find_Nil [simp]: "smap_find [] k = None"
  by (simp add: smap_find_def)

lemma smap_find_Cons [simp]: "smap_find ((a, b) # m) k = (if k = a then Some b else smap_find m k)"
  by (simp add: smap_find_def)

lemma smap_ok_Nil [simp]: "smap_ok []"
  by (simp add: smap_ok_def)

lemma smap_ok_Cons: "smap_ok ((a, b) # m) \<longleftrightarrow> (\<forall>k\<in>fst ` set m. a < k) \<and> smap_ok m"
  by (simp add: smap_ok_def)

lemma smap_find_None: "smap_find m k = None \<longleftrightarrow> k \<notin> fst ` set m"
  by (simp add: smap_find_def map_of_eq_None_iff)

lemma smap_find_Some_key: "smap_find m k = Some v \<Longrightarrow> k \<in> fst ` set m"
  using smap_find_None [of m k] by auto

lemma smap_put_find: "smap_find (smap_put k v m) j = (if j = k then Some v else smap_find m j)"
  by (induction k v m rule: smap_put.induct) auto

lemma smap_insert_find:
  "smap_ok m \<Longrightarrow> smap_find (smap_insert k v m) j =
     (if j = k \<and> smap_find m k = None then Some v else smap_find m j)"
proof (induction k v m rule: smap_insert.induct)
  case (2 k v a b m)
  show ?case
  proof (cases "k < a")
    case True
    with "2.prems" have "smap_find m k = None"
      by (auto simp: smap_ok_Cons smap_find_None)
    with True show ?thesis by auto
  next
    case False
    with 2 show ?thesis by (auto simp: smap_ok_Cons)
  qed
qed auto

lemma smap_erase_find:
  "smap_ok m \<Longrightarrow> smap_find (smap_erase k m) j = (if j = k then None else smap_find m j)"
proof (induction k m rule: smap_erase.induct)
  case (2 k a b m)
  then have "k = a \<Longrightarrow> smap_find m k = None"
    by (auto simp: smap_ok_Cons smap_find_None)
  with 2 show ?case by (auto simp: smap_ok_Cons)
qed simp

lemma smap_put_keys: "fst ` set (smap_put k v m) = insert k (fst ` set m)"
  by (induction k v m rule: smap_put.induct) auto

lemma smap_insert_keys: "fst ` set (smap_insert k v m) = insert k (fst ` set m)"
  by (induction k v m rule: smap_insert.induct) auto

lemma smap_erase_keys_subset: "fst ` set (smap_erase k m) \<subseteq> fst ` set m"
  by (induction k m rule: smap_erase.induct) auto

lemma smap_put_ok [intro]: "smap_ok m \<Longrightarrow> smap_ok (smap_put k v m)"
  by (induction k v m rule: smap_put.induct) (auto simp: smap_ok_Cons smap_put_keys)

lemma smap_insert_ok [intro]: "smap_ok m \<Longrightarrow> smap_ok (smap_insert k v m)"
  by (induction k v m rule: smap_insert.induct) (auto simp: smap_ok_Cons smap_insert_keys)

lemma smap_erase_ok [intro]: "smap_ok m \<Longrightarrow> smap_ok (smap_erase k m)"
  by (induction k m rule: smap_erase.induct)
    (use smap_erase_keys_subset in \<open>force simp: smap_ok_Cons\<close>)+

text \<open>What a client of \<open>std::map\<close> relies on, and what follows for it.\<close>

locale std_map =
  fixes find :: "'m \<Rightarrow> 'k \<Rightarrow> 'v option"
    and insert_new :: "'k \<Rightarrow> 'v \<Rightarrow> 'm \<Rightarrow> 'm"
    and put :: "'k \<Rightarrow> 'v \<Rightarrow> 'm \<Rightarrow> 'm"
    and erase :: "'k \<Rightarrow> 'm \<Rightarrow> 'm"
    and ok :: "'m \<Rightarrow> bool"
  assumes find_insert_new:
      "ok m \<Longrightarrow> find (insert_new k v m) j = (if j = k \<and> find m k = None then Some v else find m j)"
    and find_put: "ok m \<Longrightarrow> find (put k v m) j = (if j = k then Some v else find m j)"
    and find_erase: "ok m \<Longrightarrow> find (erase k m) j = (if j = k then None else find m j)"
    and ok_insert_new: "ok m \<Longrightarrow> ok (insert_new k v m)"
    and ok_put: "ok m \<Longrightarrow> ok (put k v m)"
    and ok_erase: "ok m \<Longrightarrow> ok (erase k m)"
begin

lemma insert_new_keeps:
  "ok m \<Longrightarrow> find m k = Some w \<Longrightarrow> find (insert_new k v m) j = find m j"
  by (simp add: find_insert_new)

lemma insert_new_stores:
  "ok m \<Longrightarrow> find m k = None \<Longrightarrow> find (insert_new k v m) k = Some v"
  by (simp add: find_insert_new)

lemma dom_insert_new: "ok m \<Longrightarrow> dom (find (insert_new k v m)) = insert k (dom (find m))"
  by (auto simp: find_insert_new split: if_splits)

lemma dom_put: "ok m \<Longrightarrow> dom (find (put k v m)) = insert k (dom (find m))"
  by (auto simp: find_put split: if_splits)

lemma dom_erase: "ok m \<Longrightarrow> dom (find (erase k m)) = dom (find m) - {k}"
  by (auto simp: find_erase split: if_splits)

lemma erase_insert_new:
  "ok m \<Longrightarrow> find m k = None \<Longrightarrow> find (erase k (insert_new k v m)) = find m"
  by (auto simp: find_erase find_insert_new ok_insert_new)

end

interpretation sm: std_map smap_find smap_insert smap_put smap_erase smap_ok
  by unfold_locales (auto simp: smap_insert_find smap_put_find smap_erase_find)

lemma smap_dom: "dom (smap_find m) = fst ` set m"
  by (rule set_eqI) (metis domIff smap_find_None)

lemma smap_length: "smap_ok m \<Longrightarrow> length m = card (dom (smap_find m))"
proof -
  assume "smap_ok m"
  then have "distinct (map fst m)"
    by (metis smap_ok_def strict_sorted_iff)
  then show ?thesis
    by (metis distinct_card length_map list.set_map smap_dom)
qed

lemma smap_length_insert:
  "smap_ok m \<Longrightarrow> length (smap_insert k v m) =
     (if smap_find m k = None then Suc (length m) else length m)"
proof (induction k v m rule: smap_insert.induct)
  case (2 k v a b m)
  then show ?case
    by (cases "k < a") (auto simp: smap_ok_Cons smap_find_None)
qed auto

lemma smap_length_put:
  "smap_ok m \<Longrightarrow> length (smap_put k v m) =
     (if smap_find m k = None then Suc (length m) else length m)"
proof (induction k v m rule: smap_put.induct)
  case (2 k v a b m)
  then show ?case
    by (cases "k < a") (auto simp: smap_ok_Cons smap_find_None)
qed auto

lemma smap_length_erase:
  "length (smap_erase k m) = (if smap_find m k = None then length m else length m - 1)"
  by (induction k m rule: smap_erase.induct) (auto split: if_splits, (case_tac m; auto)+)

lemmas smap_simps =
  sm.find_insert_new sm.find_put sm.find_erase sm.ok_insert_new sm.ok_put sm.ok_erase

section \<open>Network byte order\<close>

text \<open>
  \<open>ntohs(*(uint16_t* )p)\<close> and \<open>ntohl(*(uint32_t* )p)\<close> read the bytes at \<open>p\<close> in network
  order, whatever the byte order of the host.
\<close>

definition ntohs :: "u8 \<Rightarrow> u8 \<Rightarrow> u16" where
  "ntohs b0 b1 = of_nat (unat b0 * 256 + unat b1)"

definition ntohl :: "u8 \<Rightarrow> u8 \<Rightarrow> u8 \<Rightarrow> u8 \<Rightarrow> u32" where
  "ntohl b0 b1 b2 b3 =
     of_nat (unat b0 * 16777216 + unat b1 * 65536 + unat b2 * 256 + unat b3)"

definition htons :: "u16 \<Rightarrow> u8 \<times> u8" where
  "htons w = (of_nat (unat w div 256), of_nat (unat w mod 256))"

definition htonl :: "u32 \<Rightarrow> u8 \<times> u8 \<times> u8 \<times> u8" where
  "htonl w =
     (of_nat (unat w div 16777216), of_nat (unat w div 65536 mod 256),
      of_nat (unat w div 256 mod 256), of_nat (unat w mod 256))"

lemma unat_u8_less [simp]: "unat (b :: u8) < 256"
  using unsigned_less [of b, where ?'a = nat] by simp

lemma unat_u16_less [simp]: "unat (b :: u16) < 65536"
  using unsigned_less [of b, where ?'a = nat] by simp

lemma unat_u32_less [simp]: "unat (b :: u32) < 4294967296"
  using unsigned_less [of b, where ?'a = nat] by simp

lemma unat_of_nat_u8: "n < 256 \<Longrightarrow> unat (of_nat n :: u8) = n"
  by (simp add: unat_of_nat)

lemma unat_of_nat_u16: "n < 65536 \<Longrightarrow> unat (of_nat n :: u16) = n"
  by (simp add: unat_of_nat)

lemma unat_of_nat_u32: "n < 4294967296 \<Longrightarrow> unat (of_nat n :: u32) = n"
  by (simp add: unat_of_nat)

lemma unat_ntohs: "unat (ntohs b0 b1) = unat b0 * 256 + unat b1"
proof -
  have "unat b0 * 256 + unat b1 < 65536"
    using unat_u8_less [of b0] unat_u8_less [of b1] by linarith
  then show ?thesis unfolding ntohs_def by (rule unat_of_nat_u16)
qed

lemma unat_ntohl:
  "unat (ntohl b0 b1 b2 b3) =
     unat b0 * 16777216 + unat b1 * 65536 + unat b2 * 256 + unat b3"
proof -
  have "unat b0 * 16777216 + unat b1 * 65536 + unat b2 * 256 + unat b3 < 4294967296"
    using unat_u8_less [of b0] unat_u8_less [of b1] unat_u8_less [of b2] unat_u8_less [of b3]
    by linarith
  then show ?thesis unfolding ntohl_def by (rule unat_of_nat_u32)
qed

lemma base256_digits:
  "n div 16777216 * 16777216 + n div 65536 mod 256 * 65536 + n div 256 mod 256 * 256 + n mod 256
   = (n::nat)"
proof -
  define a where "a = n div 256"
  define b where "b = a div 256"
  have e: "n div 65536 = b" "n div 16777216 = b div 256" "n div 256 = a"
    by (simp_all add: a_def b_def flip: div_mult2_eq)
  have "n = 256 * a + n mod 256" "a = 256 * b + a mod 256" "b = 256 * (b div 256) + b mod 256"
    by (simp_all add: a_def b_def)
  then show ?thesis unfolding e by linarith
qed

lemma ntohs_htons: "htons w = (b0, b1) \<Longrightarrow> ntohs b0 b1 = w"
proof -
  assume h: "htons w = (b0, b1)"
  have "unat w div 256 < 256" using unat_u16_less [of w] by (simp del: unat_u16_less)
  with h have "unat b0 = unat w div 256" and "unat b1 = unat w mod 256"
    by (auto simp: htons_def unat_of_nat_u8)
  then have "unat b0 * 256 + unat b1 = unat w" by simp
  then have "ntohs b0 b1 = of_nat (unat w)" by (simp only: ntohs_def)
  then show ?thesis by simp
qed

lemma ntohl_htonl: "htonl w = (b0, b1, b2, b3) \<Longrightarrow> ntohl b0 b1 b2 b3 = w"
proof -
  assume h: "htonl w = (b0, b1, b2, b3)"
  have "unat w div 16777216 < 256" using unat_u32_less [of w] by (simp del: unat_u32_less)
  with h have "unat b0 = unat w div 16777216" and "unat b1 = unat w div 65536 mod 256"
    and "unat b2 = unat w div 256 mod 256" and "unat b3 = unat w mod 256"
    by (auto simp: htonl_def unat_of_nat_u8)
  then have "unat b0 * 16777216 + unat b1 * 65536 + unat b2 * 256 + unat b3 = unat w"
    using base256_digits [of "unat w"] by simp
  then have "ntohl b0 b1 b2 b3 = of_nat (unat w)" by (simp only: ntohl_def)
  then show ?thesis by simp
qed

end
