(* ===== verification/Buffer.thy ===== *)
theory Buffer
  imports NS_Prelude
begin

text \<open>
  The byte buffer \<open>ns::Buffer<unsigned char, uint32_t>\<close> (\<open>Lvl4Buffer\<close>) of
  \<open>src/include/ns/buffer.h\<close>. A buffer is a heap block (\<open>None\<close> for the null pointer), its
  nominal capacity and its fill position, both 32-bit. The bytes of a fresh block are
  indeterminate: \<open>junk\<close> gives them, and every theorem holds for all \<open>junk\<close>. The allocator
  itself always succeeds; \<open>malloc(0)\<close> yields an empty block and \<open>realloc(p, 0)\<close> frees the
  block and yields the null pointer, as in glibc.
\<close>

record lvl4_buffer =
  buf_mem :: "u8 list option"
  buf_size :: u32
  buf_pos :: u32

type_synonym junk = "nat \<Rightarrow> u8"

definition malloc_block :: "junk \<Rightarrow> nat \<Rightarrow> u8 list" where
  "malloc_block junk n = map junk [0..<n]"

definition realloc_block :: "junk \<Rightarrow> u8 list \<Rightarrow> nat \<Rightarrow> u8 list option" where
  "realloc_block junk m n =
     (if n = 0 then None else Some (take n m @ map junk [length m..<n]))"

definition buf_new :: lvl4_buffer where
  "buf_new = \<lparr>buf_mem = None, buf_size = 0, buf_pos = 0\<rparr>"

definition buf_free :: "lvl4_buffer \<Rightarrow> lvl4_buffer" where
  "buf_free b =
     (case buf_mem b of
        None \<Rightarrow> b
      | Some m \<Rightarrow> b\<lparr>buf_mem := None, buf_pos := 0, buf_size := 0\<rparr>)"

text \<open>\<open>size_buf\<close> multiplies by \<open>sizeof(size_type)\<close> and returns the product as a \<open>size_type\<close>.\<close>

definition size_buf :: "u32 \<Rightarrow> u32" where
  "size_buf n = n * 4"

definition buf_allocate :: "junk \<Rightarrow> u32 \<Rightarrow> lvl4_buffer \<Rightarrow> lvl4_buffer" where
  "buf_allocate junk n b =
     (case buf_mem b of
        Some m \<Rightarrow>
          (if buf_size b < n
           then b\<lparr>buf_mem := realloc_block junk m (unat (size_buf n)), buf_size := n\<rparr>
           else b)
      | None \<Rightarrow> b\<lparr>buf_mem := Some (malloc_block junk (unat (size_buf n))), buf_size := n\<rparr>)"

text \<open>\<open>grow_by\<close> returns the position, in the new block, of the first added byte.\<close>

definition buf_grow_by :: "junk \<Rightarrow> u32 \<Rightarrow> lvl4_buffer \<Rightarrow> nat \<times> lvl4_buffer" where
  "buf_grow_by junk n b =
     (let old_pos = buf_pos b;
          b1 = buf_allocate junk (buf_pos b + n) b
      in (unat old_pos, b1\<lparr>buf_pos := buf_pos b1 + n\<rparr>))"

definition buf_pop_by :: "u32 \<Rightarrow> lvl4_buffer \<Rightarrow> lvl4_buffer res" where
  "buf_pop_by n b =
     (if \<not> n \<le> buf_pos b then Inl Assertion_failed
      else let rem = unat (buf_pos b - n) in
        if rem = 0 then Inr (b\<lparr>buf_pos := buf_pos b - n\<rparr>)
        else case buf_mem b of
            None \<Rightarrow> Inl Null_pointer
          | Some m \<Rightarrow>
              (if unat n + rem \<le> length m
               then Inr (b\<lparr>buf_mem := Some (take rem (drop (unat n) m) @ drop rem m),
                           buf_pos := buf_pos b - n\<rparr>)
               else Inl Out_of_bounds))"

text \<open>Bytes stored through a pointer \<open>begin() + off\<close>, as \<open>read(2)\<close> and the callbacks do.\<close>

definition buf_write :: "nat \<Rightarrow> u8 list \<Rightarrow> lvl4_buffer \<Rightarrow> lvl4_buffer res" where
  "buf_write off xs b =
     (if xs = [] then Inr b
      else case buf_mem b of
          None \<Rightarrow> Inl Null_pointer
        | Some m \<Rightarrow>
            (if off + length xs \<le> length m
             then Inr (b\<lparr>buf_mem := Some (take off m @ xs @ drop (off + length xs) m)\<rparr>)
             else Inl Out_of_bounds))"

text \<open>
  A byte loaded through a pointer \<open>begin() + off\<close>. The load is defined everywhere inside the
  block; above the fill position it yields a stale or an indeterminate byte.
\<close>

definition buf_read :: "nat \<Rightarrow> lvl4_buffer \<Rightarrow> u8 res" where
  "buf_read off b =
     (case buf_mem b of
        None \<Rightarrow> Inl Null_pointer
      | Some m \<Rightarrow>
          (if off < length m then Inr (m ! off) else Inl Out_of_bounds))"

definition buf_contents :: "lvl4_buffer \<Rightarrow> u8 list" where
  "buf_contents b =
     (case buf_mem b of None \<Rightarrow> [] | Some m \<Rightarrow> take (unat (buf_pos b)) m)"

definition buf_copy :: "junk \<Rightarrow> lvl4_buffer \<Rightarrow> lvl4_buffer \<Rightarrow> lvl4_buffer res" where
  "buf_copy junk src dst =
     (let d = buf_allocate junk (buf_pos src) dst;
          n = unat (size_buf (buf_pos src))
      in if n = 0 then Inr (d\<lparr>buf_pos := buf_pos src\<rparr>)
         else case (buf_mem src, buf_mem d) of
             (Some ms, Some md) \<Rightarrow>
               (if n \<le> length ms \<and> n \<le> length md
                then Inr (d\<lparr>buf_mem := Some (take n ms @ drop n md), buf_pos := buf_pos src\<rparr>)
                else Inl Out_of_bounds)
           | _ \<Rightarrow> Inl Null_pointer)"

definition buf_copy_ctor :: "junk \<Rightarrow> lvl4_buffer \<Rightarrow> lvl4_buffer res" where
  "buf_copy_ctor junk o' = buf_copy junk o' buf_new"

text \<open>\<open>move\<close> yields the receiving buffer and what is left in the one moved from.\<close>

definition buf_move :: "lvl4_buffer \<Rightarrow> lvl4_buffer \<Rightarrow> lvl4_buffer \<times> lvl4_buffer" where
  "buf_move src dst =
     (dst\<lparr>buf_mem := buf_mem src, buf_size := buf_size src, buf_pos := buf_pos src\<rparr>,
      src\<lparr>buf_mem := None, buf_pos := 0, buf_size := 0\<rparr>)"

text \<open>
  The move constructor starts from a null block; its two sizes are written before they are read. The
  two assignments do nothing when an object is assigned to itself (\<open>self\<close>).
\<close>

definition buf_move_ctor :: "lvl4_buffer \<Rightarrow> lvl4_buffer \<times> lvl4_buffer" where
  "buf_move_ctor o' = buf_move o' buf_new"

definition buf_assign :: "junk \<Rightarrow> bool \<Rightarrow> lvl4_buffer \<Rightarrow> lvl4_buffer \<Rightarrow> lvl4_buffer res" where
  "buf_assign junk self o' b = (if \<not> self then buf_copy junk o' b else Inr b)"

definition buf_move_assign :: "bool \<Rightarrow> lvl4_buffer \<Rightarrow> lvl4_buffer \<Rightarrow> lvl4_buffer \<times> lvl4_buffer" where
  "buf_move_assign self o' b = (if \<not> self then buf_move o' b else (b, o'))"

text \<open>\<open>grow_by\<close> followed by a \<open>read(2)\<close> that fills the added bytes.\<close>

definition buf_append :: "junk \<Rightarrow> u8 list \<Rightarrow> lvl4_buffer \<Rightarrow> lvl4_buffer res" where
  "buf_append junk xs b =
     (case buf_grow_by junk (of_nat (length xs)) b of (p, b1) \<Rightarrow> buf_write p xs b1)"

section \<open>Invariant\<close>

text \<open>
  The block is four times the nominal capacity as long as the capacity stays below \<open>2^30\<close>;
  the fill position never passes the capacity.
\<close>

definition buf_ok :: "lvl4_buffer \<Rightarrow> bool" where
  "buf_ok b =
     (case buf_mem b of
        None \<Rightarrow> buf_size b = 0 \<and> buf_pos b = 0
      | Some m \<Rightarrow> unat (buf_size b) < 2 ^ 30 \<and> length m = 4 * unat (buf_size b)
                  \<and> unat (buf_pos b) \<le> unat (buf_size b))"

named_theorems buf_defs \<open>the operations of a buffer\<close>

lemmas [buf_defs] =
  buf_ok_def buf_contents_def buf_grow_by_def buf_allocate_def malloc_block_def
  realloc_block_def Let_def

lemma unat_size_buf: "unat n < 2 ^ 30 \<Longrightarrow> unat (size_buf n) = 4 * unat n"
  by (simp add: size_buf_def unat_word_ariths)

lemma buf_new_ok [simp]: "buf_ok buf_new" and buf_new_contents [simp]: "buf_contents buf_new = []"
  by (simp_all add: buf_new_def buf_ok_def buf_contents_def)

lemma length_buf_contents: "buf_ok b \<Longrightarrow> length (buf_contents b) = unat (buf_pos b)"
  by (auto simp: buf_defs split: option.splits)

lemma buf_ok_pos_less: "buf_ok b \<Longrightarrow> unat (buf_pos b) < 2 ^ 30"
  by (auto simp: buf_ok_def split: option.splits)

lemma buf_pos_add:
  assumes "unat (buf_pos b) + unat n < 2 ^ 30"
  shows "unat (buf_pos b + n) = unat (buf_pos b) + unat n"
  using assms by (subst unat_add_lem [THEN iffD1]) auto

lemma buf_pos_allocate [simp]: "buf_pos (buf_allocate junk n b) = buf_pos b"
  by (simp add: buf_allocate_def split: option.splits)

lemma buf_allocate_ok:
  assumes "buf_ok b" and "unat n < 2 ^ 30" and "unat (buf_pos b) \<le> unat n"
  shows "buf_ok (buf_allocate junk n b)"
    and "buf_contents (buf_allocate junk n b) = buf_contents b"
    and "n \<le> buf_size (buf_allocate junk n b)"
    and "buf_mem (buf_allocate junk n b) \<noteq> None"
  using assms
  by (auto simp: buf_defs unat_size_buf word_less_nat_alt word_le_nat_alt
      split: option.splits if_splits)

lemma buf_read_contents:
  "buf_ok b \<Longrightarrow> off < unat (buf_pos b) \<Longrightarrow> buf_read off b = Inr (buf_contents b ! off)"
  by (auto simp: buf_read_def buf_contents_def buf_ok_def split: option.splits)

section \<open>Growing\<close>

lemma buf_grow_by_pos: "fst (buf_grow_by junk n b) = unat (buf_pos b)"
  by (simp add: buf_grow_by_def Let_def)

lemma buf_grow_by_fields:
  "buf_mem (snd (buf_grow_by junk n b)) = buf_mem (buf_allocate junk (buf_pos b + n) b)"
  "buf_size (snd (buf_grow_by junk n b)) = buf_size (buf_allocate junk (buf_pos b + n) b)"
  "buf_pos (snd (buf_grow_by junk n b)) = buf_pos b + n"
  by (simp_all add: buf_grow_by_def Let_def)

lemma buf_grow_by_keeps_ok:
  assumes "buf_ok b" and "unat (buf_pos b) + unat n < 2 ^ 30"
  shows "buf_ok (snd (buf_grow_by junk n b))"
    and "buf_mem (snd (buf_grow_by junk n b)) \<noteq> None"
proof -
  have p: "unat (buf_pos b + n) = unat (buf_pos b) + unat n"
    using assms(2) by (rule buf_pos_add)
  with assms have a: "buf_ok (buf_allocate junk (buf_pos b + n) b)"
      "buf_pos b + n \<le> buf_size (buf_allocate junk (buf_pos b + n) b)"
      "buf_mem (buf_allocate junk (buf_pos b + n) b) \<noteq> None"
    using buf_allocate_ok [of b "buf_pos b + n" junk] by simp_all
  then show "buf_mem (snd (buf_grow_by junk n b)) \<noteq> None"
    by (simp add: buf_grow_by_fields)
  from a show "buf_ok (snd (buf_grow_by junk n b))"
    by (auto simp: buf_ok_def buf_grow_by_fields word_le_nat_alt split: option.splits)
qed

lemma grow_by_extends_aux:
  assumes "buf_ok b" and "unat (buf_pos b) + unat n < 2 ^ 30"
  shows "buf_ok (snd (buf_grow_by junk n b))"
    and "length (buf_contents (snd (buf_grow_by junk n b))) = length (buf_contents b) + unat n"
    and "take (length (buf_contents b)) (buf_contents (snd (buf_grow_by junk n b))) = buf_contents b"
proof -
  let ?a = "buf_allocate junk (buf_pos b + n) b"
  have p: "unat (buf_pos b + n) = unat (buf_pos b) + unat n"
    using assms(2) by (rule buf_pos_add)
  show ok: "buf_ok (snd (buf_grow_by junk n b))"
    using assms by (rule buf_grow_by_keeps_ok)
  have "buf_contents ?a = buf_contents b"
    using assms p by (intro buf_allocate_ok) auto
  moreover have "take (unat (buf_pos b)) (buf_contents (snd (buf_grow_by junk n b)))
      = buf_contents ?a"
    by (auto simp: buf_contents_def buf_grow_by_fields p min_def split: option.splits)
  ultimately show "take (length (buf_contents b)) (buf_contents (snd (buf_grow_by junk n b)))
      = buf_contents b"
    using assms(1) by (simp add: length_buf_contents)
  show "length (buf_contents (snd (buf_grow_by junk n b))) = length (buf_contents b) + unat n"
    using ok assms(1) p by (simp add: length_buf_contents buf_grow_by_fields)
qed

text \<open>
  Below the capacity bound, \<open>grow_by(n)\<close> keeps the invariant, returns the position just
  after the bytes already there, adds exactly \<open>n\<close> bytes and leaves the earlier bytes as they
  were, whether the block is reallocated or not.
\<close>

lemma grow_by_extends:
  assumes "buf_ok b" and "unat (buf_pos b) + unat n < 2 ^ 30"
  shows "buf_ok (snd (buf_grow_by junk n b))
    \<and> fst (buf_grow_by junk n b) = length (buf_contents b)
    \<and> length (buf_contents (snd (buf_grow_by junk n b))) = length (buf_contents b) + unat n
    \<and> take (length (buf_contents b)) (buf_contents (snd (buf_grow_by junk n b))) = buf_contents b"
  using grow_by_extends_aux [OF assms, of junk] assms(1)
  by (simp add: buf_grow_by_pos length_buf_contents)

lemma buf_write_contents:
  assumes "buf_ok b" and "off + length xs \<le> unat (buf_pos b)"
  shows "\<exists>b'. buf_write off xs b = Inr b' \<and> buf_ok b' \<and> buf_pos b' = buf_pos b
    \<and> buf_contents b' = take off (buf_contents b) @ xs @ drop (off + length xs) (buf_contents b)"
proof (cases "xs = []")
  case True
  with assms show ?thesis by (simp add: buf_write_def)
next
  case False
  with assms(2) have "off < unat (buf_pos b)" by (cases xs) auto
  with False assms show ?thesis
    by (cases "buf_mem b")
      (auto simp: buf_write_def buf_ok_def buf_contents_def min_def drop_take)
qed

lemma buf_append_spec:
  assumes "buf_ok b" and "length (buf_contents b) + length xs < 2 ^ 30"
  shows "\<exists>b'. buf_append junk xs b = Inr b' \<and> buf_ok b' \<and> buf_contents b' = buf_contents b @ xs"
proof -
  let ?n = "of_nat (length xs) :: u32"
  let ?g = "snd (buf_grow_by junk ?n b)"
  have n: "unat ?n = length xs"
    using assms(2) by (intro unat_of_nat_u32) simp
  have room: "unat (buf_pos b) + unat ?n < 2 ^ 30"
    using assms n by (simp add: length_buf_contents)
  have g: "buf_ok ?g" "length (buf_contents ?g) = length (buf_contents b) + length xs"
      "take (length (buf_contents b)) (buf_contents ?g) = buf_contents b"
    using grow_by_extends_aux [OF assms(1) room, of junk] n by auto
  have pos: "unat (buf_pos b) + length xs \<le> unat (buf_pos ?g)"
    using g assms(1) by (simp add: length_buf_contents)
  obtain b' where "buf_write (unat (buf_pos b)) xs ?g = Inr b'" "buf_ok b'"
      "buf_contents b' = take (unat (buf_pos b)) (buf_contents ?g) @ xs
        @ drop (unat (buf_pos b) + length xs) (buf_contents ?g)"
    using buf_write_contents [OF g(1) pos] by auto
  moreover have "fst (buf_grow_by junk ?n b) = unat (buf_pos b)"
    by (rule buf_grow_by_pos)
  ultimately show ?thesis
    using g assms(1) by (auto simp: buf_append_def length_buf_contents split: prod.split)
qed

section \<open>Popping\<close>

lemma buf_pop_by_pos:
  "n \<le> buf_pos b \<Longrightarrow> unat (buf_pos b - n) = unat (buf_pos b) - unat n"
  by (simp add: unat_sub)

lemma take_memmove:
  "n + r \<le> length m \<Longrightarrow> take r (take r (drop n m) @ drop r m) = take r (drop n m)"
  by simp

lemma buf_pop_by_spec:
  assumes "buf_ok b" and "n \<le> buf_pos b"
  shows "\<exists>b'. buf_pop_by n b = Inr b' \<and> buf_ok b' \<and> buf_pos b' = buf_pos b - n
    \<and> buf_contents b' = drop (unat n) (buf_contents b)"
proof -
  have le: "unat n \<le> unat (buf_pos b)"
    using assms(2) by (simp add: word_le_nat_alt)
  have r: "unat (buf_pos b - n) = unat (buf_pos b) - unat n"
    using assms(2) by (rule buf_pop_by_pos)
  show ?thesis
  proof (cases "unat (buf_pos b) = unat n")
    case True
    then have "buf_pos b = n" by (rule unsigned_word_eqI)
    with assms(1) show ?thesis
      by (auto simp: buf_pop_by_def buf_ok_def buf_contents_def split: option.splits)
  next
    case False
    then obtain m where m: "buf_mem b = Some m"
      using assms le by (auto simp: buf_ok_def split: option.splits)
    with assms(1) have "unat (buf_pos b) \<le> length m"
      by (auto simp: buf_ok_def)
    with m False le assms show ?thesis
      by (auto simp: buf_pop_by_def buf_ok_def buf_contents_def r Let_def drop_take)
  qed
qed

text \<open>
  On a well-formed buffer \<open>pop_by(n)\<close> either fails its assertion, exactly when \<open>n\<close> is more
  than the bytes held, or removes precisely the first \<open>n\<close> bytes and keeps the invariant.
\<close>

lemma pop_by_drops:
  assumes "buf_ok b"
  shows "(length (buf_contents b) < unat n \<longrightarrow> buf_pop_by n b = Inl Assertion_failed)
    \<and> (unat n \<le> length (buf_contents b) \<longrightarrow>
        (\<exists>b'. buf_pop_by n b = Inr b' \<and> buf_ok b'
          \<and> buf_contents b' = drop (unat n) (buf_contents b)))"
  using assms buf_pop_by_spec [OF assms, of n]
  by (auto simp: length_buf_contents buf_pop_by_def word_le_nat_alt)

section \<open>Copying, moving, freeing\<close>

lemma buf_copy_spec:
  assumes "buf_ok src" and "buf_ok dst"
  shows "\<exists>b'. buf_copy junk src dst = Inr b' \<and> buf_ok b' \<and> buf_contents b' = buf_contents src"
proof (cases "buf_pos src = 0")
  case True
  then show ?thesis
    using assms(2) by (auto simp: buf_copy_def size_buf_def buf_defs split: option.splits)
next
  case False
  then obtain m where m: "buf_mem src = Some m"
    using assms by (auto simp: buf_ok_def split: option.splits)
  have lt: "unat (buf_pos src) < 2 ^ 30" using assms(1) by (rule buf_ok_pos_less)
  have "unat (buf_pos src) \<noteq> 0" using False by (simp add: unat_eq_0)
  with m assms lt show ?thesis
    by (auto simp: buf_copy_def buf_defs unat_size_buf min_def word_less_nat_alt split: option.splits)
qed

text \<open>
  A copy, constructed or assigned, holds the same bytes in a block of its own and satisfies the
  invariant; a moved-to buffer takes over the block and leaves an empty, well-formed buffer
  behind; \<open>free()\<close> leaves an empty, well-formed buffer.
\<close>

lemma copy_move_free:
  assumes "buf_ok src" and "buf_ok dst"
  shows "(\<exists>b'. buf_copy_ctor junk src = Inr b' \<and> buf_ok b' \<and> buf_contents b' = buf_contents src)
    \<and> (\<exists>b'. buf_assign junk False src dst = Inr b' \<and> buf_ok b' \<and> buf_contents b' = buf_contents src)
    \<and> buf_assign junk True src src = Inr src
    \<and> buf_move_ctor src = (src, buf_new) \<and> buf_move_assign False src dst = (src, buf_new)
    \<and> buf_move_assign True src src = (src, src)
    \<and> buf_ok (buf_free src) \<and> buf_contents (buf_free src) = []"
  using assms buf_copy_spec [OF assms, of junk] buf_copy_spec [OF assms(1) buf_new_ok, of junk]
  by (auto simp: buf_copy_ctor_def buf_assign_def buf_move_ctor_def buf_move_assign_def buf_move_def buf_free_def
      buf_new_def buf_ok_def buf_contents_def split: option.splits)

text \<open>
  C28. The operations of a well-formed buffer. Below the capacity bound \<open>grow_by(n)\<close> adds exactly \<open>n\<close>
  bytes behind the others. \<open>pop_by(n)\<close> fails its assertion exactly when \<open>n\<close> is more than the bytes
  held, and removes the first \<open>n\<close> bytes otherwise. A copy, constructed or assigned, holds the same
  bytes; a move, constructed or assigned, takes them and leaves the source empty; an assignment to
  itself changes nothing; \<open>free()\<close> leaves the buffer empty. Every result is well-formed.
\<close>

theorem buffer_operations:
  assumes "buf_ok b" and "buf_ok dst"
  shows "(unat (buf_pos b) + unat n < 2 ^ 30 \<longrightarrow>
        buf_ok (snd (buf_grow_by junk n b)) \<and> fst (buf_grow_by junk n b) = length (buf_contents b)
        \<and> length (buf_contents (snd (buf_grow_by junk n b))) = length (buf_contents b) + unat n
        \<and> take (length (buf_contents b)) (buf_contents (snd (buf_grow_by junk n b))) = buf_contents b)
    \<and> (length (buf_contents b) < unat n \<longrightarrow> buf_pop_by n b = Inl Assertion_failed)
    \<and> (unat n \<le> length (buf_contents b) \<longrightarrow>
        (\<exists>b'. buf_pop_by n b = Inr b' \<and> buf_ok b' \<and> buf_contents b' = drop (unat n) (buf_contents b)))
    \<and> (\<exists>b'. buf_copy_ctor junk b = Inr b' \<and> buf_ok b' \<and> buf_contents b' = buf_contents b)
    \<and> (\<exists>b'. buf_assign junk False b dst = Inr b' \<and> buf_ok b' \<and> buf_contents b' = buf_contents b)
    \<and> buf_assign junk True b b = Inr b
    \<and> buf_move_ctor b = (b, buf_new) \<and> buf_move_assign False b dst = (b, buf_new)
    \<and> buf_move_assign True b b = (b, b) \<and> buf_ok (buf_free b) \<and> buf_contents (buf_free b) = []"
  using grow_by_extends [OF assms(1), of n junk] pop_by_drops [OF assms(1), of n] copy_move_free [OF assms, of junk]
  by blast

theorem buffer_operations_witness:
  "(\<exists>b'. buf_pop_by 2 \<lparr>buf_mem = Some [1, 2, 3, 4, 5, 6, 7, 8, 9, 10, 11, 12], buf_size = 3, buf_pos = 3\<rparr> = Inr b'
      \<and> buf_ok b' \<and> buf_contents b' = [3])
    \<and> (\<exists>b'. buf_copy_ctor (\<lambda>_. 0) \<lparr>buf_mem = Some [1, 2, 3, 4, 5, 6, 7, 8, 9, 10, 11, 12], buf_size = 3, buf_pos = 3\<rparr> = Inr b'
      \<and> buf_ok b' \<and> buf_contents b' = [1, 2, 3])"
  using buffer_operations [OF _ buf_new_ok, of "\<lparr>buf_mem = Some [1, 2, 3, 4, 5, 6, 7, 8, 9, 10, 11, 12], buf_size = 3, buf_pos = 3\<rparr>" 2
      "\<lambda>_. 0"]
  by (simp add: buf_ok_def buf_contents_def)

section \<open>The allocation size wraps around\<close>

text \<open>
  \<open>size_buf\<close> computes the block size as \<open>4 n\<close> modulo \<open>2^32\<close>: growing an empty buffer to
  between \<open>2^30\<close> and \<open>4/3 2^30\<close> bytes allocates a block smaller than the size the buffer then
  reports.
\<close>

theorem grow_by_underallocates:
  assumes "2 ^ 30 \<le> unat n" and "3 * unat n < 2 ^ 32"
  shows "\<exists>m. buf_mem (snd (buf_grow_by junk n buf_new)) = Some m \<and> length m < unat n
    \<and> buf_pos (snd (buf_grow_by junk n buf_new)) = n"
proof -
  have "4 * unat n mod 2 ^ 32 = 4 * unat n - 2 ^ 32"
    using assms by (subst mod_if) (simp add: mod_less)
  then have "unat (size_buf n) < unat n"
    using assms by (simp add: size_buf_def unat_word_ariths mult.commute)
  then show ?thesis
    by (simp add: buf_grow_by_def buf_allocate_def buf_new_def malloc_block_def Let_def)
qed

theorem grow_by_underallocates_witness:
  "\<exists>m. buf_mem (snd (buf_grow_by (\<lambda>_. 0) 1073741824 buf_new)) = Some m
    \<and> length m < unat (1073741824 :: u32)
    \<and> buf_pos (snd (buf_grow_by (\<lambda>_. 0) 1073741824 buf_new)) = 1073741824"
  by (rule grow_by_underallocates) simp_all

section \<open>The buffer as a byte queue\<close>

datatype bq_op = Push "u8 list" | Pop nat

fun bq_run :: "(u8 list \<Rightarrow> 'b \<Rightarrow> 'b res) \<Rightarrow> (nat \<Rightarrow> 'b \<Rightarrow> 'b res) \<Rightarrow> bq_op list \<Rightarrow> 'b \<Rightarrow> 'b res" where
  "bq_run push pop [] b = Inr b"
| "bq_run push pop (Push xs # ops) b = bind_res (push xs b) (bq_run push pop ops)"
| "bq_run push pop (Pop n # ops) b = bind_res (pop n b) (bq_run push pop ops)"

text \<open>The specification: a list of bytes with a bound on how many it holds at any time.\<close>

fun bq_spec :: "nat \<Rightarrow> bq_op list \<Rightarrow> u8 list \<Rightarrow> u8 list option" where
  "bq_spec cap [] s = Some s"
| "bq_spec cap (Push xs # ops) s =
     (if length s + length xs < cap then bq_spec cap ops (s @ xs) else None)"
| "bq_spec cap (Pop n # ops) s =
     (if n \<le> length s then bq_spec cap ops (drop n s) else None)"

locale byte_queue =
  fixes contents :: "'b \<Rightarrow> u8 list"
    and push :: "u8 list \<Rightarrow> 'b \<Rightarrow> 'b res"
    and pop :: "nat \<Rightarrow> 'b \<Rightarrow> 'b res"
    and invar :: "'b \<Rightarrow> bool"
    and cap :: nat
  assumes push_spec: "invar b \<Longrightarrow> length (contents b) + length xs < cap \<Longrightarrow>
      \<exists>b'. push xs b = Inr b' \<and> invar b' \<and> contents b' = contents b @ xs"
    and pop_spec: "invar b \<Longrightarrow> n \<le> length (contents b) \<Longrightarrow>
      \<exists>b'. pop n b = Inr b' \<and> invar b' \<and> contents b' = drop n (contents b)"
begin

lemma run_refines:
  "invar b \<Longrightarrow> bq_spec cap ops (contents b) = Some s \<Longrightarrow>
     \<exists>b'. bq_run push pop ops b = Inr b' \<and> invar b' \<and> contents b' = s"
proof (induction ops arbitrary: b)
  case (Cons op ops)
  show ?case
  proof (cases op)
    case (Push xs)
    with Cons.prems obtain b1 where "push xs b = Inr b1" "invar b1" "contents b1 = contents b @ xs"
      using push_spec [of b xs] by (auto split: if_splits)
    with Push Cons show ?thesis by (auto split: if_splits)
  next
    case (Pop n)
    with Cons.prems obtain b1 where "pop n b = Inr b1" "invar b1" "contents b1 = drop n (contents b)"
      using pop_spec [of b n] by (auto split: if_splits)
    with Pop Cons show ?thesis by (auto split: if_splits)
  qed
qed simp

end

definition buf_pop :: "nat \<Rightarrow> lvl4_buffer \<Rightarrow> lvl4_buffer res" where
  "buf_pop n b = buf_pop_by (of_nat n) b"

lemma buf_pop_spec:
  assumes "buf_ok b" and "n \<le> length (buf_contents b)"
  shows "\<exists>b'. buf_pop n b = Inr b' \<and> buf_ok b' \<and> buf_contents b' = drop n (buf_contents b)"
proof -
  have "n \<le> unat (buf_pos b)" using assms by (simp add: length_buf_contents)
  then have n: "unat (of_nat n :: u32) = n"
    using unat_u32_less [of "buf_pos b"] by (intro unat_of_nat_u32) linarith
  then have "(of_nat n :: u32) \<le> buf_pos b"
    using assms by (simp add: word_le_nat_alt length_buf_contents)
  from buf_pop_by_spec [OF assms(1) this] show ?thesis
    using n by (auto simp: buf_pop_def)
qed

interpretation bq: byte_queue buf_contents "buf_append junk" buf_pop buf_ok "2 ^ 30" for junk
  by unfold_locales (auto simp: buf_append_spec buf_pop_spec)

text \<open>
  C9. Any sequence of received chunks and pops that the byte-queue specification accepts (never
  \<open>2^30\<close> bytes or more, never a pop of more than is there) runs on the buffer without a fault
  and leaves exactly the bytes the specification computes.
\<close>

theorem buffer_refines_queue:
  assumes "buf_ok b" and "bq_spec (2 ^ 30) ops (buf_contents b) = Some s"
  shows "\<exists>b'. bq_run (buf_append junk) buf_pop ops b = Inr b' \<and> buf_ok b' \<and> buf_contents b' = s"
  using assms by (rule bq.run_refines)

theorem buffer_refines_queue_witness:
  "\<exists>b'. bq_run (buf_append (\<lambda>_. 0)) buf_pop [Push [1, 2, 3], Pop 2, Push [4]] buf_new = Inr b'
    \<and> buf_ok b' \<and> buf_contents b' = [3, 4]"
  by (rule buffer_refines_queue) simp_all

end
