(* ===== verification/Target.thy ===== *)
theory Target
  imports NS_Prelude "HOL-Library.Product_Lexorder"
begin

text \<open>
  A scan target (\<open>src/include/ns/target.h\<close>, \<open>src/target.cpp\<close>), a connected target
  (\<open>connected_target.h\<close>), and the printable form of an address (\<open>src/ipstr.cpp\<close>). The class
  \<open>leeloo::port\<close> belongs to another library: a port is represented by the two values its
  interface exposes, \<open>value()\<close> and \<open>protocol()\<close>, and its remaining operations
  (\<open>as_u32\<close>, \<open>protocol_from_socket_type\<close>, the protocol constant \<open>UNSUPPORTED\<close>) are arguments of
  the definitions that use them.
\<close>

datatype port = Port (port_val: u16) (port_proto: u16)

datatype target = Target (ipv4: u32) (tport: port)

definition port_value :: "target \<Rightarrow> u16" where
  "port_value t = port_val (tport t)"

definition port_protocol :: "target \<Rightarrow> u16" where
  "port_protocol t = port_proto (tport t)"

definition is_end :: "target \<Rightarrow> bool" where
  "is_end t \<longleftrightarrow> ipv4 t = 0xFFFFFFFF \<and> port_value t = 0xFFFF"

definition target_end :: "u16 \<Rightarrow> target" where
  "target_end unsupported = Target 0xFFFFFFFF (Port 0xFFFF unsupported)"

definition target_less :: "(port \<Rightarrow> u32) \<Rightarrow> target \<Rightarrow> target \<Rightarrow> bool" where
  "target_less as_u32 a b =
     (if ipv4 a = ipv4 b then as_u32 (tport a) < as_u32 (tport b) else ipv4 a < ipv4 b)"

definition target_eq :: "target \<Rightarrow> target \<Rightarrow> bool" where
  "target_eq a b \<longleftrightarrow> ipv4 a = ipv4 b \<and> tport a = tport b"

definition target_neq :: "target \<Rightarrow> target \<Rightarrow> bool" where
  "target_neq a b \<longleftrightarrow> ipv4 a \<noteq> ipv4 b \<or> tport a \<noteq> tport b"

text \<open>
  The ordered containers of targets compare them with \<open>operator<\<close>, that is by this key in
  lexicographic order (lemma \<open>target_less_key\<close>).
\<close>

definition target_key :: "(port \<Rightarrow> u32) \<Rightarrow> target \<Rightarrow> u32 \<times> u32" where
  "target_key as_u32 t = (ipv4 t, as_u32 (tport t))"

section \<open>Socket addresses\<close>

record sockaddr_in =
  sin_family :: nat
  sin_addr :: "u8 \<times> u8 \<times> u8 \<times> u8"
  sin_port :: "u8 \<times> u8"

text \<open>\<open>AF_INET\<close> is 2 on the systems with the \<open>epoll\<close> interface the engine uses.\<close>

definition to_sockaddr_in :: "target \<Rightarrow> sockaddr_in" where
  "to_sockaddr_in t =
     \<lparr>sin_family = 2, sin_addr = htonl (ipv4 t), sin_port = htons (port_value t)\<rparr>"

text \<open>
  \<open>from_socket\<close> ignores the results of its system calls. When \<open>getpeername\<close> fails, the address
  it reads is the uninitialised local \<open>sa\<close>: \<open>sa_junk\<close>.
\<close>

definition from_socket ::
  "(int \<Rightarrow> int \<Rightarrow> u16) \<Rightarrow> sockaddr_in option \<Rightarrow> sockaddr_in \<Rightarrow> int \<Rightarrow> int \<Rightarrow> target" where
  "from_socket protocol_from_socket_type getpeername sa_junk so_type so_protocol =
     (let sa = (case getpeername of Some a \<Rightarrow> a | None \<Rightarrow> sa_junk)
      in Target
           (case sin_addr sa of (b0, b1, b2, b3) \<Rightarrow> ntohl b0 b1 b2 b3)
           (Port (case sin_port sa of (b0, b1) \<Rightarrow> ntohs b0 b1)
                 (protocol_from_socket_type so_type so_protocol)))"

section \<open>Connected targets\<close>

datatype connected_target = Connected_Target (ct_socket: int) (ct_target: target)

section \<open>Printable addresses\<close>

fun dec_string :: "nat \<Rightarrow> string" where
  "dec_string n = (if n < 10 then [char_of (48 + n)] else dec_string (n div 10) @ [char_of (48 + n mod 10)])"

declare dec_string.simps [simp del]

text \<open>\<open>snprintf(buf, size, \<dots>)\<close> stores at most \<open>size - 1\<close> characters.\<close>

definition ipstr :: "u32 \<Rightarrow> string" where
  "ipstr ip =
     take (18 - 1)
       (dec_string (unat (drop_bit 24 ip)) @ ''.''
        @ dec_string (unat (drop_bit 16 ip AND 0xFF)) @ ''.''
        @ dec_string (unat (drop_bit 8 ip AND 0xFF)) @ ''.''
        @ dec_string (unat (ip AND 0xFF)))"

section \<open>Order and equality\<close>

lemma target_less_key:
  "target_less as_u32 a b \<longleftrightarrow> target_key as_u32 a < target_key as_u32 b"
  by (auto simp: target_less_def target_key_def less_prod_def)

lemma target_key_inj: "inj as_u32 \<Longrightarrow> target_key as_u32 a = target_key as_u32 b \<longleftrightarrow> a = b"
  by (cases a; cases b) (auto simp: target_key_def inj_eq)

text \<open>An injective \<open>as_u32\<close>, at which the theorems that assume one are applied.\<close>

definition port_pack :: "port \<Rightarrow> u32" where
  "port_pack p = of_nat (unat (port_val p) + 65536 * unat (port_proto p))"

lemma port_pack_inj: "inj port_pack"
proof (rule injI)
  fix p q assume eq: "port_pack p = port_pack q"
  have u: "unat (port_pack r) = unat (port_val r) + 65536 * unat (port_proto r)" for r
    unfolding port_pack_def
    using unat_u16_less [of "port_val r"] unat_u16_less [of "port_proto r"]
    by (intro unat_of_nat_u32) linarith
  have e: "unat (port_val p) + 65536 * unat (port_proto p)
      = unat (port_val q) + 65536 * unat (port_proto q)"
    using arg_cong [OF eq, of unat] unfolding u .
  have "unat (port_val p) = unat (port_val q)"
    using arg_cong [OF e, of "\<lambda>n. n mod 65536"] by simp
  moreover from this e have "unat (port_proto p) = unat (port_proto q)" by simp
  ultimately show "p = q" by (cases p; cases q) (auto intro: unsigned_word_eqI)
qed

lemma target_eq_iff: "target_eq a b \<longleftrightarrow> a = b"
  by (auto simp: target_eq_def intro: target.expand)

text \<open>
  \<open>operator<\<close> is irreflexive and transitive, as \<open>std::set\<close> and \<open>std::map\<close> require, and
  two targets are equivalent in such a container exactly when \<open>operator==\<close> holds for them,
  given that \<open>as_u32\<close> distinguishes ports; \<open>operator!=\<close> is the negation of \<open>operator==\<close>.
\<close>

theorem target_order:
  assumes "inj as_u32"
  shows "\<not> target_less as_u32 a a
    \<and> (target_less as_u32 a b \<and> target_less as_u32 b c \<longrightarrow> target_less as_u32 a c)
    \<and> (\<not> target_less as_u32 a b \<and> \<not> target_less as_u32 b a \<longleftrightarrow> target_eq a b)
    \<and> (target_neq a b \<longleftrightarrow> \<not> target_eq a b)"
proof -
  have "target_key as_u32 a < target_key as_u32 b \<or> target_key as_u32 b < target_key as_u32 a
      \<longleftrightarrow> a \<noteq> b"
    using target_key_inj [OF assms, of a b] by (metis linorder_neq_iff)
  then show ?thesis
    unfolding target_less_key target_eq_iff
    by (auto simp: target_neq_def intro: target.expand)
qed

theorem target_order_witness:
  "\<not> target_less port_pack (Target 1 (Port 80 0)) (Target 1 (Port 80 0))
   \<and> target_neq (Target 1 (Port 80 0)) (Target 1 (Port 81 0))"
  using target_order [OF port_pack_inj, of "Target 1 (Port 80 0)" "Target 1 (Port 81 0)" "Target 1 (Port 80 0)"]
  by (simp add: target_eq_def)

section \<open>Addresses round-trip\<close>

lemma is_end_target_end [simp]: "is_end (target_end unsupported)"
  by (simp add: is_end_def target_end_def port_value_def)

lemma ntohl_of_htonl: "(case htonl w of (b0, b1, b2, b3) \<Rightarrow> ntohl b0 b1 b2 b3) = w"
  by (cases "htonl w") (auto dest: ntohl_htonl)

lemma ntohs_of_htons: "(case htons w of (b0, b1) \<Rightarrow> ntohs b0 b1) = w"
  by (cases "htons w") (auto dest: ntohs_htons)

text \<open>
  The address of a connected socket gives back the target it was opened for: if
  \<open>getpeername\<close> reports the address \<open>connect\<close> was called with and the protocol library maps
  the socket's type and protocol number back to the port's protocol, \<open>Target::from_socket\<close>
  returns that target.
\<close>

theorem from_socket_to_sockaddr:
  assumes "pfst so_type so_protocol = port_protocol t"
  shows "from_socket pfst (Some (to_sockaddr_in t)) junk so_type so_protocol = t"
  using assms
  by (cases t, cases "tport t")
    (auto simp: from_socket_def to_sockaddr_in_def port_value_def port_protocol_def
      ntohl_of_htonl ntohs_of_htons)

theorem from_socket_to_sockaddr_witness:
  "from_socket (\<lambda>ty pr. if ty = 1 then 6 else 17) (Some (to_sockaddr_in (Target 0x7F000001 (Port 443 6))))
     \<lparr>sin_family = 0, sin_addr = (0, 0, 0, 0), sin_port = (0, 0)\<rparr> 1 0 = Target 0x7F000001 (Port 443 6)"
  by (rule from_socket_to_sockaddr) (simp add: port_protocol_def)

text \<open>
  When \<open>getpeername\<close> fails, as it does while the connection is still being established, the
  result does not depend on the socket's target at all.
\<close>

lemma from_socket_unconnected:
  "from_socket pfst None junk so_type so_protocol =
     from_socket pfst (Some junk) junk' so_type so_protocol"
  by (simp add: from_socket_def)

section \<open>Printable addresses are faithful\<close>

definition dec_val :: "string \<Rightarrow> nat" where
  "dec_val s = foldl (\<lambda>a c. a * 10 + (of_char c - 48)) 0 s"

lemma dec_val_snoc: "dec_val (s @ [c]) = dec_val s * 10 + (of_char c - 48)"
  by (simp add: dec_val_def)

lemma dec_val_dec_string: "dec_val (dec_string n) = n"
proof (induction n rule: dec_string.induct)
  case (1 n)
  show ?case
  proof (cases "n < 10")
    case True
    then show ?thesis by (simp add: dec_string.simps [of n] dec_val_def)
  next
    case False
    with 1 have "dec_val (dec_string (n div 10)) = n div 10" by simp
    with False show ?thesis by (simp add: dec_string.simps [of n] dec_val_snoc)
  qed
qed

lemma dec_string_no_dot: "CHR ''.'' \<notin> set (dec_string n)"
proof (induction n rule: dec_string.induct)
  case (1 n)
  have "CHR ''.'' \<noteq> char_of (48 + k)" if "k < 10" for k :: nat
  proof
    assume "CHR ''.'' = char_of (48 + k)"
    then have "of_char (char_of (48 + k) :: char) = (of_char (CHR ''.'') :: nat)" by (simp only:)
    with that show False by simp
  qed
  then have "CHR ''.'' \<noteq> char_of (48 + n mod 10)" "n < 10 \<Longrightarrow> CHR ''.'' \<noteq> char_of (48 + n)"
    by (blast intro: mod_less_divisor zero_less_numeral)+
  with 1 show ?case
    by (cases "n < 10") (simp_all add: dec_string.simps [of n])
qed

lemma length_dec_string: "n < 256 \<Longrightarrow> length (dec_string n) \<le> 3"
  by (subst dec_string.simps, subst dec_string.simps, subst dec_string.simps) auto

fun split_dots :: "string \<Rightarrow> string list" where
  "split_dots [] = [[]]"
| "split_dots (c # cs) =
     (if c = CHR ''.'' then [] # split_dots cs
      else case split_dots cs of [] \<Rightarrow> [[c]] | w # ws \<Rightarrow> (c # w) # ws)"

lemma split_dots_append:
  "CHR ''.'' \<notin> set xs \<Longrightarrow> split_dots (xs @ CHR ''.'' # ys) = xs # split_dots ys"
  by (induction xs) auto

lemma split_dots_single: "CHR ''.'' \<notin> set xs \<Longrightarrow> split_dots xs = [xs]"
  by (induction xs) auto

definition parse_dotted :: "string \<Rightarrow> u32 option" where
  "parse_dotted s =
     (case map dec_val (split_dots s) of
        [a, b, c, d] \<Rightarrow> Some (of_nat (a * 16777216 + b * 65536 + c * 256 + d))
      | _ \<Rightarrow> None)"

lemma octets_of_ip:
  fixes ip :: u32
  shows "unat (drop_bit 24 ip) = unat ip div 16777216"
    and "unat (drop_bit 16 ip AND 0xFF) = unat ip div 65536 mod 256"
    and "unat (drop_bit 8 ip AND 0xFF) = unat ip div 256 mod 256"
    and "unat (ip AND 0xFF) = unat ip mod 256"
proof -
  have m: "(0xFF :: u32) = mask 8" by (simp add: mask_eq_exp_minus_1)
  have low: "unat (w AND 0xFF) = unat w mod 256" for w :: u32
    unfolding m take_bit_eq_mask [symmetric] unsigned_take_bit_eq by (simp add: take_bit_eq_mod)
  have shift: "unat (drop_bit n ip) = unat ip div 2 ^ n" for n
    by (subst unat_drop_bit_eq) (simp add: drop_bit_eq_div)
  show "unat (drop_bit 24 ip) = unat ip div 16777216"
    and "unat (drop_bit 16 ip AND 0xFF) = unat ip div 65536 mod 256"
    and "unat (drop_bit 8 ip AND 0xFF) = unat ip div 256 mod 256"
    and "unat (ip AND 0xFF) = unat ip mod 256"
    unfolding low shift by simp_all
qed

text \<open>
  C27. \<open>ipstr\<close> never truncates (its 18-byte buffer is large enough), and the dotted string it
  writes denotes the address it was given.
\<close>

theorem ipstr_faithful: "length (ipstr ip) \<le> 15 \<and> parse_dotted (ipstr ip) = Some ip"
proof -
  let ?a = "unat ip div 16777216" and ?b = "unat ip div 65536 mod 256"
  let ?c = "unat ip div 256 mod 256" and ?d = "unat ip mod 256"
  let ?s = "dec_string ?a @ ''.'' @ dec_string ?b @ ''.'' @ dec_string ?c @ ''.'' @ dec_string ?d"
  have "?a < 256" using unat_u32_less [of ip] by (simp del: unat_u32_less)
  then have len: "length ?s \<le> 15"
    using length_dec_string [of ?a] length_dec_string [of ?b] length_dec_string [of ?c]
      length_dec_string [of ?d] by simp
  then have "take (18 - 1) ?s = ?s" by (intro take_all) simp
  then have s: "ipstr ip = ?s"
    unfolding ipstr_def octets_of_ip(1-3) unfolding octets_of_ip(4) .
  have "map dec_val (split_dots ?s) = [?a, ?b, ?c, ?d]"
    by (simp add: split_dots_append split_dots_single dec_string_no_dot dec_val_dec_string)
  then have "parse_dotted ?s = Some (of_nat (unat ip))"
    unfolding parse_dotted_def by (simp only: list.case base256_digits)
  with s len show ?thesis by simp
qed

end
