(* ===== verification/Environment.thy ===== *)
theory Environment
  imports Buffer Target
begin

text \<open>
  What surrounds the library. A value of type \<open>'w\<close> is the state of the world outside the
  engine: the kernel's sockets, the clock, the target set object the engine refers to, and
  whatever state the user's callbacks keep. The record \<open>os\<close> holds the system calls the
  sources make as functions on that world, the record \<open>port_list_ops\<close> the operations of
  \<open>leeloo::port_list_intervals\<close> that a host's state uses. Both are arguments of the model;
  what a theorem needs of them is one of its hypotheses.
\<close>

section \<open>System calls\<close>

text \<open>
  \<open>os_socket\<close> and \<open>os_connect\<close> return the call's value and \<open>errno\<close>. \<open>os_read\<close> returns
  \<open>None\<close> for \<open>-1\<close> and otherwise the bytes stored. \<open>os_epoll_wait\<close> returns \<open>None\<close> for \<open>-1\<close>
  and otherwise the file descriptors with their event masks.
\<close>

record 'w os =
  os_time :: "'w \<Rightarrow> int"
  os_junk :: "'w \<Rightarrow> junk"
  os_socket :: "int \<Rightarrow> int \<Rightarrow> 'w \<Rightarrow> (int \<times> int) \<times> 'w"
  os_connect :: "int \<Rightarrow> sockaddr_in \<Rightarrow> 'w \<Rightarrow> (int \<times> int) \<times> 'w"
  os_close :: "int \<Rightarrow> 'w \<Rightarrow> 'w"
  os_epoll_create :: "'w \<Rightarrow> 'w"
  os_epoll_add :: "int \<Rightarrow> nat \<Rightarrow> 'w \<Rightarrow> 'w"
  os_epoll_del :: "int \<Rightarrow> 'w \<Rightarrow> 'w"
  os_epoll_wait :: "nat \<Rightarrow> 'w \<Rightarrow> (int \<times> nat) list option \<times> 'w"
  os_fionread :: "int \<Rightarrow> 'w \<Rightarrow> u32 \<times> 'w"
  os_so_error :: "int \<Rightarrow> 'w \<Rightarrow> int \<times> 'w"
  os_read :: "int \<Rightarrow> u32 \<Rightarrow> 'w \<Rightarrow> u8 list option \<times> 'w"
  os_write :: "int \<Rightarrow> u8 list \<Rightarrow> 'w \<Rightarrow> int \<times> 'w"
  os_getpeername :: "int \<Rightarrow> 'w \<Rightarrow> sockaddr_in option"
  os_sa_junk :: "'w \<Rightarrow> sockaddr_in"
  os_so_type :: "int \<Rightarrow> 'w \<Rightarrow> int"
  os_so_protocol :: "int \<Rightarrow> 'w \<Rightarrow> int"

text \<open>\<open>ConnectedTarget::send\<close> writes to the socket and returns what \<open>write\<close> returned.\<close>

definition ct_send :: "'w os \<Rightarrow> connected_target \<Rightarrow> u8 list \<Rightarrow> 'w \<Rightarrow> int \<times> 'w" where
  "ct_send K ct bytes w = os_write K (ct_socket ct) bytes w"

text \<open>\<open>ns::timestamp()\<close> is \<open>time(NULL)\<close>.\<close>

definition timestamp :: "'w os \<Rightarrow> 'w \<Rightarrow> int" where
  "timestamp K w = os_time K w"

section \<open>Port lists\<close>

record 'pl port_list_ops =
  pl_empty :: 'pl
  pl_add :: "port \<Rightarrow> 'pl \<Rightarrow> 'pl"
  pl_intervals :: "'pl \<Rightarrow> nat"
  pl_aggregate :: "'pl \<Rightarrow> 'pl"
  pl_size :: "'pl \<Rightarrow> u32"

section \<open>State machines\<close>

text \<open>The common base class (\<open>state_machine.h\<close>); \<open>time_t\<close> values are integers.\<close>

record state_machine =
  sm_valid :: bool
  sm_ts :: int
  sm_watch_ts :: int

definition state_machine_new :: "int \<Rightarrow> state_machine" where
  "state_machine_new now = \<lparr>sm_valid = False, sm_ts = 0, sm_watch_ts = now\<rparr>"

definition update_ts :: "int \<Rightarrow> 'a state_machine_scheme \<Rightarrow> 'a state_machine_scheme" where
  "update_ts now s = s\<lparr>sm_ts := now\<rparr>"

definition update_watch_ts :: "int \<Rightarrow> 'a state_machine_scheme \<Rightarrow> 'a state_machine_scheme" where
  "update_watch_ts ts s = s\<lparr>sm_watch_ts := ts\<rparr>"

definition set_valid :: "bool \<Rightarrow> 'a state_machine_scheme \<Rightarrow> 'a state_machine_scheme" where
  "set_valid v s = s\<lparr>sm_valid := v\<rparr>"

text \<open>
  A host (\<open>host_state_machine.h\<close>). The constructor leaves \<open>_rand_idx_ip\<close> unset: \<open>None\<close>. The
  type \<open>'f\<close> stands for the closures stored in the program's \<open>std::function\<close> members; an
  empty \<open>std::function\<close> is \<open>None\<close>.
\<close>

record ('f, 'pl) host_sm = state_machine +
  on_alive_cb :: "'f option"
  ports_done :: 'pl
  rand_idx_ip :: "u32 option"

definition host_sm_new :: "'pl port_list_ops \<Rightarrow> int \<Rightarrow> ('f, 'pl) host_sm" where
  "host_sm_new L now =
     state_machine.extend (state_machine_new now)
       \<lparr>on_alive_cb = None, ports_done = pl_empty L, rand_idx_ip = None\<rparr>"

definition host_port_done :: "'pl port_list_ops \<Rightarrow> port \<Rightarrow> ('f, 'pl) host_sm \<Rightarrow> ('f, 'pl) host_sm" where
  "host_port_done L p h =
     (let h1 = h\<lparr>ports_done := pl_add L p (ports_done h)\<rparr>
      in if pl_intervals L (ports_done h1) > 100
         then h1\<lparr>ports_done := pl_aggregate L (ports_done h1)\<rparr>
         else h1)"

definition host_ports_done_count :: "'pl port_list_ops \<Rightarrow> ('f, 'pl) host_sm \<Rightarrow> u32" where
  "host_ports_done_count L h = pl_size L (ports_done h)"

text \<open>\<open>on_alive\<close> calls the stored closure; calling an empty \<open>std::function\<close> throws.\<close>

definition host_set_on_alive :: "'f option \<Rightarrow> ('f, 'pl) host_sm \<Rightarrow> ('f, 'pl) host_sm" where
  "host_set_on_alive a h = h\<lparr>on_alive_cb := a\<rparr>"

definition host_on_alive ::
  "('f \<Rightarrow> ('f, 'pl) host_sm \<times> 'w \<Rightarrow> ('f, 'pl) host_sm \<times> 'w) \<Rightarrow> ('f, 'pl) host_sm \<times> 'w
     \<Rightarrow> (('f, 'pl) host_sm \<times> 'w) res" where
  "host_on_alive call c =
     (case on_alive_cb (fst c) of None \<Rightarrow> Inl Bad_function_call | Some f \<Rightarrow> Inr (call f c))"

definition host_set_rand_idx_ip :: "u32 \<Rightarrow> ('f, 'pl) host_sm \<Rightarrow> ('f, 'pl) host_sm" where
  "host_set_rand_idx_ip i h = h\<lparr>rand_idx_ip := Some i\<rparr>"

definition host_rand_idx_ip :: "('f, 'pl) host_sm \<Rightarrow> u32 res" where
  "host_rand_idx_ip h = (case rand_idx_ip h of None \<Rightarrow> Inl Uninitialised | Some i \<Rightarrow> Inr i)"

end
