(* ===== verification/Lvl4.thy ===== *)
theory Lvl4
  imports Environment
begin

text \<open>
  The state of one connection (\<open>lvl4_state_machine.h/.cpp\<close>) and its data triggers
  (\<open>data_triggers.h/.cpp\<close>, \<open>data_trigger_base.h\<close>, \<open>data_trigger_variant.h\<close>). The variant's
  in-place storage holds one of four trigger classes: a datatype. A callback is a closure
  value of type \<open>'f\<close>; what running it does is given by the record \<open>actions\<close>. A data callback
  receives a pointer into the connection's own buffer, so it is given the offset and the
  size, and reads and writes the bytes through the connection state it is passed.
\<close>

section \<open>State\<close>

datatype process_code = NoMoreToProcess | CanProcessAgain | ConnectionEnd

datatype 'f trigger =
    Data_Trigger
  | Size_Data_Trigger "'f option" u32
  | Char_Data_Trigger "'f option" u8
  | Python_Data_Trigger 'f

record 'f lvl4_sm = state_machine +
  l4_reconnect :: bool
  l4_reprocess :: bool
  func_connect :: "'f option"
  l4_trigger :: "'f trigger"
  l4_buf :: lvl4_buffer

definition lvl4_sm_new :: "int \<Rightarrow> 'f lvl4_sm" where
  "lvl4_sm_new now =
     state_machine.extend (state_machine_new now)
       \<lparr>l4_reconnect = False, l4_reprocess = False, func_connect = None,
        l4_trigger = Data_Trigger, l4_buf = buf_new\<rparr>"

definition set_reconnect :: "bool \<Rightarrow> 'f lvl4_sm \<Rightarrow> 'f lvl4_sm" where
  "set_reconnect v l = l\<lparr>l4_reconnect := v\<rparr>"

definition set_on_connect :: "'f option \<Rightarrow> 'f lvl4_sm \<Rightarrow> 'f lvl4_sm" where
  "set_on_connect f l = l\<lparr>func_connect := f\<rparr>"

definition free_buffer :: "'f lvl4_sm \<Rightarrow> 'f lvl4_sm" where
  "free_buffer l = l\<lparr>l4_buf := buf_free (l4_buf l)\<rparr>"

definition set_trigger :: "'f trigger \<Rightarrow> 'f lvl4_sm \<Rightarrow> 'f lvl4_sm" where
  "set_trigger t l = l\<lparr>l4_trigger := t, l4_reprocess := True\<rparr>"

definition should_process_buffer :: "'f lvl4_sm \<Rightarrow> bool \<times> 'f lvl4_sm" where
  "should_process_buffer l =
     (if l4_reprocess l then (True, l\<lparr>l4_reprocess := False\<rparr>) else (False, l))"

definition remove_data_trigger :: "'f lvl4_sm \<Rightarrow> 'f lvl4_sm" where
  "remove_data_trigger l = (set_trigger Data_Trigger l)\<lparr>l4_reprocess := False\<rparr>"

section \<open>Callbacks\<close>

type_synonym ('f, 'pl, 'w) conn = "'f lvl4_sm \<times> ('f, 'pl) host_sm \<times> 'w"

record ('f, 'pl, 'w) actions =
  act_data :: "'f \<Rightarrow> connected_target \<Rightarrow> nat \<Rightarrow> u32 \<Rightarrow> ('f, 'pl, 'w) conn
                 \<Rightarrow> (bool \<times> ('f, 'pl, 'w) conn) res"
  act_connect :: "'f \<Rightarrow> connected_target \<Rightarrow> ('f, 'pl, 'w) conn \<Rightarrow> (bool \<times> ('f, 'pl, 'w) conn) res"
  act_python :: "'f \<Rightarrow> connected_target \<Rightarrow> u32 \<Rightarrow> ('f, 'pl, 'w) conn
                 \<Rightarrow> (process_code \<times> ('f, 'pl, 'w) conn) res"

text \<open>\<open>on_connect\<close> warns and refuses when no connect callback is set.\<close>

definition on_connect ::
  "('f, 'pl, 'w) actions \<Rightarrow> connected_target \<Rightarrow> ('f, 'pl, 'w) conn \<Rightarrow> (bool \<times> ('f, 'pl, 'w) conn) res"
where
  "on_connect A ct c =
     (case c of (l, h, w) \<Rightarrow>
        (case func_connect l of
           None \<Rightarrow> Inr (False, c)
         | Some f \<Rightarrow> act_connect A f ct c))"

section \<open>Triggers\<close>

text \<open>The position of the first occurrence of a byte (\<open>std::find\<close>).\<close>

fun find_byte :: "u8 \<Rightarrow> u8 list \<Rightarrow> nat option" where
  "find_byte c [] = None"
| "find_byte c (x # xs) = (if x = c then Some 0 else map_option Suc (find_byte c xs))"

definition find_byte_from :: "nat \<Rightarrow> u8 \<Rightarrow> u8 list \<Rightarrow> nat option" where
  "find_byte_from p c xs = map_option (\<lambda>i. p + i) (find_byte c (drop p xs))"

text \<open>What a trigger does after its callback returned: end, or pop the consumed bytes.\<close>

definition trigger_finish ::
  "u32 \<Rightarrow> bool \<times> ('f, 'pl, 'w) conn \<Rightarrow> (process_code \<times> ('f, 'pl, 'w) conn) res"
where
  "trigger_finish n r =
     (case r of (ret, l, h, w) \<Rightarrow>
        if \<not> ret then Inr (ConnectionEnd, l, h, w)
        else bind_res (buf_pop_by n (l4_buf l))
               (\<lambda>b. Inr (CanProcessAgain, l\<lparr>l4_buf := b\<rparr>, h, w)))"

definition size_trigger_process ::
  "('f, 'pl, 'w) actions \<Rightarrow> connected_target \<Rightarrow> 'f option \<Rightarrow> u32 \<Rightarrow> ('f, 'pl, 'w) conn
     \<Rightarrow> (process_code \<times> ('f, 'pl, 'w) conn) res"
where
  "size_trigger_process A ct f sz c =
     (case c of (l, h, w) \<Rightarrow>
        if buf_pos (l4_buf l) < sz then Inr (NoMoreToProcess, c)
        else case f of
            None \<Rightarrow> Inl Assertion_failed
          | Some g \<Rightarrow> bind_res (act_data A g ct 0 sz c) (trigger_finish sz))"

definition char_trigger_process ::
  "('f, 'pl, 'w) actions \<Rightarrow> connected_target \<Rightarrow> 'f option \<Rightarrow> u8 \<Rightarrow> u32 \<Rightarrow> ('f, 'pl, 'w) conn
     \<Rightarrow> (process_code \<times> ('f, 'pl, 'w) conn) res"
where
  "char_trigger_process A ct f ch prev_pos c =
     (case c of (l, h, w) \<Rightarrow>
        (case find_byte_from (unat prev_pos) ch (buf_contents (l4_buf l)) of
           None \<Rightarrow> Inr (NoMoreToProcess, c)
         | Some pos \<Rightarrow>
             (case f of
                None \<Rightarrow> Inl Bad_function_call
              | Some g \<Rightarrow>
                  bind_res (act_data A g ct 0 (of_nat pos) c) (trigger_finish (of_nat (pos + 1))))))"

definition trigger_process_buffer ::
  "('f, 'pl, 'w) actions \<Rightarrow> connected_target \<Rightarrow> u32 \<Rightarrow> ('f, 'pl, 'w) conn
     \<Rightarrow> (process_code \<times> ('f, 'pl, 'w) conn) res"
where
  "trigger_process_buffer A ct prev_pos c =
     (case c of (l, h, w) \<Rightarrow>
        (case l4_trigger l of
           Data_Trigger \<Rightarrow> Inr (NoMoreToProcess, c)
         | Size_Data_Trigger f sz \<Rightarrow> size_trigger_process A ct f sz c
         | Char_Data_Trigger f ch \<Rightarrow> char_trigger_process A ct f ch prev_pos c
         | Python_Data_Trigger f \<Rightarrow> act_python A f ct prev_pos c))"

section \<open>Processing the buffer\<close>

text \<open>
  The \<open>do \<dots> while (ret == CanProcessAgain)\<close> loop of \<open>process_lvl4_data\<close> and
  \<open>process_buffer\<close>: only the first round uses \<open>prev_pos\<close>. The loop can run forever (a
  \<open>SizeDataTrigger\<close> of size 0), so it is given fuel.
\<close>

fun process_loop ::
  "nat \<Rightarrow> ('f, 'pl, 'w) actions \<Rightarrow> connected_target \<Rightarrow> u32 \<Rightarrow> ('f, 'pl, 'w) conn
     \<Rightarrow> (bool \<times> ('f, 'pl, 'w) conn) res"
where
  "process_loop 0 A ct prev_pos c = Inl Out_of_fuel"
| "process_loop (Suc fuel) A ct prev_pos c =
     bind_res (trigger_process_buffer A ct prev_pos c)
       (\<lambda>(ret, c'). if ret = CanProcessAgain then process_loop fuel A ct 0 c'
                    else Inr (ret = NoMoreToProcess, c'))"

definition process_buffer ::
  "nat \<Rightarrow> ('f, 'pl, 'w) actions \<Rightarrow> connected_target \<Rightarrow> ('f, 'pl, 'w) conn
     \<Rightarrow> (bool \<times> ('f, 'pl, 'w) conn) res"
where
  "process_buffer fuel A ct c = process_loop fuel A ct 0 c"

definition process_lvl4_data ::
  "nat \<Rightarrow> 'w os \<Rightarrow> ('f, 'pl, 'w) actions \<Rightarrow> connected_target \<Rightarrow> u32 \<Rightarrow> ('f, 'pl, 'w) conn
     \<Rightarrow> (bool \<times> ('f, 'pl, 'w) conn) res"
where
  "process_lvl4_data fuel K A ct navail c =
     (case c of (l, h, w) \<Rightarrow>
        let prev_pos = buf_pos (l4_buf l);
            (p, b1) = buf_grow_by (os_junk K w) navail (l4_buf l);
            (nread, w1) = os_read K (ct_socket ct) navail w;
            l1 = l\<lparr>l4_buf := b1\<rparr>
        in (case nread of
              None \<Rightarrow> Inr (False, l1, h, w1)
            | Some [] \<Rightarrow> Inr (False, l1, h, w1)
            | Some bytes \<Rightarrow>
                bind_res (buf_write p bytes b1)
                  (\<lambda>b2. process_loop fuel A ct prev_pos (l1\<lparr>l4_buf := b2\<rparr>, h, w1))))"

section \<open>Searching\<close>

lemma find_byte_None [simp]: "find_byte c xs = None \<longleftrightarrow> c \<notin> set xs"
  by (induction xs) auto

lemma find_byte_notin [simp]: "c \<notin> set xs \<Longrightarrow> find_byte c xs = None"
  by simp

lemma find_byte_Some:
  "find_byte c xs = Some i \<longleftrightarrow> i < length xs \<and> xs ! i = c \<and> c \<notin> set (take i xs)"
proof (induction xs arbitrary: i)
  case (Cons x xs)
  then show ?case by (cases i) auto
qed simp

lemma find_byte_append:
  "find_byte c (xs @ ys) =
     (if c \<in> set xs then find_byte c xs else map_option (\<lambda>i. length xs + i) (find_byte c ys))"
  by (induction xs) (auto simp: option.map_comp comp_def map_option_case split: option.splits)

lemma find_byte_from_0: "find_byte_from 0 c xs = find_byte c xs"
  by (simp add: find_byte_from_def map_option_case split: option.splits)

lemma find_byte_from_eq:
  assumes "c \<notin> set (take p xs)"
  shows "find_byte_from p c xs = find_byte c xs"
proof (cases "p \<le> length xs")
  case True
  then show ?thesis
    using assms find_byte_append [of c "take p xs" "drop p xs"]
    by (simp add: find_byte_from_def min_def)
next
  case False
  then show ?thesis using assms by (simp add: find_byte_from_def)
qed

lemma find_byte_from_bound: "find_byte_from p c xs = Some i \<Longrightarrow> i < length xs"
  by (auto simp: find_byte_from_def find_byte_Some)

section \<open>Quiescence: nothing left for the current trigger\<close>

definition quiescent :: "'f lvl4_sm \<Rightarrow> bool" where
  "quiescent l =
     (case l4_trigger l of
        Data_Trigger \<Rightarrow> True
      | Size_Data_Trigger f sz \<Rightarrow> buf_pos (l4_buf l) < sz
      | Char_Data_Trigger f ch \<Rightarrow> ch \<notin> set (buf_contents (l4_buf l))
      | Python_Data_Trigger f \<Rightarrow> False)"

definition builtin_trigger :: "'f trigger \<Rightarrow> bool" where
  "builtin_trigger t = (case t of Python_Data_Trigger f \<Rightarrow> False | _ \<Rightarrow> True)"

lemma trigger_quiescent:
  "quiescent l \<Longrightarrow> trigger_process_buffer A ct 0 (l, h, w) = Inr (NoMoreToProcess, l, h, w)"
  by (auto simp: quiescent_def trigger_process_buffer_def size_trigger_process_def
      char_trigger_process_def find_byte_from_0 split: trigger.splits)

lemma trigger_finish_not_NoMore: "trigger_finish n r \<noteq> Inr (NoMoreToProcess, c)"
  by (cases r) (auto simp: trigger_finish_def bind_res_def split: sum.splits if_splits)

lemma trigger_NoMore_quiescent:
  assumes "trigger_process_buffer A ct 0 (l, h, w) = Inr (NoMoreToProcess, c')"
    and "builtin_trigger (l4_trigger l)"
  shows "c' = (l, h, w) \<and> quiescent l"
  using assms
  by (auto simp: quiescent_def builtin_trigger_def trigger_process_buffer_def
      size_trigger_process_def char_trigger_process_def find_byte_from_0 bind_res_eq_Inr
      trigger_finish_not_NoMore split: trigger.splits option.splits if_splits)

lemma process_buffer_quiescent:
  "quiescent l \<Longrightarrow> 0 < fuel \<Longrightarrow> process_buffer fuel A ct (l, h, w) = Inr (True, l, h, w)"
  by (cases fuel) (auto simp: process_buffer_def trigger_quiescent)

section \<open>The search position is an optimisation\<close>

lemma trigger_prev_pos:
  assumes "case l4_trigger l of
      Char_Data_Trigger f ch \<Rightarrow> ch \<notin> set (take (unat p) (buf_contents (l4_buf l)))
    | Python_Data_Trigger f \<Rightarrow> False | _ \<Rightarrow> True"
  shows "trigger_process_buffer A ct p (l, h, w) = trigger_process_buffer A ct 0 (l, h, w)"
  using assms
  by (auto simp: trigger_process_buffer_def char_trigger_process_def find_byte_from_eq
      find_byte_from_0 split: trigger.splits)

lemma process_loop_prev_pos:
  "trigger_process_buffer A ct p c = trigger_process_buffer A ct 0 c \<Longrightarrow>
     process_loop fuel A ct p c = process_loop fuel A ct 0 c"
  by (cases fuel) auto

lemma process_loop_ends_quiescent:
  assumes builtin: "\<And>ct l h w r l' h' w' f n. act_data A f ct 0 n (l, h, w) = Inr (r, l', h', w') \<Longrightarrow>
      builtin_trigger (l4_trigger l) \<Longrightarrow> builtin_trigger (l4_trigger l')"
  shows "process_loop fuel A ct 0 (l, h, w) = Inr (True, l', h', w') \<Longrightarrow>
    builtin_trigger (l4_trigger l) \<Longrightarrow> quiescent l' \<and> builtin_trigger (l4_trigger l')"
proof (induction fuel arbitrary: l h w)
  case (Suc fuel)
  from Suc.prems(1) obtain code l1 h1 w1
    where step: "trigger_process_buffer A ct 0 (l, h, w) = Inr (code, l1, h1, w1)"
      and rest: "(if code = CanProcessAgain then process_loop fuel A ct 0 (l1, h1, w1)
                  else Inr (code = NoMoreToProcess, l1, h1, w1)) = Inr (True, l', h', w')"
    by (auto simp: bind_res_eq_Inr)
  show ?case
  proof (cases "code = CanProcessAgain")
    case True
    have "builtin_trigger (l4_trigger l1)"
      using step True Suc.prems(2)
      by (auto simp: trigger_process_buffer_def size_trigger_process_def char_trigger_process_def
          trigger_finish_def bind_res_eq_Inr builtin_trigger_def split: trigger.splits option.splits
          if_splits dest!: builtin)
    with Suc.IH rest True show ?thesis by auto
  next
    case False
    with rest have "code = NoMoreToProcess" "(l1, h1, w1) = (l', h', w')" by auto
    with step have "trigger_process_buffer A ct 0 (l, h, w) = Inr (NoMoreToProcess, (l', h', w'))"
      by simp
    from trigger_NoMore_quiescent [OF this Suc.prems(2)] Suc.prems(2) show ?thesis by simp
  qed
qed simp

section \<open>Termination and safety of the processing loop\<close>

text \<open>
  A trigger the loop makes progress with: a callback is set, and a size trigger waits for at
  least one byte. A callback may rely on the number of bytes it is handed: \<open>adm f n\<close> says that
  \<open>f\<close> accepts \<open>n\<close> bytes. A character trigger hands over any number of bytes.
\<close>

definition progressing :: "('f \<Rightarrow> u32 \<Rightarrow> bool) \<Rightarrow> 'f trigger \<Rightarrow> bool" where
  "progressing adm t =
     (case t of
        Data_Trigger \<Rightarrow> True
      | Size_Data_Trigger f sz \<Rightarrow> sz \<noteq> 0 \<and> (\<exists>g. f = Some g \<and> adm g sz)
      | Char_Data_Trigger f ch \<Rightarrow> \<exists>g. f = Some g \<and> (\<forall>n. adm g n)
      | Python_Data_Trigger f \<Rightarrow> False)"

definition l4_ok :: "('f \<Rightarrow> u32 \<Rightarrow> bool) \<Rightarrow> 'f lvl4_sm \<Rightarrow> bool" where
  "l4_ok adm l \<longleftrightarrow> buf_ok (l4_buf l) \<and> progressing adm (l4_trigger l)"

text \<open>
  A callback's result is in order if the callback returns, leaves the buffer well-formed and
  at its size, and leaves a progressing trigger behind when it asks to go on.
\<close>

definition returns_ok :: "('f \<Rightarrow> u32 \<Rightarrow> bool) \<Rightarrow> 'f lvl4_sm \<Rightarrow> (bool \<times> ('f, 'pl, 'w) conn) res \<Rightarrow> bool" where
  "returns_ok adm l res =
     (case res of
        Inl e \<Rightarrow> False
      | Inr (r, l', h', w') \<Rightarrow>
          buf_ok (l4_buf l') \<and> buf_pos (l4_buf l') = buf_pos (l4_buf l)
          \<and> (r \<longrightarrow> progressing adm (l4_trigger l')))"

lemma returns_okE:
  assumes "returns_ok adm l res"
  obtains r l' h' w' where "res = Inr (r, l', h', w')" "buf_ok (l4_buf l')"
    "buf_pos (l4_buf l') = buf_pos (l4_buf l)" "r \<longrightarrow> progressing adm (l4_trigger l')"
  using assms by (auto simp: returns_ok_def split: sum.splits prod.splits)

lemma returns_ok_same_pos:
  "buf_pos (l4_buf l) = buf_pos (l4_buf k) \<Longrightarrow> returns_ok adm l res = returns_ok adm k res"
  by (auto simp: returns_ok_def split: sum.splits)

lemma returns_ok_Inr:
  "l4_ok adm l \<Longrightarrow> returns_ok adm l (Inr (r, l, h, w))"
  by (simp add: returns_ok_def l4_ok_def)

text \<open>
  What the trigger machinery relies on of the callbacks: one that is handed the first \<open>n\<close> bytes
  of a well-formed buffer returns in order.
\<close>

locale trigger_client =
  fixes adm :: "'f \<Rightarrow> u32 \<Rightarrow> bool" and A :: "('f, 'pl, 'w) actions"
  assumes data_returns:
    "l4_ok adm l \<Longrightarrow> adm f n \<Longrightarrow> unat n \<le> unat (buf_pos (l4_buf l)) \<Longrightarrow> returns_ok adm l (act_data A f ct 0 n (l, h, w))"
begin

text \<open>Outcome of one trigger round: no fault, and a round that asks for another has consumed bytes.\<close>

lemma finish_consumes:
  assumes "l4_ok adm l" and "adm f n" and "unat n \<le> unat (buf_pos (l4_buf l))" and "0 < unat m"
    and "unat m \<le> unat (buf_pos (l4_buf l))"
  shows "\<exists>code l' h' w'.
    bind_res (act_data A f ct 0 n (l, h, w)) (trigger_finish m) = Inr (code, l', h', w')
    \<and> buf_ok (l4_buf l') \<and> code \<noteq> NoMoreToProcess
    \<and> (code = CanProcessAgain \<longrightarrow> l4_ok adm l' \<and> unat (buf_pos (l4_buf l')) < unat (buf_pos (l4_buf l)))"
proof -
  obtain r l1 h1 w1 where d: "act_data A f ct 0 n (l, h, w) = Inr (r, l1, h1, w1)"
    "buf_ok (l4_buf l1)" "buf_pos (l4_buf l1) = buf_pos (l4_buf l)"
    "r \<longrightarrow> progressing adm (l4_trigger l1)"
    using data_returns [OF assms(1,2,3)] by (rule returns_okE)
  have m: "m \<le> buf_pos (l4_buf l1)" using d(3) assms(5) by (simp add: word_le_nat_alt)
  obtain b where b: "buf_pop_by m (l4_buf l1) = Inr b" "buf_ok b" "buf_pos b = buf_pos (l4_buf l1) - m"
    using buf_pop_by_spec [OF d(2) m] by blast
  have "unat (buf_pos b) < unat (buf_pos (l4_buf l))"
    using b(3) m d(3) assms(4,5) by (simp add: unat_sub)
  with d b show ?thesis
    by (cases r) (auto simp: trigger_finish_def l4_ok_def)
qed

lemma round:
  assumes "l4_ok adm l"
  shows "\<exists>code l' h' w'. trigger_process_buffer A ct p (l, h, w) = Inr (code, l', h', w')
    \<and> buf_ok (l4_buf l') \<and> (code = NoMoreToProcess \<longrightarrow> l' = l)
    \<and> (code = CanProcessAgain \<longrightarrow> l4_ok adm l' \<and> unat (buf_pos (l4_buf l')) < unat (buf_pos (l4_buf l)))"
proof (cases "l4_trigger l")
  case (Size_Data_Trigger f sz)
  with assms obtain g where g: "f = Some g" "adm g sz" "0 < unat sz"
    by (auto simp: l4_ok_def progressing_def unat_gt_0)
  show ?thesis
  proof (cases "buf_pos (l4_buf l) < sz")
    case True
    with Size_Data_Trigger assms show ?thesis
      by (simp add: trigger_process_buffer_def size_trigger_process_def l4_ok_def)
  next
    case False
    then have "unat sz \<le> unat (buf_pos (l4_buf l))" by (simp add: word_less_nat_alt)
    from finish_consumes [OF assms g(2) this g(3) this, of ct h w] show ?thesis
      using Size_Data_Trigger g False
      by (auto simp: trigger_process_buffer_def size_trigger_process_def)
  qed
next
  case (Char_Data_Trigger f ch)
  with assms obtain g where g: "f = Some g" "\<And>n. adm g n" by (auto simp: l4_ok_def progressing_def)
  let ?F = "find_byte_from (unat p) ch (buf_contents (l4_buf l))"
  show ?thesis
  proof (cases ?F)
    case None
    with Char_Data_Trigger assms show ?thesis
      by (simp add: trigger_process_buffer_def char_trigger_process_def l4_ok_def)
  next
    case (Some i)
    have ok: "buf_ok (l4_buf l)" using assms by (simp add: l4_ok_def)
    have i: "i < unat (buf_pos (l4_buf l))"
      using find_byte_from_bound [OF Some] ok by (simp add: length_buf_contents)
    moreover have "unat (buf_pos (l4_buf l)) < 1073741824"
      using buf_ok_pos_less [OF ok] by simp
    ultimately have "i + 1 < 4294967296" by linarith
    then have u: "unat (of_nat i :: u32) = i" "unat (of_nat (i + 1) :: u32) = i + 1"
      using unat_of_nat_u32 [of i] unat_of_nat_u32 [of "i + 1"] by simp_all
    from finish_consumes [OF assms, of g "of_nat i" "of_nat (i + 1)" ct h w] i u g(2) show ?thesis
      using Char_Data_Trigger Some g(1)
      by (auto simp: trigger_process_buffer_def char_trigger_process_def simp del: of_nat_add)
  qed
qed (use assms in \<open>auto simp: trigger_process_buffer_def l4_ok_def progressing_def\<close>)

lemma loop_returns:
  "l4_ok adm l \<Longrightarrow> unat (buf_pos (l4_buf l)) < fuel \<Longrightarrow>
     \<exists>r l' h' w'. process_loop fuel A ct p (l, h, w) = Inr (r, l', h', w') \<and> buf_ok (l4_buf l')
       \<and> (r \<longrightarrow> l4_ok adm l')"
proof (induction fuel arbitrary: l h w p)
  case (Suc fuel)
  obtain code l1 h1 w1 where r: "trigger_process_buffer A ct p (l, h, w) = Inr (code, l1, h1, w1)"
    "buf_ok (l4_buf l1)" "code = NoMoreToProcess \<longrightarrow> l1 = l"
    "code = CanProcessAgain \<longrightarrow> l4_ok adm l1 \<and> unat (buf_pos (l4_buf l1)) < unat (buf_pos (l4_buf l))"
    using round [OF Suc.prems(1), of ct p h w] by blast
  show ?case
  proof (cases "code = CanProcessAgain")
    case True
    with r Suc.prems have "l4_ok adm l1" "unat (buf_pos (l4_buf l1)) < fuel" by auto
    from Suc.IH [OF this, of 0 h1 w1] r True show ?thesis by auto
  next
    case False
    with r Suc.prems show ?thesis by (auto simp: l4_ok_def)
  qed
qed simp

end

section \<open>Framing\<close>

text \<open>
  The specification of the two built-in triggers: how many bytes of the input form the next
  frame, and how many are consumed with it.
\<close>

definition next_frame :: "'f trigger \<Rightarrow> u8 list \<Rightarrow> (nat \<times> nat) option" where
  "next_frame t xs =
     (case t of
        Size_Data_Trigger f sz \<Rightarrow>
          (if sz \<noteq> 0 \<and> unat sz \<le> length xs then Some (unat sz, unat sz) else None)
      | Char_Data_Trigger f ch \<Rightarrow> map_option (\<lambda>i. (i, i + 1)) (find_byte ch xs)
      | _ \<Rightarrow> None)"

lemma next_frame_bounds: "next_frame t xs = Some (k, m) \<Longrightarrow> 0 < m \<and> m \<le> length xs \<and> k \<le> m"
  by (auto simp: next_frame_def find_byte_Some unat_gt_0 split: trigger.splits if_splits)

lemma next_frame_append: "next_frame t xs = Some (k, m) \<Longrightarrow> next_frame t (xs @ ys) = Some (k, m)"
  by (auto simp: next_frame_def find_byte_append split: trigger.splits if_splits)

function frames :: "'f trigger \<Rightarrow> u8 list \<Rightarrow> u8 list list \<times> u8 list" where
  "frames t xs =
     (case next_frame t xs of
        None \<Rightarrow> ([], xs)
      | Some (k, m) \<Rightarrow> (case frames t (drop m xs) of (fs, r) \<Rightarrow> (take k xs # fs, r)))"
  by pat_completeness auto
termination
  by (relation "measure (\<lambda>(t, xs). length xs)") (auto dest: next_frame_bounds)

declare frames.simps [simp del]

lemma frames_None: "next_frame t xs = None \<Longrightarrow> frames t xs = ([], xs)"
  by (simp add: frames.simps [of t xs])

lemma frames_Some:
  "next_frame t xs = Some (k, m) \<Longrightarrow>
     frames t xs = (take k xs # fst (frames t (drop m xs)), snd (frames t (drop m xs)))"
  by (simp add: frames.simps [of t xs] split: prod.splits)

lemma frames_append:
  "frames t (xs @ ys) =
     (fst (frames t xs) @ fst (frames t (snd (frames t xs) @ ys)),
      snd (frames t (snd (frames t xs) @ ys)))"
proof (induction t xs rule: frames.induct)
  case (1 t xs)
  show ?case
  proof (cases "next_frame t xs")
    case None
    then show ?thesis by (simp add: frames_None)
  next
    case (Some km)
    then obtain k m where km: "next_frame t xs = Some (k, m)" by (cases km) auto
    then have "m \<le> length xs" "k \<le> length xs" using next_frame_bounds by force+
    with km "1.IH" [OF km refl] show ?thesis
      by (simp add: frames_Some [OF km] frames_Some [OF next_frame_append [OF km]])
  qed
qed

text \<open>
  A callback that only observes: given bytes of a well-formed buffer it records them, asks to go on
  and leaves the connection as it is.
\<close>

definition observes :: "('f, 'pl, 'w) actions \<Rightarrow> 'f \<Rightarrow> (u8 list \<Rightarrow> 'w \<Rightarrow> 'w) \<Rightarrow> bool" where
  "observes A f log \<longleftrightarrow>
     (\<forall>ct n l h w. buf_ok (l4_buf l) \<longrightarrow> unat n \<le> unat (buf_pos (l4_buf l)) \<longrightarrow>
        act_data A f ct 0 n (l, h, w) = Inr (True, l, h, log (take (unat n) (buf_contents (l4_buf l))) w))"

definition framing_trigger :: "'f \<Rightarrow> 'f trigger \<Rightarrow> bool" where
  "framing_trigger f t \<longleftrightarrow>
     (case t of
        Size_Data_Trigger g sz \<Rightarrow> g = Some f \<and> sz \<noteq> 0
      | Char_Data_Trigger g ch \<Rightarrow> g = Some f
      | _ \<Rightarrow> False)"

lemma trigger_round_frame:
  assumes "observes A f log" and "buf_ok (l4_buf l)" and "framing_trigger f (l4_trigger l)"
    and "next_frame (l4_trigger l) (buf_contents (l4_buf l)) = Some (k, m)"
  shows "\<exists>b. trigger_process_buffer A ct 0 (l, h, w) =
      Inr (CanProcessAgain, l\<lparr>l4_buf := b\<rparr>, h, log (take k (buf_contents (l4_buf l))) w)
    \<and> buf_ok b \<and> buf_contents b = drop m (buf_contents (l4_buf l))"
proof -
  have len: "length (buf_contents (l4_buf l)) = unat (buf_pos (l4_buf l))"
    using assms(2) by (rule length_buf_contents)
  have small: "unat (buf_pos (l4_buf l)) < 1073741824"
    using buf_ok_pos_less [OF assms(2)] by simp
  have bnd: "0 < m" "m \<le> unat (buf_pos (l4_buf l))" "k \<le> m"
    using next_frame_bounds [OF assms(4)] len by auto
  have um: "unat (of_nat m :: u32) = m" "unat (of_nat k :: u32) = k"
    using bnd small by (intro unat_of_nat_u32; linarith)+
  obtain b where b: "buf_pop_by (of_nat m) (l4_buf l) = Inr b" "buf_ok b"
      "buf_contents b = drop m (buf_contents (l4_buf l))"
    using buf_pop_by_spec [OF assms(2), of "of_nat m"] um bnd by (auto simp: word_le_nat_alt)
  have "trigger_process_buffer A ct 0 (l, h, w) =
      trigger_finish (of_nat m) (True, l, h, log (take k (buf_contents (l4_buf l))) w)"
  proof (cases "l4_trigger l")
    case (Size_Data_Trigger g sz)
    with assms(3,4) len have "g = Some f" "k = unat sz" "m = unat sz" "\<not> buf_pos (l4_buf l) < sz"
      by (auto simp: framing_trigger_def next_frame_def word_less_nat_alt split: if_splits)
    with Size_Data_Trigger assms(1,2) bnd show ?thesis
      by (simp add: trigger_process_buffer_def size_trigger_process_def observes_def)
  next
    case (Char_Data_Trigger g ch)
    with assms(3,4) have "g = Some f" "m = k + 1" "find_byte ch (buf_contents (l4_buf l)) = Some k"
      by (auto simp: framing_trigger_def next_frame_def)
    with Char_Data_Trigger assms(1,2) um bnd show ?thesis
      by (simp add: trigger_process_buffer_def char_trigger_process_def find_byte_from_0 observes_def)
  qed (use assms(3) in \<open>auto simp: framing_trigger_def\<close>)
  with b show ?thesis by (intro exI [of _ b]) (simp add: trigger_finish_def)
qed

lemma loop_delivers_frames:
  assumes "observes A f log"
  shows "buf_ok (l4_buf l) \<Longrightarrow> framing_trigger f (l4_trigger l) \<Longrightarrow>
    length (fst (frames (l4_trigger l) (buf_contents (l4_buf l)))) < fuel \<Longrightarrow>
    \<exists>b. process_loop fuel A ct 0 (l, h, w) =
      Inr (True, l\<lparr>l4_buf := b\<rparr>, h, fold log (fst (frames (l4_trigger l) (buf_contents (l4_buf l)))) w)
    \<and> buf_ok b \<and> buf_contents b = snd (frames (l4_trigger l) (buf_contents (l4_buf l)))"
proof (induction fuel arbitrary: l w)
  case (Suc fuel)
  let ?xs = "buf_contents (l4_buf l)"
  show ?case
  proof (cases "next_frame (l4_trigger l) ?xs")
    case None
    then have "quiescent l"
      using Suc.prems(1,2)
      by (auto simp: quiescent_def next_frame_def framing_trigger_def length_buf_contents
          word_less_nat_alt split: trigger.splits if_splits)
    with None Suc.prems(1) show ?thesis
      by (intro exI [of _ "l4_buf l"]) (simp add: trigger_quiescent frames_None)
  next
    case (Some km)
    then obtain k m where km: "next_frame (l4_trigger l) ?xs = Some (k, m)" by (cases km) auto
    obtain b where b: "trigger_process_buffer A ct 0 (l, h, w) =
        Inr (CanProcessAgain, l\<lparr>l4_buf := b\<rparr>, h, log (take k ?xs) w)" "buf_ok b"
        "buf_contents b = drop m ?xs"
      using trigger_round_frame [OF assms Suc.prems(1,2) km, of ct h w] by blast
    let ?l = "l\<lparr>l4_buf := b\<rparr>"
    have "\<exists>b'. process_loop fuel A ct 0 (?l, h, log (take k ?xs) w) =
        Inr (True, ?l\<lparr>l4_buf := b'\<rparr>, h,
          fold log (fst (frames (l4_trigger ?l) (buf_contents (l4_buf ?l)))) (log (take k ?xs) w))
      \<and> buf_ok b' \<and> buf_contents b' = snd (frames (l4_trigger ?l) (buf_contents (l4_buf ?l)))"
      using b Suc.prems frames_Some [OF km] by (intro Suc.IH) auto
    then show ?thesis using b by (auto simp: frames_Some [OF km])
  qed
qed simp

lemma frames_shorter: "length (fst (frames t xs)) + length (snd (frames t xs)) \<le> length xs"
proof (induction t xs rule: frames.induct)
  case (1 t xs)
  show ?case
  proof (cases "next_frame t xs")
    case None
    then show ?thesis by (simp add: frames_None)
  next
    case (Some km)
    then obtain k m where km: "next_frame t xs = Some (k, m)" by (cases km) auto
    with "1.IH" [OF km refl] next_frame_bounds [OF km] show ?thesis
      by (auto simp: frames_Some [OF km])
  qed
qed

text \<open>A connection whose callback appends what it receives to a log, for the witnesses below.\<close>

definition logger :: "(unit, unit, u8 list list) actions" where
  "logger = \<lparr>act_data = (\<lambda>f ct off n (l, h, w). Inr (True, l, h, w @ [take (unat n) (buf_contents (l4_buf l))])),
             act_connect = (\<lambda>f ct c. Inr (True, c)),
             act_python = (\<lambda>f ct p c. Inr (NoMoreToProcess, c))\<rparr>"

definition unit_ports :: "unit port_list_ops" where
  "unit_ports = \<lparr>pl_empty = (), pl_add = (\<lambda>_ u. u), pl_intervals = (\<lambda>_. 0), pl_aggregate = id,
                 pl_size = (\<lambda>_. 0)\<rparr>"

lemma logger_observes: "observes logger f (\<lambda>x w. w @ [x])"
  by (simp add: observes_def logger_def)

text \<open>
  C8. With a size or character trigger whose callback observes, processing the buffer hands the
  callback exactly the frames the specification cuts the buffered bytes into, in order, and
  leaves the incomplete rest in the buffer; as many rounds as there are frames, plus one,
  are enough.
\<close>

theorem trigger_delivers_frames:
  assumes "observes A f log" and "buf_ok (l4_buf l)" and "framing_trigger f (l4_trigger l)"
    and "length (fst (frames (l4_trigger l) (buf_contents (l4_buf l)))) < fuel"
  shows "\<exists>b. process_buffer fuel A ct (l, h, w) =
      Inr (True, l\<lparr>l4_buf := b\<rparr>, h, fold log (fst (frames (l4_trigger l) (buf_contents (l4_buf l)))) w)
    \<and> buf_ok b \<and> buf_contents b = snd (frames (l4_trigger l) (buf_contents (l4_buf l)))"
  unfolding process_buffer_def using assms by (rule loop_delivers_frames)

definition logger_conn :: "'f trigger \<Rightarrow> u8 list \<Rightarrow> 'f lvl4_sm" where
  "logger_conn t xs =
     (lvl4_sm_new 0)\<lparr>l4_trigger := t,
        l4_buf := \<lparr>buf_mem = Some (xs @ replicate (3 * length xs) 0),
                  buf_size = of_nat (length xs), buf_pos = of_nat (length xs)\<rparr>\<rparr>"

lemmas logger_conn_simps =
  logger_conn_def lvl4_sm_new_def lvl4_sm.defs state_machine.defs state_machine_new_def
  buf_ok_def buf_contents_def framing_trigger_def

theorem trigger_delivers_frames_witness:
  "\<exists>b. process_buffer 3 logger (Connected_Target 3 (Target 1 (Port 80 0)))
      (logger_conn (Char_Data_Trigger (Some ()) 10) [1, 2, 10, 3, 10, 4], host_sm_new unit_ports 0, []) =
      Inr (True, (logger_conn (Char_Data_Trigger (Some ()) 10) [1, 2, 10, 3, 10, 4])\<lparr>l4_buf := b\<rparr>,
           host_sm_new unit_ports 0, [[1, 2], [3]])
    \<and> buf_ok b \<and> buf_contents b = [4]"
  using trigger_delivers_frames [OF logger_observes, of
      "logger_conn (Char_Data_Trigger (Some ()) 10) [1, 2, 10, 3, 10, 4]" "()" 3
      "Connected_Target 3 (Target 1 (Port 80 0))" "host_sm_new unit_ports 0" "[]"]
  by (simp add: logger_conn_simps frames.simps next_frame_def)



section \<open>Receiving data\<close>

lemma received_contents:
  assumes "buf_ok b" and "length bytes \<le> unat n" and "unat (buf_pos b) + unat n < 2 ^ 30"
  shows "\<exists>b2 rest. buf_write (unat (buf_pos b)) bytes (snd (buf_grow_by junk n b)) = Inr b2
    \<and> buf_ok b2 \<and> buf_contents b2 = buf_contents b @ bytes @ rest
    \<and> length rest = unat n - length bytes"
proof -
  let ?g = "snd (buf_grow_by junk n b)"
  have g: "buf_ok ?g" "length (buf_contents ?g) = length (buf_contents b) + unat n"
      "take (length (buf_contents b)) (buf_contents ?g) = buf_contents b"
    using grow_by_extends_aux [OF assms(1,3), of junk] by auto
  have len: "length (buf_contents b) = unat (buf_pos b)"
    using assms(1) by (rule length_buf_contents)
  have "unat (buf_pos b) + length bytes \<le> unat (buf_pos ?g)"
    using g len assms(2) by (simp add: length_buf_contents)
  from buf_write_contents [OF g(1) this] obtain b2 where
    "buf_write (unat (buf_pos b)) bytes ?g = Inr b2" "buf_ok b2"
    "buf_contents b2 = take (unat (buf_pos b)) (buf_contents ?g) @ bytes
       @ drop (unat (buf_pos b) + length bytes) (buf_contents ?g)"
    by blast
  with g len assms(2) show ?thesis
    by (intro exI [of _ b2] exI [of _ "drop (unat (buf_pos b) + length bytes) (buf_contents ?g)"]) simp
qed

lemma received_rescan:
  assumes q: "quiescent l" and ok: "buf_ok (l4_buf l)"
    and rd: "os_read K (ct_socket ct) n w = (Some bytes, w1)" and ne: "bytes \<noteq> []"
    and le: "length bytes \<le> unat n" and room: "unat (buf_pos (l4_buf l)) + unat n < 2 ^ 30"
  shows "\<exists>b rest. process_lvl4_data fuel K A ct n (l, h, w) = process_buffer fuel A ct (l\<lparr>l4_buf := b\<rparr>, h, w1)
    \<and> buf_ok b \<and> buf_contents b = buf_contents (l4_buf l) @ bytes @ rest
    \<and> length rest = unat n - length bytes"
proof -
  let ?g = "buf_grow_by (os_junk K w) n (l4_buf l)"
  obtain b rest where b: "buf_write (unat (buf_pos (l4_buf l))) bytes (snd ?g) = Inr b"
    "buf_ok b" "buf_contents b = buf_contents (l4_buf l) @ bytes @ rest"
    "length rest = unat n - length bytes"
    using received_contents [OF ok le room] by blast
  have "take (unat (buf_pos (l4_buf l))) (buf_contents b) = buf_contents (l4_buf l)"
    using b(3) ok by (simp add: length_buf_contents)
  then have "trigger_process_buffer A ct (buf_pos (l4_buf l)) (l\<lparr>l4_buf := b\<rparr>, h, w1)
      = trigger_process_buffer A ct 0 (l\<lparr>l4_buf := b\<rparr>, h, w1)"
    using q by (intro trigger_prev_pos) (auto simp: quiescent_def split: trigger.splits)
  then have "process_loop fuel A ct (buf_pos (l4_buf l)) (l\<lparr>l4_buf := b\<rparr>, h, w1)
      = process_buffer fuel A ct (l\<lparr>l4_buf := b\<rparr>, h, w1)"
    unfolding process_buffer_def by (rule process_loop_prev_pos)
  moreover have "process_lvl4_data fuel K A ct n (l, h, w)
      = process_loop fuel A ct (buf_pos (l4_buf l)) (l\<lparr>l4_buf := b\<rparr>, h, w1)"
    using rd ne b(1) buf_grow_by_pos [of "os_junk K w" n "l4_buf l"]
    by (cases bytes) (auto simp: process_lvl4_data_def Let_def split: prod.splits)
  ultimately show ?thesis using b by auto
qed

text \<open>
  C10. When nothing was left for the trigger before the data came, \<open>process_lvl4_data\<close> does what
  processing the whole extended buffer from its start would do, although it only searches the
  new bytes. The extended buffer holds the old bytes, the \<open>nread\<close> bytes read, and
  \<open>navail - nread\<close> further bytes that were never received.
\<close>

theorem process_lvl4_data_rescans:
  assumes q: "quiescent l" and ok: "buf_ok (l4_buf l)"
    and rd: "os_read K (ct_socket ct) n w = (Some bytes, w1)" and ne: "bytes \<noteq> []"
    and le: "length bytes \<le> unat n" and room: "unat (buf_pos (l4_buf l)) + unat n < 2 ^ 30"
  shows "\<exists>b rest. process_lvl4_data fuel K A ct n (l, h, w) = process_buffer fuel A ct (l\<lparr>l4_buf := b\<rparr>, h, w1)
    \<and> buf_ok b \<and> buf_contents b = buf_contents (l4_buf l) @ bytes @ rest
    \<and> length rest = unat n - length bytes"
  using assms by (rule received_rescan)

definition no_os :: "'w os" where
  "no_os = \<lparr>os_time = (\<lambda>w. 0), os_junk = (\<lambda>w _. 0), os_socket = (\<lambda>_ _ w. ((-1, 24), w)),
     os_connect = (\<lambda>_ _ w. ((-1, 111), w)), os_close = (\<lambda>_ w. w), os_epoll_create = (\<lambda>w. w),
     os_epoll_add = (\<lambda>_ _ w. w), os_epoll_del = (\<lambda>_ w. w), os_epoll_wait = (\<lambda>_ w. (Some [], w)),
     os_fionread = (\<lambda>_ w. (0, w)), os_so_error = (\<lambda>_ w. (0, w)), os_read = (\<lambda>_ _ w. (None, w)),
     os_write = (\<lambda>_ bs w. (int (length bs), w)), os_getpeername = (\<lambda>_ w. None),
     os_sa_junk = (\<lambda>w. \<lparr>sin_family = 0, sin_addr = (0, 0, 0, 0), sin_port = (0, 0)\<rparr>),
     os_so_type = (\<lambda>_ w. 1), os_so_protocol = (\<lambda>_ w. 6)\<rparr>"

theorem process_lvl4_data_rescans_witness:
  "\<exists>b rest. process_lvl4_data 9 (no_os\<lparr>os_read := \<lambda>_ _ w. (Some [7, 8], w)\<rparr>) logger
      (Connected_Target 3 (Target 1 (Port 80 0))) 2
      (logger_conn (Char_Data_Trigger (Some ()) 10) [5], host_sm_new unit_ports 0, [])
    = process_buffer 9 logger (Connected_Target 3 (Target 1 (Port 80 0)))
      ((logger_conn (Char_Data_Trigger (Some ()) 10) [5])\<lparr>l4_buf := b\<rparr>, host_sm_new unit_ports 0, [])
    \<and> buf_ok b \<and> buf_contents b = [5] @ [7, 8] @ rest \<and> length rest = 0"
  using process_lvl4_data_rescans [of "logger_conn (Char_Data_Trigger (Some ()) 10) [5]"
      "no_os\<lparr>os_read := \<lambda>_ _ w. (Some [7, 8], w)\<rparr>" "Connected_Target 3 (Target 1 (Port 80 0))" 2 "[]"
      "[7, 8]" "[]" 9 logger "host_sm_new unit_ports 0"]
  by (simp add: logger_conn_simps quiescent_def)

section \<open>A zero-size trigger never returns\<close>

lemma buf_pop_by_0: "buf_ok b \<Longrightarrow> buf_pop_by 0 b = Inr b"
  by (cases b) (auto simp: buf_pop_by_def buf_ok_def Let_def split: option.splits)

lemma zero_size_loop:
  assumes "l4_trigger l = Size_Data_Trigger (Some f) 0" and "buf_ok (l4_buf l)"
    and "\<And>w. \<exists>w'. act_data A f ct 0 0 (l, h, w) = Inr (True, l, h, w')"
  shows "process_buffer fuel A ct (l, h, w) = Inl Out_of_fuel"
proof -
  have "process_loop fuel A ct 0 (l, h, w) = Inl Out_of_fuel" for w
  proof (induction fuel arbitrary: w)
    case (Suc fuel)
    obtain w' where "act_data A f ct 0 0 (l, h, w) = Inr (True, l, h, w')" using assms(3) by blast
    then have "trigger_process_buffer A ct 0 (l, h, w) = Inr (CanProcessAgain, l, h, w')"
      using assms(1,2)
      by (simp add: trigger_process_buffer_def size_trigger_process_def trigger_finish_def buf_pop_by_0)
    with Suc.IH show ?case by simp
  qed simp
  then show ?thesis by (simp add: process_buffer_def)
qed

text \<open>
  C40. A \<open>SizeDataTrigger\<close> of size 0 whose callback keeps asking to go on keeps the processing
  loop busy forever: no number of rounds suffices.
\<close>

theorem zero_size_trigger_diverges:
  assumes "l4_trigger l = Size_Data_Trigger (Some f) 0" and "buf_ok (l4_buf l)"
    and "\<And>w. \<exists>w'. act_data A f ct 0 0 (l, h, w) = Inr (True, l, h, w')"
  shows "process_buffer fuel A ct (l, h, w) = Inl Out_of_fuel"
  using assms by (rule zero_size_loop)

theorem zero_size_trigger_diverges_witness:
  "process_buffer 1000 logger (Connected_Target 3 (Target 1 (Port 80 0)))
     (logger_conn (Size_Data_Trigger (Some ()) 0) [5], host_sm_new unit_ports 0, []) = Inl Out_of_fuel"
  by (rule zero_size_trigger_diverges) (simp_all add: logger_conn_simps logger_def)

end
