(* ===== verification/Engine.thy ===== *)
theory Engine
  imports Lvl4
begin

text \<open>
  The scanning engines (\<open>engine.h/.cpp\<close>, \<open>async_engine.h/.cpp\<close>). The state of an \<open>AsyncEngine\<close>
  object is the record \<open>engine\<close>; its field \<open>world\<close> holds everything outside the object: the kernel,
  the target set the engine refers to, and the state of the user's callbacks. What acts on the
  world is collected in the record \<open>env\<close>. Each member function is a definition that maps the state
  to a result and the new state; references to the entries of the engine's maps are reads followed
  by writes of those entries. Log output is left out.
\<close>

section \<open>State and environment\<close>

record ('f, 'pl, 'w) engine =
  world :: 'w
  file_autosave :: string
  last_save :: "int option"
  time_autosave :: int
  hosts_sms :: "(u32, ('f, 'pl) host_sm) smap"
  lvl4_sms :: "(int, 'f lvl4_sm) smap"
  sockets_targets :: "(int, target) smap"
  avail_socks :: u32
  callback_lvl4_connected :: "'f option"
  nsockets :: u32
  timeout :: u32
  watch_timeout :: u32
  watch_timeout_cb :: "'f option"
  nlaunched :: u64
  ndone :: u64
  callback_finish :: "'f option"
  callback_timeout_target :: "'f option"
  callback_status :: "'f option"
  timeout_status_display :: u32
  last_time_status_display :: int

record ('f, 'pl, 'w) env =
  kernel :: "'w os"
  actions_of :: "('f, 'pl, 'w) actions"
  port_ops :: "'pl port_list_ops"
  port_socket_type :: "port \<Rightarrow> int"
  port_socket_proto :: "port \<Rightarrow> int"
  protocol_from_socket_type :: "int \<Rightarrow> int \<Rightarrow> u16"
  ts_init :: "'w \<Rightarrow> 'w res"
  ts_next_target :: "'w \<Rightarrow> (target option \<times> 'w) res"
  ts_target_finished :: "target \<Rightarrow> ('f, 'pl) host_sm \<times> 'w \<Rightarrow> (bool \<times> ('f, 'pl) host_sm \<times> 'w) res"
  ts_init_host_sm :: "target \<Rightarrow> ('f, 'pl) host_sm \<times> 'w \<Rightarrow> ('f, 'pl) host_sm \<times> 'w"
  ts_save_state :: "string \<Rightarrow> 'w \<Rightarrow> 'w res"
  ts_restore_state :: "string \<Rightarrow> 'w \<Rightarrow> 'w res"
  call_finish :: "'f \<Rightarrow> target \<Rightarrow> lvl4_buffer \<Rightarrow> int \<Rightarrow> 'w \<Rightarrow> 'w res"
  call_status :: "'f \<Rightarrow> u32 \<Rightarrow> u32 \<Rightarrow> 'w \<Rightarrow> 'w res"
  call_watch_timeout :: "'f \<Rightarrow> connected_target \<Rightarrow> 'w \<Rightarrow> (bool \<times> 'w) res"
  call_timeout_target :: "'f \<Rightarrow> target \<Rightarrow> 'w \<Rightarrow> (u32 \<times> 'w) res"

type_synonym ('f, 'pl, 'w) step = "('f, 'pl, 'w) engine \<Rightarrow> ('f, 'pl, 'w) engine res"

text \<open>Error codes: those of \<open>errors.h\<close> and the \<open>errno\<close> values the engine mentions (Linux).\<close>

definition NS_TIMEOUT :: int where "NS_TIMEOUT = 1000"
definition WILL_RECONNECT :: int where "WILL_RECONNECT = 1001"
definition ECONNRESET :: int where "ECONNRESET = 104"
definition EINPROGRESS :: int where "EINPROGRESS = 115"
definition EBADF :: int where "EBADF = 9"
definition EPOLLIN :: nat where "EPOLLIN = 1"
definition EPOLLOUT :: nat where "EPOLLOUT = 4"
definition MAX_EVENTS :: nat where "MAX_EVENTS = 1024"

text \<open>
  The constructors. \<open>_last_save\<close> and \<open>_watch_timeout\<close> are left unset by the source; the second is
  only read after the call that sets it together with its callback.
\<close>

definition async_engine_new :: "u32 \<Rightarrow> u32 \<Rightarrow> 'w \<Rightarrow> ('f, 'pl, 'w) engine" where
  "async_engine_new n tmo w =
     \<lparr>world = w, file_autosave = [], last_save = None, time_autosave = 0, hosts_sms = [], lvl4_sms = [],
      sockets_targets = [], avail_socks = n, callback_lvl4_connected = None, nsockets = n, timeout = tmo,
      watch_timeout = 0, watch_timeout_cb = None, nlaunched = 0, ndone = 0, callback_finish = None,
      callback_timeout_target = None, callback_status = None, timeout_status_display = 0,
      last_time_status_display = 0\<rparr>"

section \<open>Configuration\<close>

definition set_lvl4_connected_callback :: "'f option \<Rightarrow> ('f, 'pl, 'w) engine \<Rightarrow> ('f, 'pl, 'w) engine" where
  "set_lvl4_connected_callback a e = e\<lparr>callback_lvl4_connected := a\<rparr>"

definition set_lvl4_finish_callback :: "'f option \<Rightarrow> ('f, 'pl, 'w) engine \<Rightarrow> ('f, 'pl, 'w) engine" where
  "set_lvl4_finish_callback f e = e\<lparr>callback_finish := f\<rparr>"

definition set_status_display_callback :: "'f option \<Rightarrow> u32 \<Rightarrow> ('f, 'pl, 'w) engine \<Rightarrow> ('f, 'pl, 'w) engine" where
  "set_status_display_callback f t e = e\<lparr>callback_status := f, timeout_status_display := t\<rparr>"

definition set_watch_timeout :: "'f option \<Rightarrow> u32 \<Rightarrow> ('f, 'pl, 'w) engine \<Rightarrow> ('f, 'pl, 'w) engine" where
  "set_watch_timeout f t e = e\<lparr>watch_timeout := t, watch_timeout_cb := f\<rparr>"

definition set_timeout_of_target :: "'f option \<Rightarrow> ('f, 'pl, 'w) engine \<Rightarrow> ('f, 'pl, 'w) engine" where
  "set_timeout_of_target f e = e\<lparr>callback_timeout_target := f\<rparr>"

definition ensure_available_sockets :: "u64 \<Rightarrow> ('f, 'pl, 'w) engine \<Rightarrow> ('f, 'pl, 'w) engine" where
  "ensure_available_sockets n e =
     (if ucast (avail_socks e) < n
      then e\<lparr>avail_socks := ucast (ucast (avail_socks e) + (n - ucast (avail_socks e)))\<rparr> else e)"

definition auto_save_state :: "string option \<Rightarrow> u32 \<Rightarrow> ('f, 'pl, 'w) engine \<Rightarrow> ('f, 'pl, 'w) engine" where
  "auto_save_state file time_s e =
     (case file of
        None \<Rightarrow> e\<lparr>time_autosave := 0\<rparr>
      | Some f \<Rightarrow> e\<lparr>file_autosave := f, time_autosave := int (unat time_s), last_save := Some 0\<rparr>)"

definition save_state :: "('f, 'pl, 'w) env \<Rightarrow> string \<Rightarrow> ('f, 'pl, 'w) step" where
  "save_state E file e = bind_res (ts_save_state E file (world e)) (\<lambda>w'. Inr (e\<lparr>world := w'\<rparr>))"

definition restore_state :: "('f, 'pl, 'w) env \<Rightarrow> string \<Rightarrow> ('f, 'pl, 'w) step" where
  "restore_state E file e = bind_res (ts_restore_state E file (world e)) (\<lambda>w'. Inr (e\<lparr>world := w'\<rparr>))"

definition should_save_state ::
  "('f, 'pl, 'w) env \<Rightarrow> ('f, 'pl, 'w) engine \<Rightarrow> (bool \<times> ('f, 'pl, 'w) engine) res" where
  "should_save_state E e =
     (if time_autosave e = 0 \<or> file_autosave e = [] then Inr (False, e)
      else let now = os_time (kernel E) (world e) in
        case last_save e of
          None \<Rightarrow> Inl Uninitialised
        | Some prev \<Rightarrow>
            if now - prev \<ge> time_autosave e then Inr (True, e\<lparr>last_save := Some now\<rparr>)
            else Inr (False, e))"

definition should_call_status_display ::
  "('f, 'pl, 'w) env \<Rightarrow> ('f, 'pl, 'w) engine \<Rightarrow> bool \<times> ('f, 'pl, 'w) engine" where
  "should_call_status_display E e =
     (if callback_status e = None \<or> timeout_status_display e = 0 then (False, e)
      else let now = timestamp (kernel E) (world e) in
        if now - last_time_status_display e \<ge> int (unat (timeout_status_display e))
        then (True, e\<lparr>last_time_status_display := now\<rparr>) else (False, e))"

section \<open>The engine's maps\<close>

definition get_host_sm ::
  "('f, 'pl, 'w) env \<Rightarrow> u32 \<Rightarrow> ('f, 'pl, 'w) engine \<Rightarrow> ('f, 'pl) host_sm \<times> ('f, 'pl, 'w) engine" where
  "get_host_sm E ip e =
     (case smap_find (hosts_sms e) ip of
        Some h \<Rightarrow> (h, e)
      | None \<Rightarrow> let h = host_sm_new (port_ops E) (timestamp (kernel E) (world e))
                 in (h, e\<lparr>hosts_sms := smap_insert ip h (hosts_sms e)\<rparr>))"

definition put_host_sm :: "u32 \<Rightarrow> ('f, 'pl) host_sm \<Rightarrow> ('f, 'pl, 'w) engine \<Rightarrow> ('f, 'pl, 'w) engine" where
  "put_host_sm ip h e = e\<lparr>hosts_sms := smap_put ip h (hosts_sms e)\<rparr>"

definition del_host_sm :: "target \<Rightarrow> ('f, 'pl, 'w) engine \<Rightarrow> ('f, 'pl, 'w) engine" where
  "del_host_sm t e = e\<lparr>hosts_sms := smap_erase (ipv4 t) (hosts_sms e)\<rparr>"

definition target_from_socket :: "int \<Rightarrow> ('f, 'pl, 'w) engine \<Rightarrow> target res" where
  "target_from_socket s e =
     (case smap_find (sockets_targets e) s of None \<Rightarrow> Inl Assertion_failed | Some t \<Rightarrow> Inr t)"

text \<open>\<open>new_lvl4_sm\<close> inserts (an existing entry stays); \<open>lvl4_sm\<close> is \<open>operator[]\<close>.\<close>

definition new_lvl4_sm ::
  "('f, 'pl, 'w) env \<Rightarrow> int \<Rightarrow> ('f, 'pl, 'w) engine \<Rightarrow> 'f lvl4_sm \<times> ('f, 'pl, 'w) engine" where
  "new_lvl4_sm E s e =
     (let m = smap_insert s (lvl4_sm_new (timestamp (kernel E) (world e))) (lvl4_sms e)
      in (the (smap_find m s), e\<lparr>lvl4_sms := m\<rparr>))"

definition get_lvl4_sm ::
  "('f, 'pl, 'w) env \<Rightarrow> int \<Rightarrow> ('f, 'pl, 'w) engine \<Rightarrow> 'f lvl4_sm \<times> ('f, 'pl, 'w) engine" where
  "get_lvl4_sm E s e =
     (case smap_find (lvl4_sms e) s of
        Some l \<Rightarrow> (l, e)
      | None \<Rightarrow> let l = lvl4_sm_new (timestamp (kernel E) (world e))
                 in (l, e\<lparr>lvl4_sms := smap_insert s l (lvl4_sms e)\<rparr>))"

definition put_lvl4_sm :: "int \<Rightarrow> 'f lvl4_sm \<Rightarrow> ('f, 'pl, 'w) engine \<Rightarrow> ('f, 'pl, 'w) engine" where
  "put_lvl4_sm s l e = e\<lparr>lvl4_sms := smap_put s l (lvl4_sms e)\<rparr>"

definition del_lvl4_sm :: "int \<Rightarrow> ('f, 'pl, 'w) engine \<Rightarrow> ('f, 'pl, 'w) engine" where
  "del_lvl4_sm s e = e\<lparr>lvl4_sms := smap_erase s (lvl4_sms e)\<rparr>"

definition call_callback_finish ::
  "('f, 'pl, 'w) env \<Rightarrow> target \<Rightarrow> lvl4_buffer \<Rightarrow> int \<Rightarrow> ('f, 'pl, 'w) step" where
  "call_callback_finish E t buf err e =
     (case callback_finish e of
        None \<Rightarrow> Inr e
      | Some f \<Rightarrow> bind_res (call_finish E f t buf err (world e)) (\<lambda>w'. Inr (e\<lparr>world := w'\<rparr>)))"

definition timeout_of_target ::
  "('f, 'pl, 'w) env \<Rightarrow> ('f, 'pl, 'w) engine \<Rightarrow> target \<Rightarrow> 'w \<Rightarrow> (u32 \<times> 'w) res" where
  "timeout_of_target E e t w =
     (case callback_timeout_target e of
        None \<Rightarrow> Inr (timeout e, w)
      | Some f \<Rightarrow> call_timeout_target E f t w)"

definition target_of_socket :: "('f, 'pl, 'w) env \<Rightarrow> int \<Rightarrow> 'w \<Rightarrow> target" where
  "target_of_socket E s w =
     from_socket (protocol_from_socket_type E) (os_getpeername (kernel E) s w) (os_sa_junk (kernel E) w)
       (os_so_type (kernel E) s w) (os_so_protocol (kernel E) s w)"

section \<open>Sockets\<close>

definition remove_connected_socket :: "('f, 'pl, 'w) env \<Rightarrow> int \<Rightarrow> ('f, 'pl, 'w) engine \<Rightarrow> ('f, 'pl, 'w) engine" where
  "remove_connected_socket E s e = e\<lparr>world := os_epoll_del (kernel E) s (world e)\<rparr>"

definition remove_connecting_socket :: "('f, 'pl, 'w) env \<Rightarrow> int \<Rightarrow> ('f, 'pl, 'w) engine \<Rightarrow> ('f, 'pl, 'w) engine" where
  "remove_connecting_socket E s e = e\<lparr>world := os_epoll_del (kernel E) s (world e)\<rparr>"

definition add_connecting_socket :: "('f, 'pl, 'w) env \<Rightarrow> int \<Rightarrow> ('f, 'pl, 'w) engine \<Rightarrow> ('f, 'pl, 'w) engine" where
  "add_connecting_socket E s e = e\<lparr>world := os_epoll_add (kernel E) s EPOLLOUT (world e)\<rparr>"

definition add_connected_socket :: "('f, 'pl, 'w) env \<Rightarrow> int \<Rightarrow> ('f, 'pl, 'w) engine \<Rightarrow> ('f, 'pl, 'w) engine" where
  "add_connected_socket E s e = e\<lparr>world := os_epoll_add (kernel E) s EPOLLIN (world e)\<rparr>"

definition free_socket :: "('f, 'pl, 'w) env \<Rightarrow> int \<Rightarrow> ('f, 'pl, 'w) engine \<Rightarrow> ('f, 'pl, 'w) engine" where
  "free_socket E s e =
     (let e1 = remove_connected_socket E s (remove_connecting_socket E s e);
          e2 = e1\<lparr>world := os_close (kernel E) s (world e1)\<rparr>;
          e3 = del_lvl4_sm s e2;
          e4 = e3\<lparr>avail_socks := avail_socks e3 + 1\<rparr>
      in e4\<lparr>sockets_targets := smap_erase s (sockets_targets e4)\<rparr>)"

definition socket_finished :: "('f, 'pl, 'w) env \<Rightarrow> int \<Rightarrow> int \<Rightarrow> ('f, 'pl, 'w) step" where
  "socket_finished E s err e =
     (let e1 = e\<lparr>ndone := ndone e + 1\<rparr> in
      bind_res (target_from_socket s e1) (\<lambda>t.
        let (l, e2) = get_lvl4_sm E s e1
        in bind_res (call_callback_finish E t (l4_buf l) err e2) (\<lambda>e3.
             let e4 = put_lvl4_sm s (free_buffer l) e3;
                 (h, e5) = get_host_sm E (ipv4 t) e4
             in bind_res (ts_target_finished E t (h, world e5)) (\<lambda>(done, h', w').
                  let e6 = put_host_sm (ipv4 t) h' (e5\<lparr>world := w'\<rparr>);
                      e7 = (if done then del_host_sm t e6 else e6)
                  in Inr (free_socket E s e7)))))"

text \<open>
  \<open>new_socket\<close> applies \<open>fcntl\<close> to the descriptor unchecked: after a failed \<open>socket\<close>, \<open>errno\<close> is the
  \<open>EBADF\<close> of \<open>fcntl\<close>.
\<close>

definition new_socket :: "('f, 'pl, 'w) env \<Rightarrow> int \<Rightarrow> int \<Rightarrow> 'w \<Rightarrow> (int \<times> int) \<times> 'w" where
  "new_socket E ty proto w =
     (case os_socket (kernel E) ty proto w of
        ((s, err), w1) \<Rightarrow> if s = -1 then ((-1, EBADF), w1) else ((s, err), w1))"

text \<open>\<open>create_socket\<close> returns its value, the socket and \<open>errno\<close>.\<close>

definition create_socket ::
  "('f, 'pl, 'w) env \<Rightarrow> target \<Rightarrow> ('f, 'pl, 'w) engine \<Rightarrow> ((int \<times> int \<times> int) \<times> ('f, 'pl, 'w) engine) res" where
  "create_socket E t e =
     bind_res (guard_res (avail_socks e > 0) Assertion_failed) (\<lambda>_.
       let ((s, err), w1) = new_socket E (port_socket_type E (tport t)) (port_socket_proto E (tport t)) (world e);
           e1 = e\<lparr>world := w1\<rparr>
       in if s = -1 then Inr ((err, s, err), e1)
          else let e2 = e1\<lparr>avail_socks := avail_socks e1 - 1\<rparr>;
                   ((ret, cerr), w3) = os_connect (kernel E) s (to_sockaddr_in t) (world e2);
                   (l, e4) = new_lvl4_sm E s (e2\<lparr>world := w3\<rparr>);
                   l1 = set_valid True l;
                   l2 = set_on_connect (callback_lvl4_connected e4) l1;
                   l3 = update_ts (timestamp (kernel E) (world e4)) l2;
                   e5 = put_lvl4_sm s l3 e4
               in Inr ((ret, s, cerr), e5\<lparr>sockets_targets := smap_insert s t (sockets_targets e5)\<rparr>))"

definition reconnect :: "('f, 'pl, 'w) env \<Rightarrow> int \<Rightarrow> target \<Rightarrow> 'f lvl4_sm \<Rightarrow> ('f, 'pl, 'w) step" where
  "reconnect E s t l e =
     (let cur_action = func_connect l;
          e1 = remove_connected_socket E s e;
          e2 = e1\<lparr>world := os_close (kernel E) s (world e1)\<rparr>;
          e3 = e2\<lparr>avail_socks := avail_socks e2 + 1\<rparr>
      in bind_res (create_socket E t e3) (\<lambda>((ret, s', err), e4).
           let (l', e5) = get_lvl4_sm E s' e4;
               e6 = put_lvl4_sm s' (set_on_connect cur_action l') e5
           in Inr (add_connecting_socket E s' e6)))"

section \<open>Events\<close>

definition process_connecting_ready :: "('f, 'pl, 'w) env \<Rightarrow> int \<Rightarrow> ('f, 'pl, 'w) step" where
  "process_connecting_ready E s e =
     (let (l, e1) = get_lvl4_sm E s e;
          (err, w1) = os_so_error (kernel E) s (world e1);
          e2 = e1\<lparr>world := w1\<rparr>
      in if err \<noteq> 0 then socket_finished E s err e2
         else bind_res (target_from_socket s e2) (\<lambda>t.
           let (h, e3) = get_host_sm E (ipv4 t) e2
           in bind_res (on_connect (actions_of E) (Connected_Target s t) (l, h, world e3)) (\<lambda>(ret, l', h', w').
                let e4 = put_host_sm (ipv4 t) h' (put_lvl4_sm s l' (e3\<lparr>world := w'\<rparr>))
                in if \<not> ret then socket_finished E s 0 e4
                   else let e5 = add_connected_socket E s (remove_connecting_socket E s e4)
                        in Inr (put_lvl4_sm s (update_ts (timestamp (kernel E) (world e5)) l') e5))))"

definition process_connected_ready :: "nat \<Rightarrow> ('f, 'pl, 'w) env \<Rightarrow> int \<Rightarrow> ('f, 'pl, 'w) step" where
  "process_connected_ready pf E s e =
     bind_res (target_from_socket s e) (\<lambda>t.
       let (l, e1) = get_lvl4_sm E s e;
           (navail, w1) = os_fionread (kernel E) s (world e1);
           e2 = e1\<lparr>world := w1\<rparr>
       in if navail = 0 then
            (if l4_reconnect l then
               bind_res (call_callback_finish E t (l4_buf l) WILL_RECONNECT e2) (\<lambda>e3.
                 let l1 = free_buffer l
                 in reconnect E s t l1 (put_lvl4_sm s l1 e3))
             else socket_finished E s ECONNRESET e2)
          else
            let (h, e3) = get_host_sm E (ipv4 t) e2
            in bind_res (process_lvl4_data pf (kernel E) (actions_of E) (Connected_Target s t) navail (l, h, world e3))
                 (\<lambda>(ret, l', h', w').
                   let e4 = e3\<lparr>world := w'\<rparr>;
                       l2 = update_ts (timestamp (kernel E) w') l';
                       e5 = put_host_sm (ipv4 t) h' (put_lvl4_sm s l2 e4)
                   in if \<not> ret then socket_finished E s 0 e5 else Inr e5))"

definition process_event :: "nat \<Rightarrow> ('f, 'pl, 'w) env \<Rightarrow> int \<times> nat \<Rightarrow> ('f, 'pl, 'w) step" where
  "process_event pf E ev e =
     (case ev of (fd, events) \<Rightarrow>
        if events AND EPOLLOUT = EPOLLOUT then process_connecting_ready E fd e
        else if events AND EPOLLIN = EPOLLIN then process_connected_ready pf E fd e
        else Inr e)"

fun process_event_list :: "nat \<Rightarrow> ('f, 'pl, 'w) env \<Rightarrow> (int \<times> nat) list \<Rightarrow> ('f, 'pl, 'w) step" where
  "process_event_list pf E [] e = Inr e"
| "process_event_list pf E (ev # evs) e = bind_res (process_event pf E ev e) (process_event_list pf E evs)"

definition process_events :: "nat \<Rightarrow> ('f, 'pl, 'w) env \<Rightarrow> ('f, 'pl, 'w) engine \<Rightarrow> (int \<times> ('f, 'pl, 'w) engine) res" where
  "process_events pf E e =
     (let (evs, w1) = os_epoll_wait (kernel E) MAX_EVENTS (world e);
          e1 = e\<lparr>world := w1\<rparr>
      in case evs of
           None \<Rightarrow> Inr (-1, e1)
         | Some es \<Rightarrow> bind_res (process_event_list pf E es e1) (\<lambda>e2. Inr (int (length es), e2)))"

section \<open>Timeouts and dirty buffers\<close>

definition has_watch_timedout ::
  "('f, 'pl, 'w) env \<Rightarrow> ('f, 'pl, 'w) engine \<Rightarrow> int \<Rightarrow> int \<Rightarrow> 'f lvl4_sm \<Rightarrow> 'w \<Rightarrow> (bool \<times> 'f lvl4_sm \<times> 'w) res" where
  "has_watch_timedout E e ts s l w =
     (case watch_timeout_cb e of
        None \<Rightarrow> Inr (False, l, w)
      | Some f \<Rightarrow>
          if watch_timeout e = 0 then Inr (False, l, w)
          else if ts - sm_watch_ts l \<ge> int (unat (watch_timeout e)) then
            bind_res (call_watch_timeout E f (Connected_Target s (target_of_socket E s w)) w) (\<lambda>(go_on, w1).
              if \<not> go_on then Inr (True, l, w1) else Inr (False, update_watch_ts ts l, w1))
          else Inr (False, l, w))"

text \<open>
  The first loop of \<open>process_dirty_and_timeouts\<close>, over the entries of \<open>_lvl4_sms\<close>: the updated
  entries, the sockets to process, the timed out ones, the number of the others, and the world.
\<close>

fun scan_lvl4_sms ::
  "('f, 'pl, 'w) env \<Rightarrow> ('f, 'pl, 'w) engine \<Rightarrow> int \<Rightarrow> (int \<times> 'f lvl4_sm) list \<Rightarrow> 'w
     \<Rightarrow> ((int \<times> 'f lvl4_sm) list \<times> int list \<times> int list \<times> nat \<times> 'w) res"
where
  "scan_lvl4_sms E e ts [] w = Inr ([], [], [], 0, w)"
| "scan_lvl4_sms E e ts ((s, l) # ls) w =
     (if \<not> sm_valid l then
        bind_res (scan_lvl4_sms E e ts ls w) (\<lambda>(ls', ps, tos, n, w'). Inr ((s, l) # ls', ps, tos, n, w'))
      else
        let (dirty, l1) = should_process_buffer l in
        bind_res (timeout_of_target E e (target_of_socket E s w) w) (\<lambda>(tmo, w1).
        bind_res (if ts - sm_ts l1 \<ge> int (unat tmo) then Inr (True, l1, w1)
                  else has_watch_timedout E e ts s l1 w1) (\<lambda>(timedout, l2, w2).
        bind_res (scan_lvl4_sms E e ts ls w2) (\<lambda>(ls', ps, tos, n, w').
          Inr ((s, l2) # ls', if dirty then s # ps else ps, if timedout then s # tos else tos,
               if timedout then n else n + 1, w')))))"

fun process_dirty :: "nat \<Rightarrow> ('f, 'pl, 'w) env \<Rightarrow> int list \<Rightarrow> ('f, 'pl, 'w) step" where
  "process_dirty pf E [] e = Inr e"
| "process_dirty pf E (s # ps) e =
     bind_res (target_from_socket s e) (\<lambda>t.
       let (l, e1) = get_lvl4_sm E s e;
           (h, e2) = get_host_sm E (ipv4 t) e1
       in bind_res (process_buffer pf (actions_of E) (Connected_Target s t) (l, h, world e2)) (\<lambda>(ret, l', h', w').
            let e3 = put_host_sm (ipv4 t) h' (put_lvl4_sm s l' (e2\<lparr>world := w'\<rparr>))
            in bind_res (if \<not> ret then socket_finished E s 0 e3 else Inr e3) (process_dirty pf E ps)))"

fun finish_timeouts :: "('f, 'pl, 'w) env \<Rightarrow> int list \<Rightarrow> ('f, 'pl, 'w) step" where
  "finish_timeouts E [] e = Inr e"
| "finish_timeouts E (s # ss) e = bind_res (socket_finished E s NS_TIMEOUT e) (finish_timeouts E ss)"

definition process_dirty_and_timeouts ::
  "nat \<Rightarrow> ('f, 'pl, 'w) env \<Rightarrow> ('f, 'pl, 'w) engine \<Rightarrow> (nat \<times> ('f, 'pl, 'w) engine) res" where
  "process_dirty_and_timeouts pf E e =
     (let ts = timestamp (kernel E) (world e) in
      bind_res (scan_lvl4_sms E e ts (lvl4_sms e) (world e)) (\<lambda>(ls, ps, tos, n, w1).
      bind_res (process_dirty pf E ps (e\<lparr>lvl4_sms := ls, world := w1\<rparr>)) (\<lambda>e1.
      bind_res (finish_timeouts E tos e1) (\<lambda>e2. Inr (n, e2)))))"

section \<open>Launching\<close>

datatype launch_result = Launched int target | End_of_targets | Would_block

text \<open>The inner loop of \<open>process_free_socks\<close>: take targets until one is being connected to.\<close>

fun launch_one ::
  "nat \<Rightarrow> ('f, 'pl, 'w) env \<Rightarrow> ('f, 'pl, 'w) engine \<Rightarrow> (launch_result \<times> ('f, 'pl, 'w) engine) res"
where
  "launch_one 0 E e = Inl Out_of_fuel"
| "launch_one (Suc n) E e =
     bind_res (ts_next_target E (world e)) (\<lambda>(nt, w1).
       let e1 = e\<lparr>world := w1\<rparr> in
       case nt of
         None \<Rightarrow> Inr (Would_block, e1)
       | Some t \<Rightarrow>
           if is_end t then Inr (End_of_targets, e1)
           else bind_res (create_socket E t (e1\<lparr>nlaunched := nlaunched e1 + 1\<rparr>)) (\<lambda>((ret, s, err), e2).
             if ret = 0 \<or> err = EINPROGRESS then Inr (Launched s t, e2)
             else bind_res (socket_finished E s err e2) (launch_one n E)))"

fun launch_sockets ::
  "nat \<Rightarrow> ('f, 'pl, 'w) env \<Rightarrow> nat \<Rightarrow> ('f, 'pl, 'w) engine \<Rightarrow> (bool \<times> ('f, 'pl, 'w) engine) res"
where
  "launch_sockets lf E 0 e = Inr (True, e)"
| "launch_sockets lf E (Suc i) e =
     bind_res (launch_one lf E e) (\<lambda>(r, e1).
       case r of
         End_of_targets \<Rightarrow> Inr (False, e1)
       | Would_block \<Rightarrow> Inr (True, e1)
       | Launched s t \<Rightarrow>
           let (h, e2) = get_host_sm E (ipv4 t) e1;
               (h', w') = ts_init_host_sm E t (h, world e2);
               e3 = put_host_sm (ipv4 t) h' (e2\<lparr>world := w'\<rparr>)
           in launch_sockets lf E i (add_connecting_socket E s e3))"

definition process_free_socks ::
  "nat \<Rightarrow> ('f, 'pl, 'w) env \<Rightarrow> ('f, 'pl, 'w) engine \<Rightarrow> (bool \<times> ('f, 'pl, 'w) engine) res" where
  "process_free_socks lf E e = launch_sockets lf E (unat (avail_socks e)) e"

section \<open>The main loop\<close>

text \<open>
  The end of a round of \<open>do_async_scan\<close>: the status display, whose callback takes the two counters
  as 32-bit values, and the automatic save.
\<close>

definition report_and_save :: "('f, 'pl, 'w) env \<Rightarrow> ('f, 'pl, 'w) step" where
  "report_and_save E e3 =
     (let (display, e4) = should_call_status_display E e3
      in bind_res (case callback_status e4 of
             Some f \<Rightarrow>
               if display
               then bind_res (call_status E f (ucast (nlaunched e4)) (ucast (ndone e4)) (world e4)) (\<lambda>w'. Inr (e4\<lparr>world := w'\<rparr>))
               else Inr e4
           | None \<Rightarrow> Inr e4) (\<lambda>e5.
         bind_res (should_save_state E e5) (\<lambda>(save, e6).
           if save then save_state E (file_autosave e6) e6 else Inr e6)))"

text \<open>One round of the loop of \<open>do_async_scan\<close>; the first component says whether it breaks.\<close>

definition scan_round ::
  "nat \<Rightarrow> nat \<Rightarrow> ('f, 'pl, 'w) env \<Rightarrow> ('f, 'pl, 'w) engine \<Rightarrow> (bool \<times> ('f, 'pl, 'w) engine) res" where
  "scan_round pf lf E e =
     bind_res (process_events pf E e) (\<lambda>(nfds, e1).
     bind_res (process_dirty_and_timeouts pf E e1) (\<lambda>(n_valid, e2).
     bind_res (process_free_socks lf E e2) (\<lambda>(more, e3).
       let end_targets = (\<not> more) in
       if nfds = 0 \<and> n_valid = 0 \<and> end_targets then Inr (True, e3)
       else bind_res (report_and_save E e3) (\<lambda>e4. Inr (False, e4)))))"

fun scan_loop :: "nat \<Rightarrow> nat \<Rightarrow> nat \<Rightarrow> ('f, 'pl, 'w) env \<Rightarrow> ('f, 'pl, 'w) step" where
  "scan_loop 0 pf lf E e = Inl Out_of_fuel"
| "scan_loop (Suc n) pf lf E e =
     bind_res (scan_round pf lf E e) (\<lambda>(stop, e1). if stop then Inr e1 else scan_loop n pf lf E e1)"

definition do_async_scan :: "nat \<Rightarrow> nat \<Rightarrow> nat \<Rightarrow> ('f, 'pl, 'w) env \<Rightarrow> ('f, 'pl, 'w) step" where
  "do_async_scan sf pf lf E e =
     (let e1 = e\<lparr>world := os_epoll_create (kernel E) (world e)\<rparr>;
          e2 = e1\<lparr>nlaunched := 0, ndone := 0, last_time_status_display := 0\<rparr>
      in bind_res (process_free_socks lf E e2) (\<lambda>(_, e3). scan_loop sf pf lf E e3))"

definition init_scan :: "('f, 'pl, 'w) env \<Rightarrow> ('f, 'pl, 'w) step" where
  "init_scan E e = bind_res (ts_init E (world e)) (\<lambda>w'. Inr (e\<lparr>world := w'\<rparr>))"

definition launch :: "nat \<Rightarrow> nat \<Rightarrow> nat \<Rightarrow> ('f, 'pl, 'w) env \<Rightarrow> ('f, 'pl, 'w) step" where
  "launch sf pf lf E e = bind_res (init_scan E e) (do_async_scan sf pf lf E)"

definition launch_shrd :: "nat \<Rightarrow> nat \<Rightarrow> nat \<Rightarrow> ('f, 'pl, 'w) env \<Rightarrow> u32 \<Rightarrow> u32 \<Rightarrow> ('f, 'pl, 'w) step" where
  "launch_shrd sf pf lf E idx count e = do_async_scan sf pf lf E e"

end
