(* ===== verification/Engine_Safety.thy ===== *)
theory Engine_Safety
  imports Engine
begin

text \<open>
  The bookkeeping of the asynchronous engine is safe. The locale \<open>engine_env\<close> states what the engine
  relies on: of the kernel, that it hands out descriptors that are not open and reports events only
  for watched descriptors; of the callbacks, that they return in order and only install triggers that
  make progress; of the target set, that it returns. Under these laws every step of the engine keeps
  the invariant \<open>book_ok\<close> (each entry of the two socket maps belongs to an open descriptor, the
  number of free sockets and the number of connections add up, every started and not yet finished
  target has its connection) and no assertion, no access to a missing entry and no access outside
  a buffer happens.
\<close>

section \<open>The invariant\<close>

text \<open>A connection between two steps: valid, not set to reconnect, nothing left for its trigger.\<close>

definition calm :: "('f \<Rightarrow> u32 \<Rightarrow> bool) \<Rightarrow> 'f lvl4_sm \<Rightarrow> bool" where
  "calm adm l \<longleftrightarrow> l4_ok adm l \<and> quiescent l \<and> sm_valid l \<and> \<not> l4_reconnect l"

lemma update_fields [simp]:
  "sm_ts (update_watch_ts x l) = sm_ts l"
  "l4_buf (update_ts x l) = l4_buf l" "l4_trigger (update_ts x l) = l4_trigger l"
  "sm_valid (update_ts x l) = sm_valid l" "l4_reconnect (update_ts x l) = l4_reconnect l"
  "l4_buf (update_watch_ts x l) = l4_buf l" "l4_trigger (update_watch_ts x l) = l4_trigger l"
  "sm_valid (update_watch_ts x l) = sm_valid l" "l4_reconnect (update_watch_ts x l) = l4_reconnect l"
  by (cases l; simp add: update_ts_def update_watch_ts_def)+

lemma calm_cong:
  "l4_buf l = l4_buf k \<Longrightarrow> l4_trigger l = l4_trigger k \<Longrightarrow> sm_valid l = sm_valid k \<Longrightarrow>
     l4_reconnect l = l4_reconnect k \<Longrightarrow> calm adm l = calm adm k"
  by (cases "l4_trigger k") (simp_all add: calm_def l4_ok_def quiescent_def)

lemma calm_update [simp]:
  "calm adm (update_ts x l) = calm adm l" "calm adm (update_watch_ts x l) = calm adm l"
  "calm adm (l\<lparr>l4_reprocess := b\<rparr>) = calm adm l"
  by (rule calm_cong; simp)+

text \<open>
  The kernel's view of a descriptor: not open, or open with the events it is watched for and the
  number of bytes it has announced so far.
\<close>

type_synonym fd_table = "int \<Rightarrow> (nat option \<times> nat) option"

definition conn_ok :: "('f \<Rightarrow> u32 \<Rightarrow> bool) \<Rightarrow> 'f lvl4_sm \<Rightarrow> (nat option \<times> nat) option \<Rightarrow> bool" where
  "conn_ok adm l st \<longleftrightarrow> calm adm l \<and>
     (case st of None \<Rightarrow> False
      | Some (m, r) \<Rightarrow> unat (buf_pos (l4_buf l)) \<le> r \<and> (m \<noteq> Some EPOLLIN \<longrightarrow> buf_pos (l4_buf l) = 0))"

lemma conn_ok_mono:
  "l4_buf k = l4_buf l \<Longrightarrow> (calm adm l \<longrightarrow> calm adm k) \<Longrightarrow> conn_ok adm l st \<Longrightarrow> conn_ok adm k st"
  by (cases st) (auto simp: conn_ok_def)

text \<open>
  The invariant of the engine's maps and counters, with the exception of the entries in \<open>X\<close>, whose
  connection is about to be ended.
\<close>

definition book_ok ::
  "('f \<Rightarrow> u32 \<Rightarrow> bool) \<Rightarrow> nat \<Rightarrow> int set \<Rightarrow> fd_table \<Rightarrow> (int, 'f lvl4_sm) smap \<Rightarrow> (int, target) smap
     \<Rightarrow> u32 \<Rightarrow> u64 \<Rightarrow> u64 \<Rightarrow> bool"
where
  "book_ok adm cap X F lv tg av nl nd \<longleftrightarrow>
     smap_ok lv \<and> smap_ok tg \<and> dom (smap_find lv) = dom (smap_find tg)
     \<and> unat av + length lv = cap \<and> cap < 2 ^ 32 \<and> nl = nd + of_nat (length lv)
     \<and> (\<forall>s m r. F s = Some (Some m, r) \<longrightarrow> s \<in> dom (smap_find lv))
     \<and> (\<forall>s l. s \<notin> X \<longrightarrow> smap_find lv s = Some l \<longrightarrow> conn_ok adm l (F s))"

definition eng_ok :: "('w \<Rightarrow> fd_table) \<Rightarrow> ('f \<Rightarrow> u32 \<Rightarrow> bool) \<Rightarrow> nat \<Rightarrow> int set \<Rightarrow> ('f, 'pl, 'w) engine \<Rightarrow> bool" where
  "eng_ok fds adm cap X e \<longleftrightarrow>
     book_ok adm cap X (fds (world e)) (lvl4_sms e) (sockets_targets e) (avail_socks e) (nlaunched e) (ndone e)
     \<and> (time_autosave e = 0 \<or> last_save e \<noteq> None)"

text \<open>A step on socket \<open>s\<close> leaves the other sockets alone.\<close>

definition same_others :: "('w \<Rightarrow> fd_table) \<Rightarrow> int \<Rightarrow> ('f, 'pl, 'w) engine \<Rightarrow> ('f, 'pl, 'w) engine \<Rightarrow> bool" where
  "same_others fds s e e' \<longleftrightarrow> (\<forall>j. j \<noteq> s \<longrightarrow>
     smap_find (lvl4_sms e') j = smap_find (lvl4_sms e) j \<and> fds (world e') j = fds (world e) j)"

text \<open>
  What a connection can still do before it ends: \<open>gauge\<close> is lowered by every event that the engine
  acts on, and \<open>weight\<close> sums it over the open connections. A step advances if it lowers the
  weight or leaves the weight and the time stamps of all connections alone.
\<close>

definition gauge :: "(nat option \<times> nat) option \<Rightarrow> nat" where
  "gauge st = (case st of None \<Rightarrow> 0 | Some (m, r) \<Rightarrow> 1 + (if m = Some EPOLLIN then 0 else 1) + (2 ^ 30 - r))"

definition weight :: "('w \<Rightarrow> fd_table) \<Rightarrow> ('f, 'pl, 'w) engine \<Rightarrow> nat" where
  "weight fds e = (\<Sum>s\<in>dom (smap_find (lvl4_sms e)). gauge (fds (world e) s))"

definition ts_of :: "('f, 'pl, 'w) engine \<Rightarrow> int \<Rightarrow> int option" where
  "ts_of e s = map_option sm_ts (smap_find (lvl4_sms e) s)"

definition advances :: "('w \<Rightarrow> fd_table) \<Rightarrow> ('f, 'pl, 'w) engine \<Rightarrow> ('f, 'pl, 'w) engine \<Rightarrow> bool" where
  "advances fds e e' \<longleftrightarrow> weight fds e' < weight fds e \<or> weight fds e' = weight fds e \<and> ts_of e' = ts_of e"

definition progressed :: "('w \<Rightarrow> fd_table) \<Rightarrow> int \<Rightarrow> ('f, 'pl, 'w) engine \<Rightarrow> ('f, 'pl, 'w) engine \<Rightarrow> bool" where
  "progressed fds s e e' \<longleftrightarrow>
     smap_find (lvl4_sms e') s = None \<or> gauge (fds (world e') s) < gauge (fds (world e) s)"

text \<open>Nothing has changed for the connections; one connection has been added.\<close>

definition same_conns :: "('w \<Rightarrow> fd_table) \<Rightarrow> ('f, 'pl, 'w) engine \<Rightarrow> ('f, 'pl, 'w) engine \<Rightarrow> bool" where
  "same_conns fds e e' \<longleftrightarrow> smap_find (lvl4_sms e') = smap_find (lvl4_sms e) \<and> fds (world e') = fds (world e)"

definition launch_post ::
  "('w \<Rightarrow> fd_table) \<Rightarrow> launch_result \<Rightarrow> ('f, 'pl, 'w) engine \<Rightarrow> ('f, 'pl, 'w) engine \<Rightarrow> bool" where
  "launch_post fds r e e' =
     (case r of
        Launched s t \<Rightarrow> smap_find (lvl4_sms e) s = None \<and> (\<exists>l. smap_find (lvl4_sms e') s = Some l)
          \<and> fds (world e') s = Some (None, 0) \<and> same_others fds s e e' \<and> avail_socks e' = avail_socks e - 1
      | _ \<Rightarrow> same_conns fds e e')"

lemma same_conns_launch:
  "same_conns fds e e1 \<Longrightarrow> avail_socks e1 = avail_socks e \<Longrightarrow> launch_post fds r e1 e' \<Longrightarrow> launch_post fds r e e'"
  by (cases r) (auto simp: launch_post_def same_conns_def same_others_def)

lemma advances_refl [simp]: "advances fds e e"
  by (simp add: advances_def)

lemma advances_trans: "advances fds e e1 \<Longrightarrow> advances fds e1 e2 \<Longrightarrow> advances fds e e2"
  by (auto simp: advances_def)

lemma dom_ts_of: "dom (smap_find (lvl4_sms e)) = dom (ts_of e)"
  by (auto simp: ts_of_def dom_def)

lemma ts_of_dom: "ts_of e' = ts_of e \<Longrightarrow> dom (smap_find (lvl4_sms e')) = dom (smap_find (lvl4_sms e))"
  by (simp add: dom_ts_of)

lemma advances_same:
  "ts_of e' = ts_of e \<Longrightarrow> (\<And>s. s \<in> dom (smap_find (lvl4_sms e)) \<Longrightarrow> fds (world e') s = fds (world e) s) \<Longrightarrow>
     advances fds e e'"
proof -
  assume ts: "ts_of e' = ts_of e" and F: "\<And>s. s \<in> dom (smap_find (lvl4_sms e)) \<Longrightarrow> fds (world e') s = fds (world e) s"
  have "dom (smap_find (lvl4_sms e')) = dom (smap_find (lvl4_sms e))" using ts by (rule ts_of_dom)
  with F have "weight fds e' = weight fds e" by (simp add: weight_def)
  with ts show ?thesis by (simp add: advances_def)
qed

lemma finite_dom_smap: "finite (dom (smap_find m))"
  by (simp add: smap_dom)

lemma progressed_lowers:
  assumes so: "same_others fds s e e'" and s: "s \<in> dom (smap_find (lvl4_sms e))"
    and p: "progressed fds s e e'" and g: "0 < gauge (fds (world e) s)"
  shows "weight fds e' < weight fds e"
proof -
  let ?D = "dom (smap_find (lvl4_sms e))" and ?D' = "dom (smap_find (lvl4_sms e'))"
  let ?r = "\<Sum>j\<in>?D - {s}. gauge (fds (world e) j)"
  have D: "?D' - {s} = ?D - {s}" using so by (auto simp: same_others_def dom_def)
  have r: "(\<Sum>j\<in>?D' - {s}. gauge (fds (world e') j)) = ?r"
    unfolding D using so by (intro sum.cong) (auto simp: same_others_def)
  have w: "weight fds e = gauge (fds (world e) s) + ?r"
    unfolding weight_def using s by (intro sum.remove finite_dom_smap)
  show ?thesis
  proof (cases "s \<in> ?D'")
    case True
    then have "weight fds e' = gauge (fds (world e') s) + ?r"
      unfolding weight_def r [symmetric] by (intro sum.remove finite_dom_smap)
    with w p True show ?thesis by (auto simp: progressed_def)
  next
    case False
    with r w g show ?thesis by (simp add: weight_def)
  qed
qed

lemma smap_erase_absent: "smap_find m k = None \<Longrightarrow> smap_erase k m = m"
  by (induction k m rule: smap_erase.induct) (auto split: if_splits)

lemma smap_erase_put: "smap_ok m \<Longrightarrow> smap_erase k (smap_put k v m) = smap_erase k m"
proof (induction k v m rule: smap_put.induct)
  case (2 k v a b m)
  then have "k < a \<Longrightarrow> smap_erase k m = m"
    by (intro smap_erase_absent) (auto simp: smap_ok_Cons smap_find_None)
  with 2 show ?case by (auto simp: smap_ok_Cons)
qed simp

lemma book_okD:
  assumes "book_ok adm cap X F lv tg av nl nd"
  shows "smap_ok lv" "smap_ok tg" "dom (smap_find lv) = dom (smap_find tg)" "unat av + length lv = cap"
    "cap < 2 ^ 32" "nl = nd + of_nat (length lv)"
    "\<And>s m r. F s = Some (Some m, r) \<Longrightarrow> s \<in> dom (smap_find lv)"
    "\<And>s l. s \<notin> X \<Longrightarrow> smap_find lv s = Some l \<Longrightarrow> conn_ok adm l (F s)"
  using assms unfolding book_ok_def by blast+

lemma book_okI:
  assumes "smap_ok lv" and "smap_ok tg" and "dom (smap_find lv) = dom (smap_find tg)"
    and "unat av + length lv = cap" and "cap < 2 ^ 32" and "nl = nd + of_nat (length lv)"
    and "\<And>s m r. F s = Some (Some m, r) \<Longrightarrow> s \<in> dom (smap_find lv)"
    and "\<And>s l. s \<notin> X \<Longrightarrow> smap_find lv s = Some l \<Longrightarrow> conn_ok adm l (F s)"
  shows "book_ok adm cap X F lv tg av nl nd"
  using assms unfolding book_ok_def by blast

lemma book_ok_put:
  assumes ok: "book_ok adm cap X F lv tg av nl nd" and s: "s \<in> dom (smap_find lv)"
    and l: "s \<in> Y \<or> conn_ok adm l (F s)" and X: "X - {s} \<subseteq> Y"
  shows "book_ok adm cap Y F (smap_put s l lv) tg av nl nd"
proof -
  note D = book_okD [OF ok]
  have "length (smap_put s l lv) = length lv" using s D(1) by (auto simp: smap_length_put)
  moreover have "dom (smap_find (smap_put s l lv)) = dom (smap_find lv)"
    using s D(1) by (simp add: sm.dom_put insert_absorb)
  moreover have "conn_ok adm k (F j)" if "j \<notin> Y" "smap_find (smap_put s l lv) j = Some k" for j k
    using that l X D(1) D(8) [of j k] by (auto simp: smap_put_find split: if_splits)
  ultimately show ?thesis
    using D(1-7) by (intro book_okI) (simp_all add: smap_put_ok)
qed

lemma book_ok_fds:
  assumes "book_ok adm cap X F lv tg av nl nd" and "s \<in> dom (smap_find lv)"
    and "\<And>j. j \<noteq> s \<Longrightarrow> G j = F j" and "\<And>l. smap_find lv s = Some l \<Longrightarrow> s \<in> X \<or> conn_ok adm l (G s)"
  shows "book_ok adm cap X G lv tg av nl nd"
proof -
  note D = book_okD [OF assms(1)]
  have "j \<in> dom (smap_find lv)" if "G j = Some (Some m, r)" for j m r
    using that assms(2,3) D(7) by metis
  moreover have "conn_ok adm k (G j)" if "j \<notin> X" "smap_find lv j = Some k" for j k
    using that assms(3,4) D(8) by metis
  ultimately show ?thesis unfolding book_ok_def using D(1-6) by blast
qed

lemma book_ok_free:
  assumes ok: "book_ok adm cap X F lv tg av nl nd" and s: "s \<in> dom (smap_find lv)"
    and G: "\<And>j. j \<noteq> s \<Longrightarrow> G j = F j" "G s = None"
  shows "book_ok adm cap (X - {s}) G (smap_erase s lv) (smap_erase s tg) (av + 1) nl (nd + 1)"
proof -
  note D = book_okD [OF ok]
  have len: "length (smap_erase s lv) = length lv - 1" "0 < length lv"
    using s by (auto simp: smap_length_erase)
  have "unat av + 1 < 2 ^ 32" using D(4,5) len(2) by linarith
  then have "unat (av + 1) = unat av + 1" by (simp add: unat_word_ariths)
  then have av: "unat (av + 1) + (length lv - 1) = cap" using D(4) len(2) by linarith
  have nl: "nl = nd + 1 + of_nat (length lv - 1)" using D(6) len(2) by (cases "length lv") auto
  have "j \<in> dom (smap_find lv) - {s}" if "G j = Some (Some m, r)" for j m r
    using that G D(7) by (metis Diff_iff empty_iff insert_iff option.distinct(1))
  moreover have "conn_ok adm k (G j)" if "j \<notin> X - {s}" "smap_find (smap_erase s lv) j = Some k" for j k
    using that G D(8) [of j k] D(1) by (auto simp: smap_erase_find split: if_splits)
  ultimately show ?thesis
    using D(1-5) len av nl by (intro book_okI) (simp_all add: smap_erase_ok sm.dom_erase)
qed

lemma fd_new_watched: "(F(s \<mapsto> (None, 0))) j = Some (Some m, r) \<Longrightarrow> F j = Some (Some m, r)"
  by (auto split: if_splits)

lemma book_ok_new:
  assumes ok: "book_ok adm cap X F lv tg av nl nd" and F: "F s = None" and X: "s \<notin> X" and av: "av > 0"
    and l: "conn_ok adm l (Some (None, 0))"
  shows "smap_find lv s = None
    \<and> book_ok adm cap X (F(s \<mapsto> (None, 0))) (smap_put s l (smap_insert s l0 lv)) (smap_insert s t tg) (av - 1) (nl + 1) nd"
proof
  note D = book_okD [OF ok]
  show new: "smap_find lv s = None"
    using D(8) [OF X] F by (cases "smap_find lv s") (auto simp: conn_ok_def)
  let ?lv = "smap_put s l (smap_insert s l0 lv)"
  have len: "length ?lv = length lv + 1"
    using new D(1) by (simp add: smap_length_put smap_length_insert smap_insert_ok smap_insert_find)
  have "unat (av - 1) = unat av - 1" "0 < unat av"
    using av by (auto simp: unat_sub word_less_nat_alt word_le_nat_alt)
  then have av': "unat (av - 1) + (length lv + 1) = cap" using D(4) by linarith
  have dom: "dom (smap_find ?lv) = insert s (dom (smap_find lv))"
    using D(1) by (simp add: sm.dom_put sm.dom_insert_new smap_insert_ok)
  have find: "smap_find ?lv j = (if j = s then Some l else smap_find lv j)" for j
    using D(1) new by (simp add: smap_put_find smap_insert_find)
  have "conn_ok adm k ((F(s \<mapsto> (None, 0))) j)" if "j \<notin> X" "smap_find ?lv j = Some k" for j k
    using that l D(8) by (auto simp: find split: if_splits)
  moreover have "j \<in> dom (smap_find ?lv)" if "(F(s \<mapsto> (None, 0))) j = Some (Some m, r)" for j m r
    using fd_new_watched [OF that] D(7) dom by blast
  ultimately show "book_ok adm cap X (F(s \<mapsto> (None, 0))) ?lv (smap_insert s t tg) (av - 1) (nl + 1) nd"
    using D(1-3,5,6) len av' dom
    by (intro book_okI) (simp_all add: smap_put_ok smap_insert_ok sm.dom_insert_new del: fun_upd_apply)
qed

text \<open>What the loop over the connections does with a valid one.\<close>

lemma scan_validE:
  assumes "scan_lvl4_sms E e ts ((s, l) # ls) w = Inr (ls', ps, tos, n, w')" and "sm_valid l"
  obtains tmo w1 b l2 w2 ls1 ps1 tos1 n1 where
    "timeout_of_target E e (target_of_socket E s w) w = Inr (tmo, w1)"
    "(if ts - sm_ts l \<ge> int (unat tmo) then Inr (True, snd (should_process_buffer l), w1)
      else has_watch_timedout E e ts s (snd (should_process_buffer l)) w1) = Inr (b, l2, w2)"
    "scan_lvl4_sms E e ts ls w2 = Inr (ls1, ps1, tos1, n1, w')" "ls' = (s, l2) # ls1"
    "tos = (if b then s # tos1 else tos1)" "n = (if b then n1 else n1 + 1)"
proof -
  obtain d l1 where d: "should_process_buffer l = (d, l1)" by fastforce
  then have ts: "sm_ts l1 = sm_ts l" by (auto simp: should_process_buffer_def split: if_splits)
  obtain tmo w1 where t: "timeout_of_target E e (target_of_socket E s w) w = Inr (tmo, w1)"
    using assms d by (cases "timeout_of_target E e (target_of_socket E s w) w") auto
  obtain b l2 w2 where b: "(if ts - sm_ts l \<ge> int (unat tmo) then Inr (True, l1, w1) else has_watch_timedout E e ts s l1 w1)
      = Inr (b, l2, w2)"
    using assms d ts t by (cases "if ts - sm_ts l \<ge> int (unat tmo) then Inr (True, l1, w1) else has_watch_timedout E e ts s l1 w1") auto
  have "bind_res (scan_lvl4_sms E e ts ls w2) (\<lambda>(ls', ps, tos, n, w').
      Inr ((s, l2) # ls', if d then s # ps else ps, if b then s # tos else tos, if b then n else n + 1, w'))
      = Inr (ls', ps, tos, n, w')"
    using assms d ts t b by simp
  then obtain ls1 ps1 tos1 n1 where c: "scan_lvl4_sms E e ts ls w2 = Inr (ls1, ps1, tos1, n1, w')" "ls' = (s, l2) # ls1"
    "tos = (if b then s # tos1 else tos1)" "n = (if b then n1 else n1 + 1)"
    by (cases "scan_lvl4_sms E e ts ls w2") auto
  have l1: "snd (should_process_buffer l) = l1" using d by simp
  show thesis by (rule that [OF t _ c]) (unfold l1, rule b)
qed

section \<open>What the engine relies on\<close>

text \<open>
  \<open>fds\<close> reads the kernel's descriptor table off the world. The trigger rounds of one connection are
  given \<open>pf\<close> units of fuel; a connection announces fewer than \<open>2 ^ 30\<close> bytes, so \<open>2 ^ 30\<close> are enough.
\<close>

locale engine_env = trigger_client adm "actions_of E"
  for adm :: "'f \<Rightarrow> u32 \<Rightarrow> bool" and E :: "('f, 'pl, 'w) env" +
  fixes fds :: "'w \<Rightarrow> fd_table" and pf :: nat
  assumes pf: "2 ^ 30 \<le> pf"
    and socket_law: "os_socket (kernel E) ty pr w = ((s, err), w') \<Longrightarrow>
      s \<noteq> -1 \<and> fds w s = None \<and> fds w' = (fds w)(s \<mapsto> (None, 0))"
    and close_law: "fds (os_close (kernel E) s w) = (fds w)(s := None)"
    and epoll_add_law: "fds (os_epoll_add (kernel E) s m w) =
      (case fds w s of Some (None, r) \<Rightarrow> (fds w)(s \<mapsto> (Some m, r)) | _ \<Rightarrow> fds w)"
    and epoll_del_law: "fds (os_epoll_del (kernel E) s w) =
      (case fds w s of Some (Some m, r) \<Rightarrow> (fds w)(s \<mapsto> (None, r)) | _ \<Rightarrow> fds w)"
    and epoll_wait_law: "os_epoll_wait (kernel E) n w = (evs, w') \<Longrightarrow> fds w' = fds w
      \<and> (case evs of None \<Rightarrow> True | Some es \<Rightarrow> distinct (map fst es)
          \<and> (\<forall>(s, ev)\<in>set es. \<exists>m r. fds w s = Some (Some m, r)
               \<and> (ev AND EPOLLOUT = EPOLLOUT \<longrightarrow> m = EPOLLOUT)
               \<and> (ev AND EPOLLIN = EPOLLIN \<longrightarrow> ev AND EPOLLOUT \<noteq> EPOLLOUT \<longrightarrow> m = EPOLLIN)))"
    and fionread_law: "os_fionread (kernel E) s w = (k, w') \<Longrightarrow> fds w s = Some (mo, rx) \<Longrightarrow>
      fds w' = (fds w)(s \<mapsto> (mo, rx + unat k)) \<and> rx + unat k < 2 ^ 30"
    and read_law: "os_read (kernel E) s k w = (bs, w') \<Longrightarrow>
      fds w' = fds w \<and> (case bs of None \<Rightarrow> True | Some xs \<Rightarrow> length xs \<le> unat k)"
    and connect_law: "fds (snd (os_connect (kernel E) s a w)) = fds w"
    and so_error_law: "fds (snd (os_so_error (kernel E) s w)) = fds w"
    and epoll_create_law: "fds (os_epoll_create (kernel E) w) = fds w"
    and next_law: "\<exists>nt w'. ts_next_target E w = Inr (nt, w') \<and> fds w' = fds w"
    and finished_law: "\<exists>d h' w'. ts_target_finished E t (h, w) = Inr (d, h', w') \<and> fds w' = fds w"
    and target_set_law: "fds (snd (ts_init_host_sm E t (h, w))) = fds w"
    and save_law: "\<exists>w'. ts_save_state E file w = Inr w' \<and> fds w' = fds w"
    and callback_law: "\<exists>w'. call_finish E f t xs i w = Inr w' \<and> fds w' = fds w"
      "\<exists>w'. call_status E f nl nd w = Inr w' \<and> fds w' = fds w"
      "\<exists>go w'. call_watch_timeout E f ct w = Inr (go, w') \<and> fds w' = fds w"
      "\<exists>k w'. call_timeout_target E f t w = Inr (k, w') \<and> fds w' = fds w"
    and data_law: "act_data (actions_of E) f ct 0 k (l, h, w) = Inr (go, l', h', w') \<Longrightarrow>
      sm_valid l' = sm_valid l \<and> l4_reconnect l' = l4_reconnect l \<and> fds w' = fds w"
    and connected_law: "l4_ok adm l \<Longrightarrow> buf_pos (l4_buf l) = 0 \<Longrightarrow>
      returns_ok adm l (act_connect (actions_of E) f ct (l, h, w))
      \<and> (\<forall>r l' h' w'. act_connect (actions_of E) f ct (l, h, w) = Inr (r, l', h', w') \<longrightarrow>
           sm_valid l' = sm_valid l \<and> l4_reconnect l' = l4_reconnect l \<and> fds w' = fds w)"
begin

section \<open>Processing data of one connection\<close>

lemma round_keeps:
  assumes "trigger_process_buffer (actions_of E) ct p (l, h, w) = Inr (code, l', h', w')"
    and "progressing adm (l4_trigger l)"
  shows "sm_valid l' = sm_valid l \<and> l4_reconnect l' = l4_reconnect l \<and> fds w' = fds w"
  using assms
  by (auto simp: trigger_process_buffer_def size_trigger_process_def char_trigger_process_def
      progressing_def trigger_finish_def bind_res_eq_Inr split: trigger.splits option.splits if_splits
      dest!: data_law)

lemma progressing_builtin: "progressing adm t \<Longrightarrow> builtin_trigger t"
  by (auto simp: progressing_def builtin_trigger_def split: trigger.splits)

lemma loop_calm:
  "l4_ok adm l \<Longrightarrow> unat (buf_pos (l4_buf l)) < n \<Longrightarrow>
     \<exists>r l' h' w'. process_loop n (actions_of E) ct 0 (l, h, w) = Inr (r, l', h', w')
       \<and> sm_valid l' = sm_valid l \<and> l4_reconnect l' = l4_reconnect l \<and> fds w' = fds w
       \<and> (r \<longrightarrow> l4_ok adm l' \<and> quiescent l' \<and> unat (buf_pos (l4_buf l')) \<le> unat (buf_pos (l4_buf l)))"
proof (induction n arbitrary: l h w)
  case (Suc n)
  obtain code l1 h1 w1 where r: "trigger_process_buffer (actions_of E) ct 0 (l, h, w) = Inr (code, l1, h1, w1)"
    "code = NoMoreToProcess \<longrightarrow> l1 = l"
    "code = CanProcessAgain \<longrightarrow> l4_ok adm l1 \<and> unat (buf_pos (l4_buf l1)) < unat (buf_pos (l4_buf l))"
    using round [OF Suc.prems(1), of ct 0 h w] by blast
  have prog: "progressing adm (l4_trigger l)" using Suc.prems(1) by (simp add: l4_ok_def)
  note keeps = round_keeps [OF r(1) prog]
  show ?case
  proof (cases code)
    case CanProcessAgain
    with r(3) Suc.prems(2) have "l4_ok adm l1" "unat (buf_pos (l4_buf l1)) < n" by auto
    from Suc.IH [OF this, of h1 w1] obtain q l' h' w' where
      IH: "process_loop n (actions_of E) ct 0 (l1, h1, w1) = Inr (q, l', h', w')"
      "sm_valid l' = sm_valid l1 \<and> l4_reconnect l' = l4_reconnect l1 \<and> fds w' = fds w1"
      "q \<longrightarrow> l4_ok adm l' \<and> quiescent l' \<and> unat (buf_pos (l4_buf l')) \<le> unat (buf_pos (l4_buf l1))"
      by blast
    have "process_loop (Suc n) (actions_of E) ct 0 (l, h, w) = Inr (q, l', h', w')"
      using r(1) CanProcessAgain IH(1) by simp
    moreover have "unat (buf_pos (l4_buf l1)) \<le> unat (buf_pos (l4_buf l))" using r(3) CanProcessAgain by simp
    ultimately show ?thesis using keeps IH(2,3)
      by (intro exI [of _ q] exI [of _ l'] exI [of _ h'] exI [of _ w'])
        (auto simp del: process_loop.simps)
  next
    case NoMoreToProcess
    with trigger_NoMore_quiescent [OF r(1) [unfolded NoMoreToProcess] progressing_builtin [OF prog]]
    have "quiescent l" by simp
    moreover have "process_loop (Suc n) (actions_of E) ct 0 (l, h, w) = Inr (True, l, h1, w1)"
      using r(1,2) NoMoreToProcess by simp
    ultimately show ?thesis using keeps Suc.prems(1)
      by (intro exI [of _ True] exI [of _ l] exI [of _ h1] exI [of _ w1]) (simp del: process_loop.simps)
  next
    case ConnectionEnd
    then have "process_loop (Suc n) (actions_of E) ct 0 (l, h, w) = Inr (False, l1, h1, w1)"
      using r(1) by simp
    with keeps show ?thesis
      by (intro exI [of _ False] exI [of _ l1] exI [of _ h1] exI [of _ w1]) (simp del: process_loop.simps)
  qed
qed simp

lemma data_calm:
  assumes calm: "calm adm l" and room: "unat (buf_pos (l4_buf l)) + unat k < 2 ^ 30"
  shows "\<exists>r l' h' w'. process_lvl4_data pf (kernel E) (actions_of E) ct k (l, h, w) = Inr (r, l', h', w')
    \<and> fds w' = fds w
    \<and> (r \<longrightarrow> calm adm l' \<and> unat (buf_pos (l4_buf l')) \<le> unat (buf_pos (l4_buf l)) + unat k)"
proof -
  obtain nread w1 where rd: "os_read (kernel E) (ct_socket ct) k w = (nread, w1)" by fastforce
  note law = read_law [OF rd]
  show ?thesis
  proof (cases "nread = None \<or> nread = Some []")
    case True
    with rd law show ?thesis by (auto simp: process_lvl4_data_def Let_def split: prod.split)
  next
    case False
    then obtain bytes where b: "nread = Some bytes" "bytes \<noteq> []" by auto
    have q: "quiescent l" "buf_ok (l4_buf l)" "progressing adm (l4_trigger l)"
      using calm by (auto simp: calm_def l4_ok_def)
    obtain b2 rest where b2: "process_lvl4_data pf (kernel E) (actions_of E) ct k (l, h, w) =
        process_buffer pf (actions_of E) ct (l\<lparr>l4_buf := b2\<rparr>, h, w1)" "buf_ok b2"
        "buf_contents b2 = buf_contents (l4_buf l) @ bytes @ rest" "length rest = unat k - length bytes"
      using received_rescan [OF q(1,2) _ b(2) _ room, of "kernel E" ct w w1 pf "actions_of E" h] rd law b by auto
    let ?l = "l\<lparr>l4_buf := b2\<rparr>"
    have pos: "unat (buf_pos b2) = unat (buf_pos (l4_buf l)) + unat k"
      using b2(2-4) law b length_buf_contents [OF b2(2)] length_buf_contents [OF q(2)] by simp
    have "l4_ok adm ?l" "unat (buf_pos (l4_buf ?l)) < pf" using b2(2) q(3) pos room pf by (auto simp: l4_ok_def)
    from loop_calm [OF this, of ct h w1] b2(1) calm law pos show ?thesis
      by (fastforce simp: process_buffer_def calm_def)
  qed
qed

section \<open>Ending a connection\<close>

lemma get_host_frame: "\<exists>h hs. get_host_sm E ip e = (h, e\<lparr>hosts_sms := hs\<rparr>)"
proof (cases "smap_find (hosts_sms e) ip")
  case (Some h)
  then show ?thesis by (intro exI [of _ h] exI [of _ "hosts_sms e"]) (simp add: get_host_sm_def)
qed (auto simp: get_host_sm_def Let_def)

lemma get_lvl4_found: "smap_find (lvl4_sms e) s = Some l \<Longrightarrow> get_lvl4_sm E s e = (l, e)"
  by (simp add: get_lvl4_sm_def)

lemma finish_frame: "\<exists>w. call_callback_finish E t b err e = Inr (e\<lparr>world := w\<rparr>) \<and> fds w = fds (world e)"
proof (cases "callback_finish e")
  case None
  then show ?thesis by (intro exI [of _ "world e"]) (simp add: call_callback_finish_def)
next
  case (Some f)
  obtain w' where "call_finish E f t b err (world e) = Inr w'" "fds w' = fds (world e)"
    using callback_law(1) by blast
  with Some show ?thesis by (auto simp: call_callback_finish_def)
qed

lemma fds_freed:
  "fds (os_close (kernel E) s (os_epoll_del (kernel E) s (os_epoll_del (kernel E) s w))) = (fds w)(s := None)"
  by (auto simp: close_law epoll_del_law fun_eq_iff split: option.splits prod.splits)

lemma eng_ok_lvl4:
  assumes "eng_ok fds adm cap X e"
  shows "smap_ok (lvl4_sms e)" "dom (smap_find (lvl4_sms e)) = dom (smap_find (sockets_targets e))"
  using book_okD(1,3) [OF conjunct1 [OF assms [unfolded eng_ok_def]]] by simp_all

lemma socket_finished_ok:
  assumes ok: "eng_ok fds adm cap X e" and s: "smap_find (lvl4_sms e) s = Some l"
  shows "\<exists>e'. socket_finished E s err e = Inr e' \<and> eng_ok fds adm cap (X - {s}) e' \<and> same_others fds s e e'
    \<and> smap_find (lvl4_sms e') s = None \<and> avail_socks e' = avail_socks e + 1 \<and> fds (world e') s = None
    \<and> ndone e' = ndone e + 1"
proof -
  let ?e1 = "e\<lparr>ndone := ndone e + 1\<rparr>"
  have lok: "smap_ok (lvl4_sms e)" using eng_ok_lvl4 [OF ok] by simp
  obtain t where t: "smap_find (sockets_targets e) s = Some t" using s eng_ok_lvl4(2) [OF ok] by blast
  obtain w1 where w1: "call_callback_finish E t (l4_buf l) err ?e1 = Inr (?e1\<lparr>world := w1\<rparr>)" "fds w1 = fds (world e)"
    using finish_frame [of t "l4_buf l" err ?e1] by auto
  let ?e4 = "put_lvl4_sm s (free_buffer l) (?e1\<lparr>world := w1\<rparr>)"
  obtain h hs where h: "get_host_sm E (ipv4 t) ?e4 = (h, ?e4\<lparr>hosts_sms := hs\<rparr>)" using get_host_frame by blast
  obtain d h' w2 where d: "ts_target_finished E t (h, w1) = Inr (d, h', w2)" "fds w2 = fds w1"
    using finished_law by blast
  let ?e6 = "put_host_sm (ipv4 t) h' (?e4\<lparr>hosts_sms := hs, world := w2\<rparr>)"
  define e7 where "e7 = (if d then del_host_sm t ?e6 else ?e6)"
  have e7: "lvl4_sms e7 = smap_put s (free_buffer l) (lvl4_sms e)" "world e7 = w2"
    "sockets_targets e7 = sockets_targets e" "avail_socks e7 = avail_socks e" "nlaunched e7 = nlaunched e"
    "ndone e7 = ndone e + 1" "time_autosave e7 = time_autosave e" "last_save e7 = last_save e"
    by (simp_all add: e7_def put_host_sm_def del_host_sm_def put_lvl4_sm_def)
  have res: "socket_finished E s err e = Inr (free_socket E s e7)"
    using t s w1(1) h d(1)
    by (simp add: socket_finished_def target_from_socket_def get_lvl4_found Let_def e7_def put_lvl4_sm_def)
  let ?e' = "free_socket E s e7"
  note fs = free_socket_def Let_def remove_connected_socket_def remove_connecting_socket_def del_lvl4_sm_def
  have F: "fds (world ?e') = (fds (world e))(s := None)"
    using d(2) w1(2) by (simp add: fs fds_freed e7)
  have maps: "lvl4_sms ?e' = smap_erase s (lvl4_sms e)" "sockets_targets ?e' = smap_erase s (sockets_targets e)"
    "avail_socks ?e' = avail_socks e + 1" "nlaunched ?e' = nlaunched e" "ndone ?e' = ndone e + 1"
    using lok by (simp_all add: fs e7 smap_erase_put)
  have "book_ok adm cap (X - {s}) (fds (world ?e')) (lvl4_sms ?e') (sockets_targets ?e') (avail_socks ?e')
      (nlaunched ?e') (ndone ?e')"
    unfolding maps using ok s by (intro book_ok_free) (auto simp: F eng_ok_def)
  moreover have "time_autosave ?e' = time_autosave e" "last_save ?e' = last_save e" by (simp_all add: fs e7)
  ultimately have "eng_ok fds adm cap (X - {s}) ?e'" using ok by (auto simp: eng_ok_def)
  moreover have "same_others fds s e ?e'" "smap_find (lvl4_sms ?e') s = None" "fds (world ?e') s = None"
    using lok by (auto simp: same_others_def maps F smap_erase_find)
  ultimately show ?thesis using res maps(3,5) by blast
qed

section \<open>Events\<close>

lemma eng_ok_hosts [simp]:
  "eng_ok fds adm cap X (e\<lparr>hosts_sms := hs\<rparr>) = eng_ok fds adm cap X e"
  "eng_ok fds adm cap X (put_host_sm ip h e) = eng_ok fds adm cap X e"
  by (simp_all add: eng_ok_def put_host_sm_def)

lemma eng_ok_world: "fds w = fds (world e) \<Longrightarrow> eng_ok fds adm cap X (e\<lparr>world := w\<rparr>) = eng_ok fds adm cap X e"
  by (simp add: eng_ok_def)

lemma same_others_trans: "same_others fds s e e1 \<Longrightarrow> same_others fds s e1 e2 \<Longrightarrow> same_others fds s e e2"
  by (simp add: same_others_def)

lemma put_lvl4_ok:
  assumes ok: "eng_ok fds adm cap X e" and s: "smap_find (lvl4_sms e) s = Some l0"
    and F: "\<And>j. j \<noteq> s \<Longrightarrow> fds w j = fds (world e) j"
    and l: "s \<in> Y \<or> conn_ok adm l (fds w s)" and X: "X - {s} \<subseteq> Y"
  shows "eng_ok fds adm cap Y (put_lvl4_sm s l (e\<lparr>world := w\<rparr>))"
    and "same_others fds s e (put_lvl4_sm s l (e\<lparr>world := w\<rparr>))"
    and "smap_find (lvl4_sms (put_lvl4_sm s l (e\<lparr>world := w\<rparr>))) s = Some l"
proof -
  let ?B = "\<lambda>Y F lv. book_ok adm cap Y F lv (sockets_targets e) (avail_socks e) (nlaunched e) (ndone e)"
  have b: "?B X (fds (world e)) (lvl4_sms e)" using ok by (simp add: eng_ok_def)
  then have "?B (insert s X) (fds (world e)) (lvl4_sms e)" unfolding book_ok_def by blast
  then have "?B (insert s X) (fds w) (lvl4_sms e)" using s F by (intro book_ok_fds [where s = s and G = "fds w"]) auto
  then have "?B Y (fds w) (smap_put s l (lvl4_sms e))" using s l X by (intro book_ok_put [where X = "insert s X"]) auto
  with ok show "eng_ok fds adm cap Y (put_lvl4_sm s l (e\<lparr>world := w\<rparr>))" by (simp add: eng_ok_def put_lvl4_sm_def)
  show "same_others fds s e (put_lvl4_sm s l (e\<lparr>world := w\<rparr>))"
    using F by (simp add: same_others_def put_lvl4_sm_def smap_put_find)
  show "smap_find (lvl4_sms (put_lvl4_sm s l (e\<lparr>world := w\<rparr>))) s = Some l"
    by (simp add: put_lvl4_sm_def smap_put_find)
qed

lemma conn_ok_of:
  assumes "eng_ok fds adm cap {} e" and "smap_find (lvl4_sms e) s = Some l"
  shows "conn_ok adm l (fds (world e) s)"
  using book_okD(8) [OF conjunct1 [OF assms(1) [unfolded eng_ok_def]]] assms(2) by simp

lemma target_found:
  assumes "eng_ok fds adm cap X e" and "smap_find (lvl4_sms e) s = Some l"
  shows "\<exists>t. target_from_socket s e = Inr t"
proof -
  have "s \<in> dom (smap_find (sockets_targets e))" using eng_ok_lvl4(2) [OF assms(1)] assms(2) by blast
  then show ?thesis by (auto simp: target_from_socket_def)
qed

lemma on_connect_calm:
  assumes "calm adm l" and "buf_pos (l4_buf l) = 0"
  shows "\<exists>r l' h' w'. on_connect (actions_of E) ct (l, h, w) = Inr (r, l', h', w') \<and> fds w' = fds w
    \<and> (r \<longrightarrow> calm adm l' \<and> buf_pos (l4_buf l') = 0)"
proof (cases "func_connect l")
  case (Some f)
  have ok: "l4_ok adm l" using assms(1) by (simp add: calm_def)
  from connected_law [OF ok assms(2)] obtain r l' h' w' where
    r: "act_connect (actions_of E) f ct (l, h, w) = Inr (r, l', h', w')" "buf_ok (l4_buf l')"
      "buf_pos (l4_buf l') = 0" "r \<longrightarrow> progressing adm (l4_trigger l')"
    using assms(2) by (metis returns_okE)
  with connected_law [OF ok assms(2), of f ct h w] have
    k: "sm_valid l' = sm_valid l" "l4_reconnect l' = l4_reconnect l" "fds w' = fds w" by auto
  have "buf_contents (l4_buf l') = []" using length_buf_contents [OF r(2)] r(3) by simp
  then have "r \<longrightarrow> quiescent l'"
    using r(3,4) by (auto simp: quiescent_def progressing_def word_gt_0 split: trigger.splits)
  with r k assms(1) Some show ?thesis by (auto simp: on_connect_def calm_def l4_ok_def)
qed (auto simp: on_connect_def)

lemma connecting_ready_ok:
  assumes ok: "eng_ok fds adm cap {} e" and s: "smap_find (lvl4_sms e) s = Some l"
    and st: "fds (world e) s = Some (Some EPOLLOUT, r)"
  shows "\<exists>e'. process_connecting_ready E s e = Inr e' \<and> eng_ok fds adm cap {} e' \<and> same_others fds s e e'
    \<and> progressed fds s e e'"
proof -
  obtain err w1 where w1: "os_so_error (kernel E) s (world e) = (err, w1)" by fastforce
  then have f1: "fds w1 = fds (world e)" using so_error_law [of s "world e"] by simp
  let ?e2 = "e\<lparr>world := w1\<rparr>"
  have ok2: "eng_ok fds adm cap {} ?e2" "smap_find (lvl4_sms ?e2) s = Some l" using ok s f1 by (simp_all add: eng_ok_world)
  have so2: "same_others fds s e ?e2" using f1 by (simp add: same_others_def)
  show ?thesis
  proof (cases "err = 0")
    case False
    with socket_finished_ok [OF ok2, of err] w1 s so2 show ?thesis
      by (auto simp: process_connecting_ready_def get_lvl4_found Let_def progressed_def intro: same_others_trans)
  next
    case True
    obtain t where t: "target_from_socket s ?e2 = Inr t" using target_found [OF ok2] by blast
    obtain h hs where h: "get_host_sm E (ipv4 t) ?e2 = (h, ?e2\<lparr>hosts_sms := hs\<rparr>)" using get_host_frame by blast
    have cl: "calm adm l" "buf_pos (l4_buf l) = 0"
      using conn_ok_of [OF ok s] st by (auto simp: conn_ok_def EPOLLIN_def EPOLLOUT_def)
    obtain q l' h' w' where q: "on_connect (actions_of E) (Connected_Target s t) (l, h, w1) = Inr (q, l', h', w')"
      "fds w' = fds w1" "q \<longrightarrow> calm adm l' \<and> buf_pos (l4_buf l') = 0"
      using on_connect_calm [OF cl] by blast
    let ?e3 = "?e2\<lparr>hosts_sms := hs\<rparr>"
    have ok3: "eng_ok fds adm cap {} ?e3" "smap_find (lvl4_sms ?e3) s = Some l" using ok2 by simp_all
    let ?p = "put_lvl4_sm s l' (?e3\<lparr>world := w'\<rparr>)"
    let ?e4 = "put_host_sm (ipv4 t) h' ?p"
    have p: "eng_ok fds adm cap {s} ?p" "same_others fds s ?e3 ?p" "smap_find (lvl4_sms ?p) s = Some l'"
      using put_lvl4_ok [OF ok3, of w' "{s}" l'] q(2) by auto
    have "eng_ok fds adm cap {s} ?e4" using p(1) by simp
    moreover have "smap_find (lvl4_sms ?e4) s = Some l'" "same_others fds s e ?e4" "fds (world ?e4) = fds (world e)"
      using p(2,3) so2 q(2) f1 by (simp_all add: same_others_def put_host_sm_def put_lvl4_sm_def)
    ultimately have e4: "eng_ok fds adm cap {s} ?e4" "smap_find (lvl4_sms ?e4) s = Some l'"
      "same_others fds s e ?e4" "fds (world ?e4) = fds (world e)" .
    note unf = process_connecting_ready_def get_lvl4_found [OF s] w1 t h q(1) True Let_def
    show ?thesis
    proof (cases q)
      case False
      with socket_finished_ok [OF e4(1,2), of 0] e4(3) show ?thesis
        by (auto simp: unf progressed_def intro: same_others_trans)
    next
      case True
      let ?w5 = "os_epoll_add (kernel E) s EPOLLIN (os_epoll_del (kernel E) s (world ?e4))"
      let ?l = "update_ts (timestamp (kernel E) ?w5) l'"
      have F5: "fds ?w5 = (fds (world e))(s \<mapsto> (Some EPOLLIN, r))"
        using st e4(4) by (simp add: epoll_add_law epoll_del_law)
      have "conn_ok adm ?l (fds ?w5 s)"
        using True q(3) F5 by (auto simp: conn_ok_def)
      with put_lvl4_ok [OF e4(1,2), of ?w5 "{}" ?l] F5 e4(3,4) True show ?thesis
        by (auto simp: unf add_connected_socket_def remove_connecting_socket_def progressed_def gauge_def st
            put_lvl4_sm_def EPOLLIN_def EPOLLOUT_def intro: same_others_trans)
    qed
  qed
qed

lemma connected_ready_ok:
  assumes ok: "eng_ok fds adm cap {} e" and s: "smap_find (lvl4_sms e) s = Some l"
    and st: "fds (world e) s = Some (Some EPOLLIN, r)"
  shows "\<exists>e'. process_connected_ready pf E s e = Inr e' \<and> eng_ok fds adm cap {} e' \<and> same_others fds s e e'
    \<and> progressed fds s e e'"
proof -
  have cl: "calm adm l" "unat (buf_pos (l4_buf l)) \<le> r"
    using conn_ok_of [OF ok s] st by (auto simp: conn_ok_def)
  obtain t where t: "target_from_socket s e = Inr t" using target_found [OF ok s] by blast
  obtain k w1 where k: "os_fionread (kernel E) s (world e) = (k, w1)" by fastforce
  then have f1: "fds w1 = (fds (world e))(s \<mapsto> (Some EPOLLIN, r + unat k))" "r + unat k < 2 ^ 30"
    using fionread_law [OF k st] by auto
  let ?e2 = "e\<lparr>world := w1\<rparr>"
  have "book_ok adm cap {} (fds w1) (lvl4_sms e) (sockets_targets e) (avail_socks e) (nlaunched e) (ndone e)"
  proof (rule book_ok_fds [where s = s])
    show "book_ok adm cap {} (fds (world e)) (lvl4_sms e) (sockets_targets e) (avail_socks e) (nlaunched e) (ndone e)"
      using ok by (simp add: eng_ok_def)
  qed (use s f1(1) cl in \<open>auto simp: conn_ok_def\<close>)
  then have ok2: "eng_ok fds adm cap {} ?e2" "smap_find (lvl4_sms ?e2) s = Some l"
    using ok s by (simp_all add: eng_ok_def)
  have so2: "same_others fds s e ?e2" using f1(1) by (simp add: same_others_def)
  note unf = process_connected_ready_def get_lvl4_found [OF s] t k Let_def
  show ?thesis
  proof (cases "k = 0")
    case True
    have "\<not> l4_reconnect l" using cl(1) by (simp add: calm_def)
    with True socket_finished_ok [OF ok2, of ECONNRESET] so2 show ?thesis
      by (auto simp: unf progressed_def intro: same_others_trans)
  next
    case False
    obtain h hs where h: "get_host_sm E (ipv4 t) ?e2 = (h, ?e2\<lparr>hosts_sms := hs\<rparr>)" using get_host_frame by blast
    have "unat (buf_pos (l4_buf l)) + unat k < 2 ^ 30" using cl(2) f1(2) by linarith
    from data_calm [OF cl(1) this, of "Connected_Target s t" h w1] obtain q l' h' w' where
      q: "process_lvl4_data pf (kernel E) (actions_of E) (Connected_Target s t) k (l, h, w1) = Inr (q, l', h', w')"
        "fds w' = fds w1" "q \<longrightarrow> calm adm l' \<and> unat (buf_pos (l4_buf l')) \<le> unat (buf_pos (l4_buf l)) + unat k"
      by blast
    let ?l = "update_ts (timestamp (kernel E) w') l'" and ?e3 = "?e2\<lparr>hosts_sms := hs\<rparr>"
    let ?p = "put_lvl4_sm s ?l (?e3\<lparr>world := w'\<rparr>)"
    let ?e5 = "put_host_sm (ipv4 t) h' ?p"
    have ok3: "eng_ok fds adm cap {} ?e3" "smap_find (lvl4_sms ?e3) s = Some l" using ok2 by simp_all
    have "q \<longrightarrow> conn_ok adm ?l (fds w' s)"
      using q(2,3) f1(1) cl(2) by (auto simp: conn_ok_def)
    then have p: "eng_ok fds adm cap (if q then {} else {s}) ?p" "same_others fds s ?e3 ?p"
      "smap_find (lvl4_sms ?p) s = Some ?l"
      using put_lvl4_ok [OF ok3, of w' "if q then {} else {s}" ?l] q(2) by auto
    have so: "same_others fds s e ?e5" and fi: "smap_find (lvl4_sms ?e5) s = Some ?l"
      using p(2,3) so2 by (simp_all add: same_others_def put_host_sm_def put_lvl4_sm_def)
    have ok5: "eng_ok fds adm cap (if q then {} else {s}) ?e5" using p(1) by simp
    have "0 < unat k" using False by (simp add: unat_gt_0)
    moreover have "fds (world ?e5) s = Some (Some EPOLLIN, r + unat k)"
      using q(2) f1(1) by (simp add: put_host_sm_def put_lvl4_sm_def)
    ultimately have pr: "progressed fds s e ?e5"
      unfolding progressed_def using f1(2) st by (intro disjI2) (simp add: gauge_def diff_less_mono2)
    show ?thesis
    proof (cases q)
      case True
      with ok5 so pr False show ?thesis by (auto simp: unf h q(1))
    next
      case nq: False
      then have "eng_ok fds adm cap {s} ?e5" using ok5 by simp
      from socket_finished_ok [OF this fi, of 0] so nq False show ?thesis
        by (auto simp: unf h q(1) progressed_def intro: same_others_trans)
    qed
  qed
qed

lemma event_ok:
  assumes ok: "eng_ok fds adm cap {} e" and st: "fds (world e) s = Some (Some m, r)"
    and "ev AND EPOLLOUT = EPOLLOUT \<longrightarrow> m = EPOLLOUT"
    and "ev AND EPOLLIN = EPOLLIN \<longrightarrow> ev AND EPOLLOUT \<noteq> EPOLLOUT \<longrightarrow> m = EPOLLIN"
  shows "\<exists>e'. process_event pf E (s, ev) e = Inr e' \<and> eng_ok fds adm cap {} e' \<and> same_others fds s e e'
    \<and> advances fds e e'"
proof -
  obtain l where l: "smap_find (lvl4_sms e) s = Some l"
    using book_okD(7) [OF conjunct1 [OF ok [unfolded eng_ok_def]] st] by blast
  have adv: "advances fds e e'" if "same_others fds s e e'" "progressed fds s e e'" for e'
    using progressed_lowers [OF that(1) _ that(2)] l st by (auto simp: advances_def gauge_def)
  consider (o) "ev AND EPOLLOUT = EPOLLOUT" | (i) "ev AND EPOLLOUT \<noteq> EPOLLOUT" "ev AND EPOLLIN = EPOLLIN"
    | (n) "ev AND EPOLLOUT \<noteq> EPOLLOUT" "ev AND EPOLLIN \<noteq> EPOLLIN" by blast
  then show ?thesis
  proof cases
    case o
    with assms(3) connecting_ready_ok [OF ok l] st adv show ?thesis by (auto simp: process_event_def)
  next
    case i
    with assms(4) connected_ready_ok [OF ok l] st adv show ?thesis by (auto simp: process_event_def)
  next
    case n
    with ok show ?thesis by (simp add: process_event_def same_others_def)
  qed
qed

lemma event_list_ok:
  "eng_ok fds adm cap {} e \<Longrightarrow> distinct (map fst evs) \<Longrightarrow>
   (\<forall>(s, ev)\<in>set evs. \<exists>m r. fds (world e) s = Some (Some m, r)
     \<and> (ev AND EPOLLOUT = EPOLLOUT \<longrightarrow> m = EPOLLOUT)
     \<and> (ev AND EPOLLIN = EPOLLIN \<longrightarrow> ev AND EPOLLOUT \<noteq> EPOLLOUT \<longrightarrow> m = EPOLLIN)) \<Longrightarrow>
   \<exists>e'. process_event_list pf E evs e = Inr e' \<and> eng_ok fds adm cap {} e' \<and> advances fds e e'"
proof (induction evs arbitrary: e)
  case (Cons x evs)
  obtain s ev where x: "x = (s, ev)" by (cases x)
  from Cons.prems(3) obtain m r where m: "fds (world e) s = Some (Some m, r)"
    "ev AND EPOLLOUT = EPOLLOUT \<longrightarrow> m = EPOLLOUT"
    "ev AND EPOLLIN = EPOLLIN \<longrightarrow> ev AND EPOLLOUT \<noteq> EPOLLOUT \<longrightarrow> m = EPOLLIN" by (auto simp: x)
  from event_ok [OF Cons.prems(1) m] obtain e1 where
    e1: "process_event pf E (s, ev) e = Inr e1" "eng_ok fds adm cap {} e1" "same_others fds s e e1" "advances fds e e1"
    by blast
  have "fds (world e1) j = fds (world e) j" if "(j, jev) \<in> set evs" for j jev
    using that Cons.prems(2) e1(3) by (force simp: x same_others_def)
  then have "\<forall>(s, ev)\<in>set evs. \<exists>m r. fds (world e1) s = Some (Some m, r)
     \<and> (ev AND EPOLLOUT = EPOLLOUT \<longrightarrow> m = EPOLLOUT)
     \<and> (ev AND EPOLLIN = EPOLLIN \<longrightarrow> ev AND EPOLLOUT \<noteq> EPOLLOUT \<longrightarrow> m = EPOLLIN)"
    using Cons.prems(3) by (auto simp: x)
  from Cons.IH [OF e1(2) _ this] Cons.prems(2) e1(1,4) show ?case by (auto simp: x intro: advances_trans)
qed simp

lemma events_ok:
  assumes "eng_ok fds adm cap {} e"
  shows "\<exists>n e'. process_events pf E e = Inr (n, e') \<and> eng_ok fds adm cap {} e' \<and> advances fds e e'"
proof -
  obtain evs w1 where w: "os_epoll_wait (kernel E) MAX_EVENTS (world e) = (evs, w1)" by fastforce
  note law = epoll_wait_law [OF w]
  let ?e1 = "e\<lparr>world := w1\<rparr>"
  have ok1: "eng_ok fds adm cap {} ?e1" "advances fds e ?e1"
    using assms law by (simp_all add: eng_ok_world advances_same ts_of_def fun_eq_iff)
  show ?thesis
  proof (cases evs)
    case None
    with w ok1 show ?thesis by (auto simp: process_events_def)
  next
    case (Some es)
    with law event_list_ok [OF ok1(1), of es] w ok1(2) show ?thesis
      by (auto simp: process_events_def intro: advances_trans)
  qed
qed

section \<open>Dirty buffers and timeouts\<close>

lemma watch_frame:
  "\<exists>b l' w'. has_watch_timedout E e ts s l w = Inr (b, l', w')
     \<and> l4_buf l' = l4_buf l \<and> sm_ts l' = sm_ts l \<and> (calm adm l \<longrightarrow> calm adm l') \<and> fds w' = fds w"
proof (cases "watch_timeout_cb e")
  case (Some f)
  obtain go w' where "call_watch_timeout E f (Connected_Target s (target_of_socket E s w)) w = Inr (go, w')" "fds w' = fds w"
    using callback_law(3) by blast
  with Some show ?thesis by (auto simp: has_watch_timedout_def)
qed (auto simp: has_watch_timedout_def)

lemma timeout_frame: "\<exists>k w'. timeout_of_target E e t w = Inr (k, w') \<and> fds w' = fds w"
  using callback_law(4) by (auto simp: timeout_of_target_def split: option.splits)

lemma scan_entry:
  assumes "should_process_buffer l = (d, l1)"
  obtains b l2 w2 where
    "(if ts - sm_ts l1 \<ge> int (unat tmo) then Inr (True, l1, w1) else has_watch_timedout E e ts s l1 w1) = Inr (b, l2, w2)"
    "sm_ts l2 = sm_ts l" "\<forall>st. conn_ok adm l st \<longrightarrow> conn_ok adm l2 st" "fds w2 = fds w1"
proof -
  have "l4_buf l1 = l4_buf l" "calm adm l1 = calm adm l" "sm_ts l1 = sm_ts l"
    using assms by (auto simp: should_process_buffer_def split: if_splits)
  moreover obtain b l2 w2 where
    "(if ts - sm_ts l1 \<ge> int (unat tmo) then Inr (True, l1, w1) else has_watch_timedout E e ts s l1 w1) = Inr (b, l2, w2)"
    "l4_buf l2 = l4_buf l1 \<and> sm_ts l2 = sm_ts l1 \<and> (calm adm l1 \<longrightarrow> calm adm l2) \<and> fds w2 = fds w1"
    using watch_frame [of e ts s l1 w1] by (cases "ts - sm_ts l1 \<ge> int (unat tmo)") auto
  ultimately show thesis using conn_ok_mono [of l2 l] that by auto
qed

lemma scan_ok:
  "\<exists>ls' ps tos n w'. scan_lvl4_sms E e ts ls w = Inr (ls', ps, tos, n, w')
     \<and> list_all2 (\<lambda>x y. fst x = fst y \<and> sm_ts (snd y) = sm_ts (snd x) \<and> (\<forall>st. conn_ok adm (snd x) st \<longrightarrow> conn_ok adm (snd y) st)) ls ls'
     \<and> set ps \<subseteq> fst ` set ls \<and> set tos \<subseteq> fst ` set ls \<and> (distinct (map fst ls) \<longrightarrow> distinct tos)
     \<and> fds w' = fds w"
proof (induction ls arbitrary: w)
  case (Cons x ls)
  obtain s l where x: "x = (s, l)" by (cases x)
  show ?case
  proof (cases "sm_valid l")
    case False
    with Cons.IH [of w] show ?thesis by (auto simp: x)
  next
    case True
    obtain d l1 where d: "should_process_buffer l = (d, l1)" by fastforce
    obtain k w1 where k: "timeout_of_target E e (target_of_socket E s w) w = Inr (k, w1)" "fds w1 = fds w"
      using timeout_frame by blast
    obtain b l2 w2 where b: "(if ts - sm_ts l1 \<ge> int (unat k) then Inr (True, l1, w1)
        else has_watch_timedout E e ts s l1 w1) = Inr (b, l2, w2)" "sm_ts l2 = sm_ts l"
      "\<forall>st. conn_ok adm l st \<longrightarrow> conn_ok adm l2 st" "fds w2 = fds w1"
      by (rule scan_entry [OF d])
    from Cons.IH [of w2] obtain ls1 ps1 tos1 n1 w3 where r: "scan_lvl4_sms E e ts ls w2 = Inr (ls1, ps1, tos1, n1, w3)"
      "list_all2 (\<lambda>x y. fst x = fst y \<and> sm_ts (snd y) = sm_ts (snd x) \<and> (\<forall>st. conn_ok adm (snd x) st \<longrightarrow> conn_ok adm (snd y) st)) ls ls1"
      "set ps1 \<subseteq> fst ` set ls" "set tos1 \<subseteq> fst ` set ls" "distinct (map fst ls) \<longrightarrow> distinct tos1" "fds w3 = fds w2"
      by blast
    have "scan_lvl4_sms E e ts (x # ls) w = Inr ((s, l2) # ls1, if d then s # ps1 else ps1,
        if b then s # tos1 else tos1, if b then n1 else n1 + 1, w3)"
      using True d k(1) b(1) r(1) by (simp add: x)
    with r(2-6) b(2-4) k(2) show ?thesis by (auto simp: x simp del: scan_lvl4_sms.simps)
  qed
qed simp

lemma scan_find:
  "list_all2 (\<lambda>x y. fst x = fst y \<and> sm_ts (snd y) = sm_ts (snd x) \<and> (\<forall>st. conn_ok adm (snd x) st \<longrightarrow> conn_ok adm (snd y) st)) ls ls' \<Longrightarrow>
     smap_find ls' s = Some l' \<Longrightarrow>
     \<exists>l. smap_find ls s = Some l \<and> sm_ts l' = sm_ts l \<and> (\<forall>st. conn_ok adm l st \<longrightarrow> conn_ok adm l' st)"
  by (induction ls ls' rule: list_all2_induct) (auto split: if_splits)

lemma scan_eng_ok:
  assumes ok: "eng_ok fds adm cap {} e" and r: "scan_lvl4_sms E e ts (lvl4_sms e) w = Inr (ls', ps, tos, n, w')"
    and w: "fds w = fds (world e)"
  shows "eng_ok fds adm cap {} (e\<lparr>lvl4_sms := ls', world := w'\<rparr>)" "set ps \<subseteq> dom (smap_find ls')"
    "set tos \<subseteq> dom (smap_find ls')" "distinct tos" "ts_of (e\<lparr>lvl4_sms := ls', world := w'\<rparr>) = ts_of e"
    "fds w' = fds (world e)"
proof -
  have S: "list_all2 (\<lambda>x y. fst x = fst y \<and> sm_ts (snd y) = sm_ts (snd x)
        \<and> (\<forall>st. conn_ok adm (snd x) st \<longrightarrow> conn_ok adm (snd y) st)) (lvl4_sms e) ls'
      \<and> set ps \<subseteq> fst ` set (lvl4_sms e) \<and> set tos \<subseteq> fst ` set (lvl4_sms e)
      \<and> (distinct (map fst (lvl4_sms e)) \<longrightarrow> distinct tos) \<and> fds w' = fds w"
    using scan_ok [of e ts "lvl4_sms e" w] r by auto
  have keys: "map fst ls' = map fst (lvl4_sms e)"
    using S by (auto simp: list_all2_conv_all_nth intro!: nth_equalityI)
  then have dom: "dom (smap_find ls') = dom (smap_find (lvl4_sms e))" by (simp add: smap_dom flip: set_map)
  have ok': "smap_ok ls'" using eng_ok_lvl4(1) [OF ok] keys by (simp add: smap_ok_def)
  have len: "length ls' = length (lvl4_sms e)" using keys by (metis length_map)
  note D = book_okD [OF conjunct1 [OF ok [unfolded eng_ok_def]]]
  have F: "fds w' = fds (world e)" using S w by simp
  have "conn_ok adm l' (fds w' s)" if "smap_find ls' s = Some l'" for s l'
    using scan_find [OF _ that] S D(8) F by auto
  then have "book_ok adm cap {} (fds w') ls' (sockets_targets e) (avail_socks e) (nlaunched e) (ndone e)"
    using D(2-7) ok' len dom by (intro book_okI) (simp_all add: F)
  with ok show "eng_ok fds adm cap {} (e\<lparr>lvl4_sms := ls', world := w'\<rparr>)" by (simp add: eng_ok_def)
  show "set ps \<subseteq> dom (smap_find ls')" "set tos \<subseteq> dom (smap_find ls')" unfolding dom using S by (simp_all add: smap_dom)
  have "distinct (map fst (lvl4_sms e))" using eng_ok_lvl4(1) [OF ok] by (metis smap_ok_def strict_sorted_iff)
  with S show "distinct tos" by simp
  show "fds w' = fds (world e)" by (rule F)
  show "ts_of (e\<lparr>lvl4_sms := ls', world := w'\<rparr>) = ts_of e"
  proof
    fix s show "ts_of (e\<lparr>lvl4_sms := ls', world := w'\<rparr>) s = ts_of e s"
    proof (cases "smap_find ls' s")
      case None
      then have "smap_find (lvl4_sms e) s = None" using dom by blast
      with None show ?thesis by (simp add: ts_of_def)
    next
      case (Some l)
      with scan_find [OF conjunct1 [OF S] Some] show ?thesis by (auto simp: ts_of_def)
    qed
  qed
qed

lemma dirty_ok:
  "eng_ok fds adm cap {} e \<Longrightarrow> set ps \<subseteq> dom (smap_find (lvl4_sms e)) \<Longrightarrow>
     \<exists>e'. process_dirty pf E ps e = Inr e' \<and> eng_ok fds adm cap {} e'
       \<and> smap_find (lvl4_sms e') = smap_find (lvl4_sms e) \<and> fds (world e') = fds (world e)"
proof (induction ps arbitrary: e)
  case (Cons s ps)
  then obtain l where l: "smap_find (lvl4_sms e) s = Some l" by auto
  obtain t where t: "target_from_socket s e = Inr t" using target_found [OF Cons.prems(1) l] by blast
  obtain h hs where h: "get_host_sm E (ipv4 t) e = (h, e\<lparr>hosts_sms := hs\<rparr>)" using get_host_frame by blast
  have c: "conn_ok adm l (fds (world e) s)" using conn_ok_of [OF Cons.prems(1) l] .
  have pb: "process_buffer pf (actions_of E) (Connected_Target s t) (l, h, world e) = Inr (True, l, h, world e)"
    using c pf by (intro process_buffer_quiescent) (auto simp: conn_ok_def calm_def)
  let ?e1 = "e\<lparr>hosts_sms := hs\<rparr>"
  have ok1: "eng_ok fds adm cap {} ?e1" "smap_find (lvl4_sms ?e1) s = Some l" using Cons.prems(1) l by simp_all
  let ?p = "put_lvl4_sm s l (?e1\<lparr>world := world e\<rparr>)"
  let ?e3 = "put_host_sm (ipv4 t) h ?p"
  have "eng_ok fds adm cap {} ?p" using put_lvl4_ok(1) [OF ok1, of "world e" "{}" l] c by simp
  then have ok3: "eng_ok fds adm cap {} ?e3" by simp
  have find: "smap_find (lvl4_sms ?e3) = smap_find (lvl4_sms e)"
    using l by (auto simp: put_host_sm_def put_lvl4_sm_def smap_put_find fun_eq_iff)
  moreover have "fds (world ?e3) = fds (world e)" by (simp add: put_host_sm_def put_lvl4_sm_def)
  ultimately show ?case using Cons.IH [OF ok3] Cons.prems(2) t h pb by (simp add: get_lvl4_found [OF l])
qed simp

lemma timeouts_ok:
  "eng_ok fds adm cap {} e \<Longrightarrow> distinct tos \<Longrightarrow> set tos \<subseteq> dom (smap_find (lvl4_sms e)) \<Longrightarrow>
     \<exists>e'. finish_timeouts E tos e = Inr e' \<and> eng_ok fds adm cap {} e'
       \<and> (\<forall>s. smap_find (lvl4_sms e') s = (if s \<in> set tos then None else smap_find (lvl4_sms e) s))
       \<and> (if tos = [] then e' = e else weight fds e' < weight fds e)"
proof (induction tos arbitrary: e)
  case (Cons s tos)
  then obtain l where l: "smap_find (lvl4_sms e) s = Some l" by auto
  from socket_finished_ok [OF Cons.prems(1) l, of NS_TIMEOUT] obtain e1 where
    e1: "socket_finished E s NS_TIMEOUT e = Inr e1" "eng_ok fds adm cap {} e1" "same_others fds s e e1"
      "smap_find (lvl4_sms e1) s = None" by auto
  have "0 < gauge (fds (world e) s)"
    using conn_ok_of [OF Cons.prems(1) l] by (auto simp: conn_ok_def gauge_def split: option.splits)
  then have "weight fds e1 < weight fds e"
    using l e1(4) by (intro progressed_lowers [OF e1(3)]) (auto simp: progressed_def)
  have "set tos \<subseteq> dom (smap_find (lvl4_sms e1))"
    using Cons.prems(2,3) e1(3) by (fastforce simp: same_others_def)
  with Cons.IH [OF e1(2)] Cons.prems(2) obtain e2 where e2: "finish_timeouts E tos e1 = Inr e2"
    "eng_ok fds adm cap {} e2"
    "\<forall>j. smap_find (lvl4_sms e2) j = (if j \<in> set tos then None else smap_find (lvl4_sms e1) j)"
    "if tos = [] then e2 = e1 else weight fds e2 < weight fds e1" by auto
  moreover have "smap_find (lvl4_sms e2) j = (if j \<in> set (s # tos) then None else smap_find (lvl4_sms e) j)" for j
    using e2(3) e1(3,4) by (auto simp: same_others_def)
  ultimately show ?case using e1(1) \<open>weight fds e1 < weight fds e\<close> by (auto split: if_splits)
qed simp

lemma dirty_and_timeouts_ok:
  assumes "eng_ok fds adm cap {} e"
  shows "\<exists>n e' tos. process_dirty_and_timeouts pf E e = Inr (n, e') \<and> eng_ok fds adm cap {} e'
    \<and> (\<exists>ls ps w. scan_lvl4_sms E e (timestamp (kernel E) (world e)) (lvl4_sms e) (world e) = Inr (ls, ps, tos, n, w))
    \<and> (\<forall>s. ts_of e' s = (if s \<in> set tos then None else ts_of e s))
    \<and> (if tos = [] then weight fds e' = weight fds e else weight fds e' < weight fds e)"
proof -
  let ?ts = "timestamp (kernel E) (world e)"
  obtain ls ps tos n w where r: "scan_lvl4_sms E e ?ts (lvl4_sms e) (world e) = Inr (ls, ps, tos, n, w)"
    using scan_ok [of e ?ts "lvl4_sms e" "world e"] by blast
  let ?e0 = "e\<lparr>lvl4_sms := ls, world := w\<rparr>"
  note S = scan_eng_ok [OF assms r refl]
  obtain e1 where e1: "process_dirty pf E ps ?e0 = Inr e1" "eng_ok fds adm cap {} e1"
    "smap_find (lvl4_sms e1) = smap_find ls" "fds (world e1) = fds w"
    using dirty_ok [OF S(1)] S(2) by auto
  have ts1: "ts_of e1 = ts_of e" using S(5) e1(3) by (simp add: ts_of_def fun_eq_iff)
  have "dom (smap_find (lvl4_sms e1)) = dom (smap_find (lvl4_sms e))"
    using ts1 by (rule ts_of_dom)
  then have w1: "weight fds e1 = weight fds e" using S(6) e1(4) by (simp add: weight_def)
  obtain e2 where e2: "finish_timeouts E tos e1 = Inr e2" "eng_ok fds adm cap {} e2"
    "\<forall>s. smap_find (lvl4_sms e2) s = (if s \<in> set tos then None else smap_find (lvl4_sms e1) s)"
    "if tos = [] then e2 = e1 else weight fds e2 < weight fds e1"
    using timeouts_ok [OF e1(2) S(4)] S(3) e1(3) by auto
  have "ts_of e2 s = (if s \<in> set tos then None else ts_of e s)" for s
    using e2(3) ts1 by (simp add: ts_of_def fun_eq_iff)
  moreover have "process_dirty_and_timeouts pf E e = Inr (n, e2)"
    using e1(1) r e2(1) by (simp add: process_dirty_and_timeouts_def Let_def)
  moreover have "if tos = [] then weight fds e2 = weight fds e else weight fds e2 < weight fds e"
    using e2(4) w1 by (auto split: if_splits)
  ultimately show ?thesis using e2(2) r by blast
qed

section \<open>Launching\<close>

lemma fresh_conn_ok:
  "conn_ok adm (update_ts ts (set_on_connect a (set_valid True (lvl4_sm_new now)))) (Some (None, 0))"
  by (simp add: conn_ok_def calm_def l4_ok_def quiescent_def progressing_def update_ts_def set_on_connect_def
      set_valid_def lvl4_sm_new_def lvl4_sm.defs state_machine.defs state_machine_new_def buf_new_def buf_ok_def)

lemma create_socket_ok:
  assumes ok: "eng_ok fds adm cap {} e" and av: "avail_socks e > 0"
  shows "\<exists>ret s err e' l. create_socket E t (e\<lparr>nlaunched := nlaunched e + 1\<rparr>) = Inr ((ret, s, err), e')
    \<and> eng_ok fds adm cap {} e' \<and> smap_find (lvl4_sms e') s = Some l
    \<and> fds (world e') s = Some (None, 0) \<and> avail_socks e' = avail_socks e - 1
    \<and> same_others fds s e e' \<and> smap_find (lvl4_sms e) s = None \<and> fds (world e) s = None"
proof -
  obtain s err w1 where w1: "os_socket (kernel E) (port_socket_type E (tport t)) (port_socket_proto E (tport t)) (world e)
      = ((s, err), w1)" by (metis prod.collapse)
  note law = socket_law [OF w1]
  obtain ret cerr w2 where w2: "os_connect (kernel E) s (to_sockaddr_in t) w1 = ((ret, cerr), w2)"
    by (metis prod.collapse)
  have f2: "fds w2 = (fds (world e))(s \<mapsto> (None, 0))"
    using law connect_law [of s "to_sockaddr_in t" w1] w2 by simp
  let ?now = "timestamp (kernel E) w2"
  let ?fresh = "lvl4_sm_new ?now :: 'f lvl4_sm"
  let ?l = "update_ts ?now (set_on_connect (callback_lvl4_connected e) (set_valid True ?fresh))"
  have b: "book_ok adm cap {} (fds (world e)) (lvl4_sms e) (sockets_targets e) (avail_socks e) (nlaunched e) (ndone e)"
    using ok by (simp add: eng_ok_def)
  note N = book_ok_new [OF b, of s ?l ?fresh t]
  have new: "smap_find (lvl4_sms e) s = None"
    and bk: "book_ok adm cap {} (fds w2) (smap_put s ?l (smap_insert s ?fresh (lvl4_sms e)))
      (smap_insert s t (sockets_targets e)) (avail_socks e - 1) (nlaunched e + 1) (ndone e)"
    using N law av fresh_conn_ok f2 by auto
  have lok: "smap_ok (lvl4_sms e)" using eng_ok_lvl4(1) [OF ok] .
  let ?e' = "e\<lparr>nlaunched := nlaunched e + 1, world := w2, avail_socks := avail_socks e - 1,
      lvl4_sms := smap_put s ?l (smap_insert s ?fresh (lvl4_sms e)),
      sockets_targets := smap_insert s t (sockets_targets e)\<rparr>"
  have "create_socket E t (e\<lparr>nlaunched := nlaunched e + 1\<rparr>) = Inr ((ret, s, cerr), ?e')"
    using av w1 w2 law new lok
    by (simp add: create_socket_def new_socket_def new_lvl4_sm_def put_lvl4_sm_def Let_def smap_insert_find)
  moreover have "eng_ok fds adm cap {} ?e'" using bk ok by (simp add: eng_ok_def)
  moreover have "smap_find (lvl4_sms ?e') s = Some ?l" by (simp add: smap_put_find)
  moreover have "fds (world ?e') s = Some (None, 0)" "avail_socks ?e' = avail_socks e - 1" using f2 by simp_all
  moreover have "same_others fds s e ?e'" using f2 lok by (simp add: same_others_def smap_put_find smap_insert_find)
  ultimately show ?thesis using new law by blast
qed

lemma failed_connect:
  assumes ok: "eng_ok fds adm cap {} e" and av: "avail_socks e > 0"
    and c: "create_socket E t (e\<lparr>nlaunched := nlaunched e + 1\<rparr>) = Inr ((ret, s, err), e2)"
  shows "\<exists>e3. socket_finished E s err e2 = Inr e3 \<and> eng_ok fds adm cap {} e3 \<and> same_conns fds e e3
    \<and> avail_socks e3 = avail_socks e"
proof -
  obtain l where c2: "eng_ok fds adm cap {} e2" "smap_find (lvl4_sms e2) s = Some l" "same_others fds s e e2"
    "avail_socks e2 = avail_socks e - 1" "smap_find (lvl4_sms e) s = None" "fds (world e) s = None"
    using create_socket_ok [OF ok av, of t] c by auto
  from socket_finished_ok [OF c2(1,2), of err] obtain e3 where
    e3: "socket_finished E s err e2 = Inr e3" "eng_ok fds adm cap {} e3" "same_others fds s e2 e3"
      "smap_find (lvl4_sms e3) s = None" "avail_socks e3 = avail_socks e" "fds (world e3) s = None"
    using c2(4) by auto
  have "smap_find (lvl4_sms e3) j = smap_find (lvl4_sms e) j \<and> fds (world e3) j = fds (world e) j" for j
    using same_others_trans [OF c2(3) e3(3)] e3(4,6) c2(5,6) by (cases "j = s") (auto simp: same_others_def)
  then have "same_conns fds e e3" by (simp add: same_conns_def fun_eq_iff)
  with e3 show ?thesis by blast
qed

lemma launch_one_ok:
  "eng_ok fds adm cap {} e \<Longrightarrow> avail_socks e > 0 \<Longrightarrow>
     launch_one n E e = Inl Out_of_fuel \<or> (\<exists>r e'. launch_one n E e = Inr (r, e') \<and> eng_ok fds adm cap {} e'
       \<and> launch_post fds r e e')"
proof (induction n arbitrary: e)
  case (Suc n)
  obtain nt w1 where nt: "ts_next_target E (world e) = Inr (nt, w1)" "fds w1 = fds (world e)" using next_law by blast
  let ?e1 = "e\<lparr>world := w1\<rparr>"
  have ok1: "eng_ok fds adm cap {} ?e1" "avail_socks ?e1 > 0" using Suc.prems nt(2) by (simp_all add: eng_ok_world)
  have sc1: "same_conns fds e ?e1" using nt(2) by (simp add: same_conns_def)
  show ?case
  proof (cases "nt = None \<or> is_end (the nt)")
    case True
    with nt(1) ok1(1) sc1 show ?thesis by (cases nt) (auto simp: Let_def launch_post_def)
  next
    case False
    then obtain t where t: "nt = Some t" "\<not> is_end t" by auto
    obtain ret s err e2 l where c: "create_socket E t (?e1\<lparr>nlaunched := nlaunched ?e1 + 1\<rparr>) = Inr ((ret, s, err), e2)"
      "eng_ok fds adm cap {} e2" "launch_post fds (Launched s t) ?e1 e2"
      using create_socket_ok [OF ok1, of t] by (auto simp: launch_post_def)
    show ?thesis
    proof (cases "ret = 0 \<or> err = EINPROGRESS")
      case True
      have "launch_one (Suc n) E e = Inr (Launched s t, e2)" using nt(1) t c(1) True by auto
      with c(2) same_conns_launch [OF sc1 _ c(3)] show ?thesis by (simp del: launch_one.simps)
    next
      case nz: False
      from failed_connect [OF ok1 c(1)] obtain e3 where
        e3: "socket_finished E s err e2 = Inr e3" "eng_ok fds adm cap {} e3" "same_conns fds ?e1 e3"
          "avail_socks e3 = avail_socks e" by auto
      have "launch_one (Suc n) E e = launch_one n E e3" using nt(1) t c(1) nz e3(1) by auto
      moreover have "same_conns fds e e3" using sc1 e3(3) by (simp add: same_conns_def)
      ultimately show ?thesis
        using Suc.IH [OF e3(2)] Suc.prems(2) e3(4) by (auto simp del: launch_one.simps dest: same_conns_launch)
    qed
  qed
qed simp

lemma watch_new_ok:
  assumes ok: "eng_ok fds adm cap {} e" and s: "smap_find (lvl4_sms e) s = Some l" and st: "fds (world e) s = Some (None, 0)"
  shows "eng_ok fds adm cap {} (add_connecting_socket E s e)"
proof -
  have c: "conn_ok adm l (Some (None, 0))" using conn_ok_of [OF ok s] st by simp
  have F: "fds (os_epoll_add (kernel E) s EPOLLOUT (world e)) = (fds (world e))(s \<mapsto> (Some EPOLLOUT, 0))"
    using st by (simp add: epoll_add_law)
  have "book_ok adm cap {} (fds (os_epoll_add (kernel E) s EPOLLOUT (world e))) (lvl4_sms e) (sockets_targets e)
      (avail_socks e) (nlaunched e) (ndone e)"
  proof (rule book_ok_fds [where s = s])
    show "book_ok adm cap {} (fds (world e)) (lvl4_sms e) (sockets_targets e) (avail_socks e) (nlaunched e) (ndone e)"
      using ok by (simp add: eng_ok_def)
  qed (use s c in \<open>auto simp: F conn_ok_def\<close>)
  with ok show ?thesis by (simp add: eng_ok_def add_connecting_socket_def)
qed

text \<open>What follows a started connection in \<open>process_free_socks\<close>: the host is set up, the socket watched.\<close>

lemma launched_step:
  assumes ok: "eng_ok fds adm cap {} e1" and L: "launch_post fds (Launched s t) e e1" and i: "Suc i \<le> unat (avail_socks e)"
  obtains h hs h' w' e4 where "get_host_sm E (ipv4 t) e1 = (h, e1\<lparr>hosts_sms := hs\<rparr>)"
    "ts_init_host_sm E t (h, world e1) = (h', w')" "fds w' = fds (world e1)"
    "e4 = add_connecting_socket E s (put_host_sm (ipv4 t) h' (e1\<lparr>hosts_sms := hs, world := w'\<rparr>))"
    "eng_ok fds adm cap {} e4" "i \<le> unat (avail_socks e4)"
proof -
  obtain l where l: "smap_find (lvl4_sms e1) s = Some l" "fds (world e1) s = Some (None, 0)"
    "avail_socks e1 = avail_socks e - 1" using L by (auto simp: launch_post_def)
  obtain h hs where h: "get_host_sm E (ipv4 t) e1 = (h, e1\<lparr>hosts_sms := hs\<rparr>)" using get_host_frame by blast
  obtain h' w' where w': "ts_init_host_sm E t (h, world e1) = (h', w')" by fastforce
  have f: "fds w' = fds (world e1)" using target_set_law(1) [of t h "world e1"] w' by simp
  let ?e3 = "put_host_sm (ipv4 t) h' (e1\<lparr>hosts_sms := hs, world := w'\<rparr>)"
  have "eng_ok fds adm cap {} (e1\<lparr>hosts_sms := hs, world := w'\<rparr>)"
    using eng_ok_world [of w' "e1\<lparr>hosts_sms := hs\<rparr>"] ok f by simp
  then have "eng_ok fds adm cap {} ?e3" by simp
  then have ok4: "eng_ok fds adm cap {} (add_connecting_socket E s ?e3)"
    by (rule watch_new_ok) (use l f in \<open>simp_all add: put_host_sm_def\<close>)
  have "unat (avail_socks e - 1) = unat (avail_socks e) - 1"
    using i by (simp add: unat_sub word_le_nat_alt)
  then have "i \<le> unat (avail_socks (add_connecting_socket E s ?e3))"
    using i l(3) by (simp add: add_connecting_socket_def put_host_sm_def)
  with that [OF h w' f refl ok4] show thesis .
qed

lemma launch_sockets_ok:
  "eng_ok fds adm cap {} e \<Longrightarrow> i \<le> unat (avail_socks e) \<Longrightarrow>
     launch_sockets lf E i e = Inl Out_of_fuel \<or>
     (\<exists>b e'. launch_sockets lf E i e = Inr (b, e') \<and> eng_ok fds adm cap {} e')"
proof (induction i arbitrary: e)
  case (Suc i)
  then have av: "avail_socks e > 0" by (simp add: word_less_nat_alt)
  from launch_one_ok [OF Suc.prems(1) av, of lf] show ?case
  proof (elim disjE exE conjE)
    fix r e1
    assume r: "launch_one lf E e = Inr (r, e1)" and ok1: "eng_ok fds adm cap {} e1"
      and L: "launch_post fds r e e1"
    show ?case
    proof (cases r)
      case (Launched s t)
      obtain h hs h' w' e4 where st: "get_host_sm E (ipv4 t) e1 = (h, e1\<lparr>hosts_sms := hs\<rparr>)"
        "ts_init_host_sm E t (h, world e1) = (h', w')" "fds w' = fds (world e1)"
        "e4 = add_connecting_socket E s (put_host_sm (ipv4 t) h' (e1\<lparr>hosts_sms := hs, world := w'\<rparr>))"
        "eng_ok fds adm cap {} e4" "i \<le> unat (avail_socks e4)"
        by (rule launched_step [OF ok1 L [unfolded Launched] Suc.prems(2)])
      from Suc.IH [OF st(5,6)] show ?thesis using r Launched st(1,2,4) by simp
    qed (use r ok1 in auto)
  qed auto
qed auto

lemma free_socks_ok:
  "eng_ok fds adm cap {} e \<Longrightarrow> process_free_socks lf E e = Inl Out_of_fuel \<or>
     (\<exists>b e'. process_free_socks lf E e = Inr (b, e') \<and> eng_ok fds adm cap {} e')"
  unfolding process_free_socks_def by (rule launch_sockets_ok) simp_all

section \<open>The main loop\<close>

lemma save_ok:
  assumes "eng_ok fds adm cap {} e"
  shows "\<exists>b e'. should_save_state E e = Inr (b, e') \<and> eng_ok fds adm cap {} e' \<and> same_conns fds e e'"
  using assms by (auto simp: should_save_state_def eng_ok_def same_conns_def Let_def split: option.splits)

lemma save_state_ok:
  assumes "eng_ok fds adm cap {} e"
  shows "\<exists>e'. save_state E file e = Inr e' \<and> eng_ok fds adm cap {} e' \<and> same_conns fds e e'"
proof -
  obtain w' where "ts_save_state E file (world e) = Inr w'" "fds w' = fds (world e)" using save_law by blast
  with assms show ?thesis by (auto simp: save_state_def eng_ok_def same_conns_def)
qed

lemma status_ok:
  assumes "eng_ok fds adm cap {} e"
  shows "eng_ok fds adm cap {} (snd (should_call_status_display E e))
    \<and> same_conns fds e (snd (should_call_status_display E e))"
  using assms by (auto simp: should_call_status_display_def eng_ok_def same_conns_def Let_def)

lemma report_ok:
  assumes ok: "eng_ok fds adm cap {} e3"
  shows "\<exists>e'. report_and_save E e3 = Inr e' \<and> eng_ok fds adm cap {} e' \<and> same_conns fds e3 e'"
proof -
  obtain d e4 where d: "should_call_status_display E e3 = (d, e4)" by fastforce
  with status_ok [OF ok] have ok4: "eng_ok fds adm cap {} e4" "same_conns fds e3 e4" by simp_all
  have "\<exists>e5. (case callback_status e4 of
      Some f \<Rightarrow> if d then bind_res (call_status E f (ucast (nlaunched e4)) (ucast (ndone e4)) (world e4)) (\<lambda>w'. Inr (e4\<lparr>world := w'\<rparr>))
        else Inr e4
    | None \<Rightarrow> Inr e4) = Inr e5 \<and> eng_ok fds adm cap {} e5 \<and> same_conns fds e4 e5" (is "\<exists>e5. ?st = Inr e5 \<and> _ e5")
  proof (cases "callback_status e4")
    case (Some f)
    obtain w' where "call_status E f (ucast (nlaunched e4)) (ucast (ndone e4)) (world e4) = Inr w'" "fds w' = fds (world e4)"
      using callback_law(2) by blast
    with Some ok4(1) show ?thesis by (cases d) (simp_all add: eng_ok_world same_conns_def)
  qed (use ok4(1) in \<open>simp add: same_conns_def\<close>)
  then obtain e5 where e5: "?st = Inr e5" "eng_ok fds adm cap {} e5" "same_conns fds e4 e5" by blast
  from save_ok [OF e5(2)] obtain sv e6 where e6: "should_save_state E e5 = Inr (sv, e6)" "eng_ok fds adm cap {} e6"
    "same_conns fds e5 e6" by blast
  from save_state_ok [OF e6(2), of "file_autosave e6"] obtain e7 where e7: "save_state E (file_autosave e6) e6 = Inr e7"
    "eng_ok fds adm cap {} e7" "same_conns fds e6 e7" by blast
  show ?thesis using d ok4(2) e5 e6 e7
    by (cases sv) (auto simp: report_and_save_def same_conns_def)
qed

lemma round_ok:
  assumes "eng_ok fds adm cap {} e"
  shows "scan_round pf lf E e = Inl Out_of_fuel \<or>
    (\<exists>stop e'. scan_round pf lf E e = Inr (stop, e') \<and> eng_ok fds adm cap {} e')"
proof -
  obtain n e1 where e1: "process_events pf E e = Inr (n, e1)" "eng_ok fds adm cap {} e1"
    using events_ok [OF assms] by blast
  obtain v e2 where e2: "process_dirty_and_timeouts pf E e1 = Inr (v, e2)" "eng_ok fds adm cap {} e2"
    using dirty_and_timeouts_ok [OF e1(2)] by blast
  from free_socks_ok [OF e2(2), of lf] show ?thesis
  proof (elim disjE exE conjE)
    fix b e3 assume e3: "process_free_socks lf E e2 = Inr (b, e3)" "eng_ok fds adm cap {} e3"
    with report_ok [OF e3(2)] e1(1) e2(1) show ?thesis by (auto simp: scan_round_def)
  qed (use e1 e2 in \<open>auto simp: scan_round_def\<close>)
qed

lemma loop_ok:
  "eng_ok fds adm cap {} e \<Longrightarrow> scan_loop n pf lf E e = Inl Out_of_fuel \<or>
     (\<exists>e'. scan_loop n pf lf E e = Inr e' \<and> eng_ok fds adm cap {} e')"
proof (induction n arbitrary: e)
  case (Suc n)
  from round_ok [OF Suc.prems, of lf] show ?case
  proof (elim disjE exE conjE)
    fix stop e1 assume "scan_round pf lf E e = Inr (stop, e1)" "eng_ok fds adm cap {} e1"
    with Suc.IH [of e1] show ?case by (cases stop) simp_all
  qed simp
qed simp

lemma start_ok:
  assumes ok: "eng_ok fds adm cap {} e" and fresh: "lvl4_sms e = []"
  shows "eng_ok fds adm cap {}
    (e\<lparr>world := os_epoll_create (kernel E) (world e), nlaunched := 0, ndone := 0, last_time_status_display := 0\<rparr>)"
proof -
  have "book_ok adm cap {} (fds (world e)) (lvl4_sms e) (sockets_targets e) (avail_socks e) 0 0"
    using book_okD [OF conjunct1 [OF ok [unfolded eng_ok_def]]] fresh by (intro book_okI) simp_all
  with ok show ?thesis by (simp add: eng_ok_def epoll_create_law)
qed

lemma scan_safe:
  assumes ok: "eng_ok fds adm cap {} e" and fresh: "lvl4_sms e = []"
  shows "do_async_scan sf pf lf E e = Inl Out_of_fuel \<or>
    (\<exists>e'. do_async_scan sf pf lf E e = Inr e' \<and> eng_ok fds adm cap {} e')"
  using free_socks_ok [OF start_ok [OF ok fresh], of lf]
proof (elim disjE exE conjE)
  fix b e'
  assume "process_free_socks lf E (e\<lparr>world := os_epoll_create (kernel E) (world e), nlaunched := 0, ndone := 0,
      last_time_status_display := 0\<rparr>) = Inr (b, e')" "eng_ok fds adm cap {} e'"
  with loop_ok [of cap e' sf lf] show ?thesis by (simp add: do_async_scan_def Let_def)
qed (simp add: do_async_scan_def Let_def)

end

end
