(* ===== verification/Engine_Observer.thy ===== *)
theory Engine_Observer
  imports Engine_Safety
begin

text \<open>
  A quantity of the world that only a few steps of the engine can change. The locale \<open>observer\<close> fixes
  such a quantity and states which system calls and callbacks leave it alone; its lemmas lift this to
  the engine's operations. \<open>Engine_Liveness\<close> uses it for the counters its termination proof needs,
  \<open>Engine_Account\<close> for the targets to come and the targets reported.
\<close>

locale observer =
  fixes E :: "('f, 'pl, 'w) env" and cnt :: "'w \<Rightarrow> 'g"
  assumes socket_cnt: "os_socket (kernel E) ty pr w = (r, w') \<Longrightarrow> cnt w' = cnt w"
    and connect_cnt: "os_connect (kernel E) s a w = (r, w') \<Longrightarrow> cnt w' = cnt w"
    and os_cnt: "cnt (os_close (kernel E) s w) = cnt w" "cnt (os_epoll_add (kernel E) s m w) = cnt w"
      "cnt (os_epoll_del (kernel E) s w) = cnt w" "cnt (os_epoll_create (kernel E) w) = cnt w"
    and fionread_cnt: "os_fionread (kernel E) s w = (k, w') \<Longrightarrow> cnt w' = cnt w"
    and so_error_cnt: "os_so_error (kernel E) s w = (err, w') \<Longrightarrow> cnt w' = cnt w"
    and read_cnt: "os_read (kernel E) s k w = (bs, w') \<Longrightarrow> cnt w' = cnt w"
    and finished_cnt: "ts_target_finished E t (h, w) = Inr (d, h', w') \<Longrightarrow> cnt w' = cnt w"
    and init_host_cnt: "ts_init_host_sm E t (h, w) = (h', w') \<Longrightarrow> cnt w' = cnt w"
    and status_cnt: "call_status E f nl nd w = Inr w' \<Longrightarrow> cnt w' = cnt w"
    and save_cnt: "ts_save_state E file w = Inr w' \<Longrightarrow> cnt w' = cnt w"
    and watch_cnt: "call_watch_timeout E f ct w = Inr (go, w') \<Longrightarrow> cnt w' = cnt w"
    and timeout_cnt: "call_timeout_target E f t w = Inr (k, w') \<Longrightarrow> cnt w' = cnt w"
    and data_cnt: "act_data (actions_of E) f ct off sz (l, h, w) = Inr (ret, l', h', w') \<Longrightarrow> cnt w' = cnt w"
    and connected_cnt: "act_connect (actions_of E) f ct (l, h, w) = Inr (ret, l', h', w') \<Longrightarrow> cnt w' = cnt w"
    and python_cnt: "act_python (actions_of E) f ct p (l, h, w) = Inr (c, l', h', w') \<Longrightarrow> cnt w' = cnt w"
begin

lemma round_cnt:
  "trigger_process_buffer (actions_of E) ct p (l, h, w) = Inr (c, l', h', w') \<Longrightarrow> cnt w' = cnt w"
  by (auto simp: trigger_process_buffer_def size_trigger_process_def char_trigger_process_def trigger_finish_def
      bind_res_eq_Inr split: trigger.splits option.splits if_splits dest: data_cnt python_cnt)

lemma loop_cnt:
  "process_loop n (actions_of E) ct p (l, h, w) = Inr (r, l', h', w') \<Longrightarrow> cnt w' = cnt w"
proof (induction n arbitrary: l h w p)
  case (Suc n)
  then show ?case by (auto simp: bind_res_eq_Inr split: if_splits dest!: round_cnt)
qed simp

lemma data_loop_cnt:
  "process_lvl4_data n (kernel E) (actions_of E) ct k (l, h, w) = Inr (r, l', h', w') \<Longrightarrow> cnt w' = cnt w"
  by (auto simp: process_lvl4_data_def Let_def bind_res_eq_Inr
      split: prod.split_asm option.split_asm list.split_asm dest!: loop_cnt read_cnt)

text \<open>The same laws on projections, as rewrite rules for the engine's nested pairs.\<close>

lemma snd_cnt [simp]:
  "cnt (snd (os_socket (kernel E) ty pr w)) = cnt w" "cnt (snd (os_connect (kernel E) s a w)) = cnt w"
  "cnt (snd (os_fionread (kernel E) s w)) = cnt w" "cnt (snd (os_so_error (kernel E) s w)) = cnt w"
  "cnt (snd (new_socket E ty pr w)) = cnt w"
  using socket_cnt [OF prod.collapse [symmetric]] connect_cnt [OF prod.collapse [symmetric]]
    fionread_cnt [OF prod.collapse [symmetric]] so_error_cnt [OF prod.collapse [symmetric]]
  by (auto simp: new_socket_def split_beta)

lemma res_cnt:
  "ts_target_finished E t c = Inr x \<Longrightarrow> cnt (snd (snd x)) = cnt (snd c)"
  "on_connect (actions_of E) ct d = Inr y \<Longrightarrow> cnt (snd (snd (snd y))) = cnt (snd (snd d))"
  "process_lvl4_data n (kernel E) (actions_of E) ct k d = Inr y \<Longrightarrow> cnt (snd (snd (snd y))) = cnt (snd (snd d))"
  "process_buffer n (actions_of E) ct d = Inr y \<Longrightarrow> cnt (snd (snd (snd y))) = cnt (snd (snd d))"
  by (cases c; cases x; cases d; cases y;
      auto simp: on_connect_def process_buffer_def split: option.splits
        dest: finished_cnt connected_cnt data_loop_cnt loop_cnt)+

lemma world_simps [simp]:
  "world (put_host_sm ip h e) = world e" "world (put_lvl4_sm s l e) = world e" "world (del_host_sm t e) = world e"
  "world (snd (get_host_sm E ip e)) = world e" "world (snd (get_lvl4_sm E s e)) = world e"
  "cnt (world (free_socket E s e)) = cnt (world e)"
  by (simp_all add: put_host_sm_def put_lvl4_sm_def del_host_sm_def
      get_host_sm_def get_lvl4_sm_def free_socket_def Let_def remove_connected_socket_def
      remove_connecting_socket_def del_lvl4_sm_def os_cnt split: option.splits)

lemma create_socket_cnt:
  "create_socket E t e = Inr x \<Longrightarrow> cnt (world (snd x)) = cnt (world e)"
  by (auto simp: create_socket_def new_lvl4_sm_def Let_def bind_res_eq_Inr split_beta split: if_splits)

lemma timeout_of_cnt: "timeout_of_target E e t w = Inr (k, w') \<Longrightarrow> cnt w' = cnt w"
  by (auto simp: timeout_of_target_def split: option.splits dest: timeout_cnt)

lemma watch_timedout_cnt: "has_watch_timedout E e ts s l w = Inr (b, l', w') \<Longrightarrow> cnt w' = cnt w"
  by (auto simp: has_watch_timedout_def bind_res_eq_Inr split: option.splits if_splits dest: watch_cnt)

lemma scan_cnt:
  "scan_lvl4_sms E e ts ls w = Inr (ls', ps, tos, n, w') \<Longrightarrow> cnt w' = cnt w"
proof (induction ls arbitrary: w ls' ps tos n w')
  case (Cons x ls)
  obtain s l where x: "x = (s, l)" by (cases x)
  show ?case
  proof (cases "sm_valid l")
    case False
    with Cons show ?thesis by (auto simp: x bind_res_eq_Inr)
  next
    case True
    from Cons.prems [unfolded x] True show ?thesis
    proof (cases rule: scan_validE)
      case (1 tmo w1 b l2 w2 ls1 ps1 tos1 n1)
      then have "cnt w2 = cnt w1" by (auto split: if_splits dest: watch_timedout_cnt)
      with timeout_of_cnt [OF 1(1)] Cons.IH [OF 1(3)] show ?thesis by simp
    qed
  qed
qed simp

lemma report_cnt: "report_and_save E e = Inr e' \<Longrightarrow> cnt (world e') = cnt (world e)"
  by (auto simp: report_and_save_def should_call_status_display_def should_save_state_def save_state_def Let_def
      bind_res_eq_Inr split: if_splits option.splits dest!: save_cnt status_cnt)

end

text \<open>What is computed from an observed quantity is observed as well.\<close>

lemma observer_map:
  assumes "observer E g"
  shows "observer E (\<lambda>w. h (g w))"
  using assms unfolding observer_def by (elim conjE) (intro conjI; metis)

end
