(* ===== verification/Engine_Liveness.thy ===== *)
theory Engine_Liveness
  imports Engine_Observer
begin

text \<open>
  A scan over a finite target set comes to its end. The locale \<open>live_env\<close> adds to the laws of
  \<open>engine_env\<close> what this rests on: the target set hands out finitely many targets (\<open>left\<close> counts the
  ones to come) and does not block, \<open>epoll_wait\<close> does not fail, the clock does not stand still
  while the engine loops (\<open>tick\<close> counts the waits, of which at most \<open>rate\<close> happen in a second),
  and nothing else changes these two counters. Every round of the main loop then launches
  targets, or acts on an event, or ends a connection by its timeout, or gets nearer to a timeout.
\<close>

section \<open>What termination rests on\<close>

text \<open>The two counters as one value, which most operations leave alone.\<close>

locale live_env = engine_env adm E fds pf + observer E cnt
  for adm :: "'f \<Rightarrow> u32 \<Rightarrow> bool" and E :: "('f, 'pl, 'w) env" and fds pf and cnt :: "'w \<Rightarrow> nat \<times> nat" +
  fixes rate :: nat
  assumes rate: "0 < rate"
    and clock_law: "int (snd (cnt w)) \<le> int rate * os_time (kernel E) w"
    and wait_cnt: "os_epoll_wait (kernel E) n w = (evs, w') \<Longrightarrow> evs \<noteq> None \<and> cnt w' = (fst (cnt w), snd (cnt w) + 1)"
    and next_cnt: "ts_next_target E w = Inr (nt, w') \<Longrightarrow> snd (cnt w') = snd (cnt w)
      \<and> (\<exists>t. nt = Some t \<and> (if is_end t then fst (cnt w') \<le> fst (cnt w) else fst (cnt w') < fst (cnt w)))"
    and finish_cnt: "call_finish E f t xs i w = Inr w' \<Longrightarrow> cnt w' = cnt w"
begin

section \<open>Steps that leave the counters alone\<close>

lemma finish_callback_cnt: "call_callback_finish E t b err e = Inr e' \<Longrightarrow> cnt (world e') = cnt (world e)"
  by (auto simp: call_callback_finish_def bind_res_eq_Inr split: option.splits dest: finish_cnt)

lemma socket_finished_cnt:
  "socket_finished E s err e = Inr e' \<Longrightarrow> cnt (world e') = cnt (world e)"
  by (auto simp: socket_finished_def bind_res_eq_Inr Let_def split_beta dest!: res_cnt finish_callback_cnt)

lemma reconnect_cnt:
  "reconnect E s t l e = Inr e' \<Longrightarrow> cnt (world e') = cnt (world e)"
  by (auto simp: reconnect_def remove_connected_socket_def add_connecting_socket_def Let_def bind_res_eq_Inr os_cnt
      split_beta dest!: create_socket_cnt)

lemma connecting_cnt:
  "process_connecting_ready E s e = Inr e' \<Longrightarrow> cnt (world e') = cnt (world e)"
  by (auto simp: process_connecting_ready_def add_connected_socket_def remove_connecting_socket_def
      Let_def bind_res_eq_Inr os_cnt split_beta split: if_splits dest!: socket_finished_cnt res_cnt)

lemma connected_ready_cnt:
  "process_connected_ready n E s e = Inr e' \<Longrightarrow> cnt (world e') = cnt (world e)"
  by (auto simp: process_connected_ready_def Let_def bind_res_eq_Inr split_beta split: if_splits
      dest!: socket_finished_cnt reconnect_cnt res_cnt finish_callback_cnt)

lemma event_list_cnt:
  "process_event_list n E evs e = Inr e' \<Longrightarrow> cnt (world e') = cnt (world e)"
proof (induction evs arbitrary: e)
  case (Cons ev evs)
  then show ?case
    by (auto simp: process_event_def bind_res_eq_Inr split_beta split: if_splits
        dest!: connecting_cnt connected_ready_cnt)
qed simp

lemma dirty_cnt: "process_dirty n E ps e = Inr e' \<Longrightarrow> cnt (world e') = cnt (world e)"
proof (induction ps arbitrary: e)
  case (Cons s ps)
  then show ?case
    by (auto simp: bind_res_eq_Inr Let_def split_beta split: if_splits dest!: res_cnt socket_finished_cnt)
qed simp

lemma finish_timeouts_cnt: "finish_timeouts E tos e = Inr e' \<Longrightarrow> cnt (world e') = cnt (world e)"
proof (induction tos arbitrary: e)
  case (Cons s tos)
  then show ?case by (auto simp: bind_res_eq_Inr dest!: socket_finished_cnt)
qed simp

lemma dirty_and_timeouts_cnt:
  assumes "process_dirty_and_timeouts n E e = Inr (k, e')"
  shows "cnt (world e') = cnt (world e)"
proof -
  obtain ls ps tos m w where r: "scan_lvl4_sms E e (timestamp (kernel E) (world e)) (lvl4_sms e) (world e) = Inr (ls, ps, tos, m, w)"
    using scan_ok [of e "timestamp (kernel E) (world e)" "lvl4_sms e" "world e"] by blast
  with assms show ?thesis
    by (auto simp: process_dirty_and_timeouts_def Let_def bind_res_eq_Inr
        scan_cnt [OF r] dest!: dirty_cnt finish_timeouts_cnt)
qed

section \<open>Launching ends\<close>

text \<open>One launched connection weighs less than one target to come.\<close>

definition mass :: "('f, 'pl, 'w) engine \<Rightarrow> nat" where
  "mass e = fst (cnt (world e)) * (2 ^ 30 + 3) + weight fds e"

lemma same_conns_weight: "same_conns fds e e' \<Longrightarrow> weight fds e' = weight fds e \<and> ts_of e' = ts_of e"
  by (intro conjI ext) (simp_all add: same_conns_def weight_def ts_of_def)

lemma launched_weight:
  assumes "launch_post fds (Launched s t) e e'"
  shows "weight fds e' = weight fds e + (2 ^ 30 + 2)"
proof -
  let ?D = "dom (smap_find (lvl4_sms e))" and ?D' = "dom (smap_find (lvl4_sms e'))"
  have so: "same_others fds s e e'" and s: "s \<notin> ?D" "s \<in> ?D'" "fds (world e') s = Some (None, 0)"
    using assms by (auto simp: launch_post_def)
  have D: "?D' - {s} = ?D" using so s by (auto simp: same_others_def dom_def)
  have "(\<Sum>j\<in>?D' - {s}. gauge (fds (world e') j)) = weight fds e"
    unfolding D weight_def using so s(1) by (intro sum.cong) (auto simp: same_others_def)
  moreover have "weight fds e' = gauge (fds (world e') s) + (\<Sum>j\<in>?D' - {s}. gauge (fds (world e') j))"
    unfolding weight_def using s(2) by (intro sum.remove finite_dom_smap)
  ultimately show ?thesis using s(3) by (simp add: gauge_def)
qed

text \<open>
  With more fuel than targets to come, \<open>launch_one\<close> returns: at the end of the targets, or with a
  connection for which a target was used.
\<close>

lemma launch_one_live:
  "eng_ok fds adm cap {} e \<Longrightarrow> avail_socks e > 0 \<Longrightarrow> fst (cnt (world e)) < n \<Longrightarrow>
     \<exists>r e'. launch_one n E e = Inr (r, e') \<and> eng_ok fds adm cap {} e' \<and> launch_post fds r e e'
       \<and> snd (cnt (world e')) = snd (cnt (world e)) \<and> fst (cnt (world e')) \<le> fst (cnt (world e)) \<and> r \<noteq> Would_block
       \<and> (r \<noteq> End_of_targets \<longrightarrow> fst (cnt (world e')) < fst (cnt (world e)))"
proof (induction n arbitrary: e)
  case (Suc n)
  obtain nt w1 where nt: "ts_next_target E (world e) = Inr (nt, w1)" "fds w1 = fds (world e)" using next_law by blast
  from next_cnt [OF nt(1)] obtain t where t: "nt = Some t" "snd (cnt w1) = snd (cnt (world e))"
    "if is_end t then fst (cnt w1) \<le> fst (cnt (world e)) else fst (cnt w1) < fst (cnt (world e))" by blast
  let ?e1 = "e\<lparr>world := w1\<rparr>"
  have ok1: "eng_ok fds adm cap {} ?e1" "avail_socks ?e1 > 0" using Suc.prems nt(2) by (simp_all add: eng_ok_world)
  have sc1: "same_conns fds e ?e1" using nt(2) by (simp add: same_conns_def)
  show ?case
  proof (cases "is_end t")
    case True
    with nt(1) t ok1(1) sc1 show ?thesis by (auto simp: launch_post_def)
  next
    case ne: False
    obtain ret s err e2 where c: "create_socket E t (?e1\<lparr>nlaunched := nlaunched ?e1 + 1\<rparr>) = Inr ((ret, s, err), e2)"
      "eng_ok fds adm cap {} e2" "launch_post fds (Launched s t) ?e1 e2"
      using create_socket_ok [OF ok1, of t] by (auto simp: launch_post_def)
    have cn: "cnt (world e2) = cnt w1" using create_socket_cnt [OF c(1)] by simp
    show ?thesis
    proof (cases "ret = 0 \<or> err = EINPROGRESS")
      case True
      have "launch_one (Suc n) E e = Inr (Launched s t, e2)" using nt(1) t ne c(1) True by auto
      with c(2) same_conns_launch [OF sc1 _ c(3)] cn t ne show ?thesis by (simp del: launch_one.simps)
    next
      case nz: False
      from failed_connect [OF ok1 c(1)] obtain e3 where
        e3: "socket_finished E s err e2 = Inr e3" "eng_ok fds adm cap {} e3" "same_conns fds ?e1 e3"
          "avail_socks e3 = avail_socks e" by auto
      have cn3: "cnt (world e3) = cnt w1" using socket_finished_cnt [OF e3(1)] cn by simp
      have sc3: "same_conns fds e e3" using sc1 e3(3) by (simp add: same_conns_def)
      have eq: "launch_one (Suc n) E e = launch_one n E e3" using nt(1) t ne c(1) nz e3(1) by auto
      have "fst (cnt (world e3)) < n" using cn3 t(3) ne Suc.prems(3) by simp
      with Suc.IH [OF e3(2)] Suc.prems(2) e3(4) obtain r e' where
        "launch_one n E e3 = Inr (r, e')" "eng_ok fds adm cap {} e'" "launch_post fds r e3 e'"
        "snd (cnt (world e')) = snd (cnt (world e3))" "fst (cnt (world e')) \<le> fst (cnt (world e3))" "r \<noteq> Would_block"
        by auto
      with eq cn3 t(2,3) ne same_conns_launch [OF sc3 e3(4)] show ?thesis by (auto simp del: launch_one.simps)
    qed
  qed
qed simp

lemma watched_weight:
  assumes "fds (world e) s = Some (None, 0)"
  shows "weight fds (add_connecting_socket E s e) = weight fds e"
  unfolding weight_def
proof (rule sum.cong)
  fix j show "gauge (fds (world (add_connecting_socket E s e)) j) = gauge (fds (world e) j)"
    using assms by (simp add: add_connecting_socket_def epoll_add_law gauge_def EPOLLIN_def EPOLLOUT_def)
qed (simp add: add_connecting_socket_def)

definition nearer :: "('f, 'pl, 'w) engine \<Rightarrow> ('f, 'pl, 'w) engine \<Rightarrow> bool" where
  "nearer e e' \<longleftrightarrow> fst (cnt (world e')) \<le> fst (cnt (world e))
     \<and> (mass e' < mass e \<or> mass e' = mass e \<and> ts_of e' = ts_of e)"

lemma nearer_trans: "nearer e e1 \<Longrightarrow> nearer e1 e2 \<Longrightarrow> nearer e e2"
  by (auto simp: nearer_def)

lemma nearer_mass: "nearer e e' \<Longrightarrow> mass e' \<le> mass e"
  by (auto simp: nearer_def)

lemma nearer_same: "nearer e e' \<Longrightarrow> mass e' = mass e \<Longrightarrow> ts_of e' = ts_of e"
  by (simp add: nearer_def)

lemma same_conns_nearer:
  "same_conns fds e e' \<Longrightarrow> fst (cnt (world e')) \<le> fst (cnt (world e)) \<Longrightarrow> nearer e e'"
  by (auto simp: nearer_def mass_def dest!: same_conns_weight)

lemma launch_sockets_live:
  "eng_ok fds adm cap {} e \<Longrightarrow> i \<le> unat (avail_socks e) \<Longrightarrow> fst (cnt (world e)) < lf \<Longrightarrow>
     \<exists>b e'. launch_sockets lf E i e = Inr (b, e') \<and> eng_ok fds adm cap {} e' \<and> nearer e e'
       \<and> snd (cnt (world e')) = snd (cnt (world e)) \<and> (0 < i \<and> mass e' = mass e \<longrightarrow> \<not> b)"
proof (induction i arbitrary: e)
  case (Suc i)
  then have av: "avail_socks e > 0" by (simp add: word_less_nat_alt)
  from launch_one_live [OF Suc.prems(1) av Suc.prems(3)] obtain r e1 where
    r: "launch_one lf E e = Inr (r, e1)" "eng_ok fds adm cap {} e1" "launch_post fds r e e1"
      "snd (cnt (world e1)) = snd (cnt (world e))" "fst (cnt (world e1)) \<le> fst (cnt (world e))" "r \<noteq> Would_block"
      "r \<noteq> End_of_targets \<longrightarrow> fst (cnt (world e1)) < fst (cnt (world e))" by blast
  show ?case
  proof (cases r)
    case (Launched s t)
    note post = r(3) [unfolded Launched]
    obtain h hs h' w' e4 where st: "get_host_sm E (ipv4 t) e1 = (h, e1\<lparr>hosts_sms := hs\<rparr>)"
      "ts_init_host_sm E t (h, world e1) = (h', w')" "fds w' = fds (world e1)"
      "e4 = add_connecting_socket E s (put_host_sm (ipv4 t) h' (e1\<lparr>hosts_sms := hs, world := w'\<rparr>))"
      "eng_ok fds adm cap {} e4" "i \<le> unat (avail_socks e4)"
      by (rule launched_step [OF r(2) post Suc.prems(2)])
    have fd: "fds (world e1) s = Some (None, 0)" using post by (auto simp: launch_post_def)
    let ?e3 = "put_host_sm (ipv4 t) h' (e1\<lparr>hosts_sms := hs, world := w'\<rparr>)"
    have "weight fds ?e3 = weight fds e1" using st(3) by (simp add: weight_def put_host_sm_def)
    then have "weight fds e4 = weight fds e + (2 ^ 30 + 2)"
      unfolding st(4) using launched_weight [OF post] watched_weight [of ?e3 s] fd st(3) by simp
    moreover have c4: "cnt (world e4) = cnt (world e1)"
      unfolding st(4) using init_host_cnt [OF st(2)] by (simp add: add_connecting_socket_def os_cnt)
    moreover have lt: "fst (cnt (world e1)) < fst (cnt (world e))" using r(7) Launched by simp
    then have "(fst (cnt (world e1)) + 1) * (2 ^ 30 + 3) \<le> fst (cnt (world e)) * (2 ^ 30 + 3)" by (intro mult_le_mono1) simp
    ultimately have m4: "mass e4 < mass e" unfolding mass_def by (simp add: algebra_simps)
    have "fst (cnt (world e4)) < lf" using c4 lt Suc.prems(3) by simp
    then obtain b e' where e': "launch_sockets lf E i e4 = Inr (b, e')" "eng_ok fds adm cap {} e'" "nearer e4 e'"
      "snd (cnt (world e')) = snd (cnt (world e4))" using Suc.IH [OF st(5,6)] by blast
    have "launch_sockets lf E (Suc i) e = Inr (b, e')" using r(1) Launched st(1,2,4) e'(1) by simp
    moreover have "nearer e e'" "mass e' \<noteq> mass e" using e'(3) m4 c4 lt by (auto simp: nearer_def)
    ultimately show ?thesis using e'(2,4) c4 r(4) by (simp del: launch_sockets.simps)
  next
    case End_of_targets
    with r same_conns_nearer [of e e1] show ?thesis by (auto simp: launch_post_def)
  qed (use r in simp)
qed (auto simp: nearer_def)

section \<open>A round gets nearer to the end\<close>

lemma events_live:
  assumes ok: "eng_ok fds adm cap {} e"
  shows "\<exists>n e'. process_events pf E e = Inr (n, e') \<and> eng_ok fds adm cap {} e' \<and> nearer e e'
    \<and> cnt (world e') = (fst (cnt (world e)), snd (cnt (world e)) + 1) \<and> (lvl4_sms e = [] \<longrightarrow> n = 0 \<and> lvl4_sms e' = [])"
proof -
  obtain n e' where e': "process_events pf E e = Inr (n, e')" "eng_ok fds adm cap {} e'" "advances fds e e'"
    using events_ok [OF ok] by blast
  obtain evs w1 where w: "os_epoll_wait (kernel E) MAX_EVENTS (world e) = (evs, w1)" by fastforce
  obtain es where es: "evs = Some es" and c1: "cnt w1 = (fst (cnt (world e)), snd (cnt (world e)) + 1)"
    using wait_cnt [OF w] by blast
  have l: "process_event_list pf E es (e\<lparr>world := w1\<rparr>) = Inr e'" "n = int (length es)"
    using e'(1) w es by (auto simp: process_events_def bind_res_eq_Inr)
  have c: "cnt (world e') = (fst (cnt (world e)), snd (cnt (world e)) + 1)" using event_list_cnt [OF l(1)] c1 by simp
  have "nearer e e'" using e'(3) c by (auto simp: nearer_def mass_def advances_def)
  moreover have "es = []" if "lvl4_sms e = []"
  proof (rule ccontr)
    assume "es \<noteq> []"
    then obtain s ev where "(s, ev) \<in> set es" by (cases es) auto
    then obtain m r where "fds (world e) s = Some (Some m, r)" using epoll_wait_law [OF w] es by fastforce
    with book_okD(7) [OF conjunct1 [OF ok [unfolded eng_ok_def]]] that show False by fastforce
  qed
  ultimately show ?thesis using e'(1,2) c l by auto
qed

lemma scan_no_timeout:
  "scan_lvl4_sms E e ts ls w = Inr (ls', ps, [], n, w') \<Longrightarrow> (s, l) \<in> set ls \<Longrightarrow> sm_valid l \<Longrightarrow> ts - sm_ts l < 2 ^ 32"
proof (induction ls arbitrary: w ls' ps n w')
  case (Cons x ls)
  obtain s' k where x: "x = (s', k)" by (cases x)
  show ?case
  proof (cases "sm_valid k")
    case False
    with Cons show ?thesis by (auto simp: x bind_res_eq_Inr)
  next
    case True
    from Cons.prems(1) [unfolded x] True show ?thesis
    proof (cases rule: scan_validE)
      case (1 tm w1 b l2 w2 ls1 ps1 tos1 n1)
      from 1(5) have nb: "\<not> b" "tos1 = []" by (auto split: if_splits)
      have "ts - sm_ts k < int (unat tm)" using 1(2) nb(1) by (auto split: if_splits)
      moreover have "int (unat tm) < 2 ^ 32" using unsigned_less [of tm] by simp
      ultimately have "ts - sm_ts k < 2 ^ 32" by linarith
      with Cons.IH [OF 1(3) [unfolded nb(2)]] Cons.prems(2,3) show ?thesis by (auto simp: x)
    qed
  qed
qed simp

text \<open>
  While a connection is open, \<open>togo\<close> bounds the number of rounds before its timeout: it depends on
  the newest time stamp and on the number of waits so far.
\<close>

definition togo :: "('f, 'pl, 'w) engine \<Rightarrow> nat" where
  "togo e = nat (int rate * (Max (ran (ts_of e)) + 2 ^ 32) - int (snd (cnt (world e))))"

lemma open_togo:
  assumes s: "ts_of e s = Some z" and now: "os_time (kernel E) (world e) - z < 2 ^ 32"
  shows "0 < togo e"
proof -
  let ?T = "os_time (kernel E) (world e)"
  have "finite (dom (ts_of e))" by (simp add: dom_ts_of [symmetric] finite_dom_smap)
  then have "z \<le> Max (ran (ts_of e))" using s by (intro Max_ge finite_ran) (auto simp: ran_def)
  then have "?T < Max (ran (ts_of e)) + 2 ^ 32" using now by linarith
  then have "int rate * ?T < int rate * (Max (ran (ts_of e)) + 2 ^ 32)" using rate by simp
  with clock_law [of "world e"] show ?thesis unfolding togo_def by linarith
qed

text \<open>
  The first two parts of a round, when they change nothing and some connection is open: the
  connection is nearer to its timeout.
\<close>

lemma idle_togo:
  assumes ok: "eng_ok fds adm cap {} e1" and sc: "scan_lvl4_sms E e1 (timestamp (kernel E) (world e1)) (lvl4_sms e1) (world e1)
      = Inr (ls, ps, [], v, w)" and ne: "lvl4_sms e1 \<noteq> []"
  shows "0 < togo e1"
proof -
  obtain s l0 where "(s, l0) \<in> set (lvl4_sms e1)" using ne by (cases "lvl4_sms e1") auto
  then have "s \<in> dom (smap_find (lvl4_sms e1))" unfolding smap_dom by force
  then obtain l where l: "smap_find (lvl4_sms e1) s = Some l" by blast
  then have "(s, l) \<in> set (lvl4_sms e1)" by (simp add: smap_find_def map_of_SomeD)
  moreover have "sm_valid l" using conn_ok_of [OF ok l] by (simp add: conn_ok_def calm_def)
  ultimately have "timestamp (kernel E) (world e1) - sm_ts l < 2 ^ 32" using scan_no_timeout [OF sc] by blast
  with open_togo [of e1 s "sm_ts l"] l show ?thesis by (simp add: ts_of_def timestamp_def)
qed

text \<open>A round with nothing to wait for: no event, no connection, and the end of the targets.\<close>

lemma empty_round:
  assumes ok: "eng_ok fds adm cap {} e2" and cap: "0 < cap" and e1: "lvl4_sms e1 = []"
    and sc: "scan_lvl4_sms E e1 ts (lvl4_sms e1) w1 = Inr (ls, ps, tos, v, w)"
    and ts: "ts_of e2 = ts_of e1" and b: "0 < unat (avail_socks e2) \<longrightarrow> \<not> b"
  shows "v = 0 \<and> \<not> b"
proof -
  have "dom (smap_find (lvl4_sms e2)) = dom (smap_find (lvl4_sms e1))" using ts by (rule ts_of_dom)
  then have "lvl4_sms e2 = []" using e1 by (simp add: smap_dom)
  then have "unat (avail_socks e2) = cap"
    using book_okD(4) [OF conjunct1 [OF ok [unfolded eng_ok_def]]] by simp
  with cap b sc e1 show ?thesis by simp
qed

lemma round_live:
  assumes ok: "eng_ok fds adm cap {} e" and cap: "0 < cap" and lf: "fst (cnt (world e)) < lf"
  shows "\<exists>stop e'. scan_round pf lf E e = Inr (stop, e') \<and> eng_ok fds adm cap {} e'
    \<and> fst (cnt (world e')) \<le> fst (cnt (world e))
    \<and> (stop \<or> mass e' < mass e \<or> mass e' = mass e \<and> togo e' < togo e)"
proof -
  obtain n e1 where e1: "process_events pf E e = Inr (n, e1)" "eng_ok fds adm cap {} e1" "nearer e e1"
    "cnt (world e1) = (fst (cnt (world e)), snd (cnt (world e)) + 1)" "lvl4_sms e = [] \<longrightarrow> n = 0 \<and> lvl4_sms e1 = []"
    using events_live [OF ok] by blast
  obtain v e2 tos ls ps w where e2: "process_dirty_and_timeouts pf E e1 = Inr (v, e2)" "eng_ok fds adm cap {} e2"
    "scan_lvl4_sms E e1 (timestamp (kernel E) (world e1)) (lvl4_sms e1) (world e1) = Inr (ls, ps, tos, v, w)"
    "\<forall>s. ts_of e2 s = (if s \<in> set tos then None else ts_of e1 s)"
    "if tos = [] then weight fds e2 = weight fds e1 else weight fds e2 < weight fds e1"
    using dirty_and_timeouts_ok [OF e1(2)] by blast
  have c2: "cnt (world e2) = cnt (world e1)" using dirty_and_timeouts_cnt [OF e2(1)] .
  have n2: "nearer e1 e2" "tos \<noteq> [] \<longrightarrow> mass e2 < mass e1"
    using e2(4,5) c2 by (auto simp: nearer_def mass_def fun_eq_iff split: if_splits)
  have "fst (cnt (world e2)) < lf" using c2 e1(4) lf by simp
  then obtain b e3 where e3: "process_free_socks lf E e2 = Inr (b, e3)" "eng_ok fds adm cap {} e3" "nearer e2 e3"
    "snd (cnt (world e3)) = snd (cnt (world e2))" "0 < unat (avail_socks e2) \<and> mass e3 = mass e2 \<longrightarrow> \<not> b"
    unfolding process_free_socks_def using launch_sockets_live [OF e2(2) order_refl] by blast
  obtain e4 where e4: "report_and_save E e3 = Inr e4" "eng_ok fds adm cap {} e4" "same_conns fds e3 e4"
    using report_ok [OF e3(2)] by blast
  have c4: "cnt (world e4) = cnt (world e3)" and n4: "nearer e3 e4"
    using report_cnt [OF e4(1)] same_conns_nearer [OF e4(3)] by simp_all
  have n3: "nearer e e3" "nearer e e4" using e1(3) n2(1) e3(3) n4 by (blast intro: nearer_trans)+
  show ?thesis
  proof (cases "n = 0 \<and> v = 0 \<and> \<not> b")
    case True
    then have "scan_round pf lf E e = Inr (True, e3)" using e1(1) e2(1) e3(1) by (simp add: scan_round_def)
    with e3(2) n3 show ?thesis by (auto simp: nearer_def)
  next
    case False
    then have r: "scan_round pf lf E e = Inr (False, e4)"
      using e1(1) e2(1) e3(1) e4(1) by (auto simp: scan_round_def)
    have "togo e4 < togo e" if same: "mass e4 = mass e"
    proof -
      note le = nearer_mass [OF e1(3)] nearer_mass [OF n2(1)] nearer_mass [OF e3(3)] nearer_mass [OF n4]
      have m: "mass e1 = mass e" "mass e2 = mass e1" "mass e3 = mass e2" using same le by linarith+
      have eq: "mass e2 = mass e1" "mass e3 = mass e2" "ts_of e1 = ts_of e" "ts_of e4 = ts_of e" "ts_of e2 = ts_of e1"
        using m nearer_same [OF e1(3) m(1)] nearer_same [OF n3(2) same] nearer_same [OF n2(1) m(2)] by simp_all
      have nt: "tos = []" using n2(2) eq(1) by auto
      have "lvl4_sms e1 \<noteq> []"
      proof
        assume empty: "lvl4_sms e1 = []"
        then have "lvl4_sms e = []" using ts_of_dom [OF eq(3)] by (simp add: smap_dom)
        with e1(5) empty_round [OF e2(2) cap empty e2(3) eq(5)] e3(5) eq(2) False show False by auto
      qed
      from idle_togo [OF e1(2) e2(3) [unfolded nt] this] show ?thesis
        using eq(3,4) e1(4) c2 e3(4) c4 unfolding togo_def by simp
    qed
    with r e4(2) n3(2) show ?thesis by (auto simp: nearer_def)
  qed
qed

section \<open>The scan ends\<close>

lemma loop_live:
  assumes "0 < cap"
  shows "eng_ok fds adm cap {} e \<Longrightarrow> fst (cnt (world e)) < lf \<Longrightarrow>
    \<exists>N. \<forall>n\<ge>N. \<exists>e'. scan_loop n pf lf E e = Inr e' \<and> eng_ok fds adm cap {} e'"
proof (induction "(mass e, togo e)" arbitrary: e rule: wf_induct_rule [OF wf_lex_prod [OF wf_less wf_less]])
  case (1 e)
  from round_live [OF 1(2) assms 1(3)] obtain stop e1 where
    r: "scan_round pf lf E e = Inr (stop, e1)" "eng_ok fds adm cap {} e1" "fst (cnt (world e1)) \<le> fst (cnt (world e))"
      "stop \<or> mass e1 < mass e \<or> mass e1 = mass e \<and> togo e1 < togo e" by blast
  show ?case
  proof (cases stop)
    case True
    have "scan_loop n pf lf E e = Inr e1" if "1 \<le> n" for n using that r(1) True by (cases n) simp_all
    with r(2) show ?thesis by blast
  next
    case False
    then have "((mass e1, togo e1), (mass e, togo e)) \<in> {(x, y). x < y} <*lex*> {(x, y). x < y}" using r(4) by auto
    from 1(1) [OF this r(2)] r(3) 1(3) obtain N where
      N: "\<forall>n\<ge>N. \<exists>e'. scan_loop n pf lf E e1 = Inr e' \<and> eng_ok fds adm cap {} e'" by auto
    have "\<exists>e'. scan_loop n pf lf E e = Inr e' \<and> eng_ok fds adm cap {} e'" if "Suc N \<le> n" for n
      using that r(1) False N by (cases n) simp_all
    then show ?thesis by blast
  qed
qed

lemma scan_live:
  assumes ok: "eng_ok fds adm cap {} e" and fresh: "lvl4_sms e = []" and cap: "0 < cap"
    and lf: "fst (cnt (world e)) < lf"
  shows "\<exists>N. \<forall>n\<ge>N. \<exists>e'. do_async_scan n pf lf E e = Inr e' \<and> eng_ok fds adm cap {} e'"
proof -
  let ?e = "e\<lparr>world := os_epoll_create (kernel E) (world e), nlaunched := 0, ndone := 0, last_time_status_display := 0\<rparr>"
  have "eng_ok fds adm cap {} ?e" "fst (cnt (world ?e)) < lf"
    using start_ok [OF ok fresh] lf by (simp_all add: os_cnt)
  then obtain b e1 where e1: "process_free_socks lf E ?e = Inr (b, e1)" "eng_ok fds adm cap {} e1" "nearer ?e e1"
    unfolding process_free_socks_def using launch_sockets_live [OF _ order_refl] by blast
  have "fst (cnt (world e1)) < lf" using e1(3) lf by (simp add: nearer_def os_cnt)
  from loop_live [OF cap e1(2) this] e1(1) show ?thesis by (simp add: do_async_scan_def Let_def)
qed

end

end
