(* ===== verification/Engine_Account.thy ===== *)
theory Engine_Account
  imports Engine_Observer "HOL-Library.Multiset"
begin

text \<open>
  No target is lost and none is reported twice. \<open>todo\<close> reads off the world the targets the set has
  still to hand out, \<open>fin\<close> the targets the finish callback was called for. Together with the targets
  of the open connections they are the same multiset all through a scan.
\<close>

section \<open>Entries of a map as a multiset\<close>

lemma mset_smap_insert:
  "smap_find m k = None \<Longrightarrow> mset (smap_insert k v m) = add_mset (k, v) (mset m)"
  by (induction k v m rule: smap_insert.induct) (auto split: if_splits)

lemma mset_smap_erase:
  "smap_ok m \<Longrightarrow> smap_find m k = Some v \<Longrightarrow> mset m = add_mset (k, v) (mset (smap_erase k m))"
proof (induction k m rule: smap_erase.induct)
  case (2 k a b m)
  then show ?case by (auto simp: smap_ok_Cons split: if_splits)
qed simp

section \<open>The account\<close>

locale account_env = engine_env adm E fds pf + observer E "\<lambda>w. (todo w, fin w)"
  for adm :: "'f \<Rightarrow> u32 \<Rightarrow> bool" and E :: "('f, 'pl, 'w) env" and fds pf
    and todo :: "'w \<Rightarrow> target list" and fin :: "'w \<Rightarrow> target list" +
  assumes wait_todo: "os_epoll_wait (kernel E) n w = (evs, w') \<Longrightarrow> todo w' = todo w \<and> fin w' = fin w"
    and next_todo: "ts_next_target E w = Inr (nt, w') \<Longrightarrow> fin w' = fin w
      \<and> (case nt of None \<Rightarrow> todo w' = todo w
         | Some t \<Rightarrow> if is_end t then todo w = [] \<and> todo w' = [] else todo w = t # todo w')"
    and finish_fin: "call_finish E f t xs i w = Inr w' \<Longrightarrow> todo w' = todo w \<and> fin w' = fin w @ [t]"
begin

definition acct :: "('f, 'pl, 'w) engine \<Rightarrow> target multiset" where
  "acct e = mset (todo (world e)) + image_mset snd (mset (sockets_targets e)) + mset (fin (world e))"

text \<open>A step on existing connections: it moves targets from the open ones to the reported ones only.\<close>

definition settled :: "'f \<Rightarrow> ('f, 'pl, 'w) engine \<Rightarrow> bool" where
  "settled f e \<longleftrightarrow> smap_ok (sockets_targets e) \<and> callback_finish e = Some f"

definition keeps_acct :: "'f \<Rightarrow> ('f, 'pl, 'w) engine \<Rightarrow> ('f, 'pl, 'w) engine \<Rightarrow> bool" where
  "keeps_acct f e e' \<longleftrightarrow> (settled f e \<longrightarrow> settled f e' \<and> acct e' = acct e) \<and> todo (world e') = todo (world e)"

lemma keeps_refl [simp]: "keeps_acct f e e"
  by (simp add: keeps_acct_def)

lemma keeps_trans: "keeps_acct f e e1 \<Longrightarrow> keeps_acct f e1 e2 \<Longrightarrow> keeps_acct f e e2"
  by (auto simp: keeps_acct_def)

lemma keeps_same:
  "sockets_targets e' = sockets_targets e \<Longrightarrow> callback_finish e' = callback_finish e \<Longrightarrow>
     (todo (world e'), fin (world e')) = (todo (world e), fin (world e)) \<Longrightarrow> keeps_acct f e e'"
  by (simp add: keeps_acct_def settled_def acct_def)

lemma keeps_start:
  "keeps_acct f e1 e' \<Longrightarrow> sockets_targets e1 = sockets_targets e \<Longrightarrow> callback_finish e1 = callback_finish e \<Longrightarrow>
     (todo (world e1), fin (world e1)) = (todo (world e), fin (world e)) \<Longrightarrow> keeps_acct f e e'"
  by (rule keeps_trans [OF keeps_same])

lemma frame_simps [simp]:
  "sockets_targets (put_host_sm ip h e) = sockets_targets e" "sockets_targets (put_lvl4_sm s l e) = sockets_targets e"
  "sockets_targets (del_host_sm t e) = sockets_targets e" "sockets_targets (snd (get_host_sm E ip e)) = sockets_targets e"
  "sockets_targets (snd (get_lvl4_sm E s e)) = sockets_targets e"
  "callback_finish (put_host_sm ip h e) = callback_finish e" "callback_finish (put_lvl4_sm s l e) = callback_finish e"
  "callback_finish (del_host_sm t e) = callback_finish e" "callback_finish (snd (get_host_sm E ip e)) = callback_finish e"
  "callback_finish (snd (get_lvl4_sm E s e)) = callback_finish e"
  "callback_finish (free_socket E s e) = callback_finish e"
  "sockets_targets (free_socket E s e) = smap_erase s (sockets_targets e)"
  by (simp_all add: put_host_sm_def put_lvl4_sm_def del_host_sm_def get_host_sm_def get_lvl4_sm_def
      free_socket_def remove_connected_socket_def remove_connecting_socket_def del_lvl4_sm_def Let_def split: option.splits)

lemma callback_acct:
  "call_callback_finish E t b err e = Inr e' \<Longrightarrow> sockets_targets e' = sockets_targets e \<and> callback_finish e' = callback_finish e
     \<and> todo (world e') = todo (world e)
     \<and> fin (world e') = (if callback_finish e = None then fin (world e) else fin (world e) @ [t])"
  by (auto simp: call_callback_finish_def bind_res_eq_Inr split: option.splits dest: finish_fin)

lemma free_world [simp]:
  "todo (world (free_socket E s e)) = todo (world e)" "fin (world (free_socket E s e)) = fin (world e)"
  using world_simps(6) [of s e] unfolding prod.inject by blast+

text \<open>The laws on pairs, taken apart for the simplifier.\<close>

lemma snd_todo [simp]:
  "todo (snd (os_so_error (kernel E) s w)) = todo w" "fin (snd (os_so_error (kernel E) s w)) = fin w"
  "todo (snd (os_fionread (kernel E) s w)) = todo w" "fin (snd (os_fionread (kernel E) s w)) = fin w"
  "todo (os_epoll_add (kernel E) s m w) = todo w" "fin (os_epoll_add (kernel E) s m w) = fin w"
  "todo (os_epoll_del (kernel E) s w) = todo w" "fin (os_epoll_del (kernel E) s w) = fin w"
  using snd_cnt(3,4) [of s w] os_cnt(2) [of s m w] os_cnt(3) [of s w] unfolding prod.inject by blast+

lemma socket_finished_acct:
  assumes "socket_finished E s err e = Inr e'"
  shows "keeps_acct f e e'"
proof -
  from assms obtain t where t: "smap_find (sockets_targets e) s = Some t"
    by (auto simp: socket_finished_def target_from_socket_def Let_def bind_res_def split: option.splits)
  have e': "sockets_targets e' = smap_erase s (sockets_targets e)" "callback_finish e' = callback_finish e"
    "todo (world e') = todo (world e)"
    "fin (world e') = (if callback_finish e = None then fin (world e) else fin (world e) @ [t])"
    using assms t
    by (auto simp: socket_finished_def target_from_socket_def Let_def bind_res_eq_Inr split_beta dest!: res_cnt callback_acct)
  show ?thesis
    using e' t mset_smap_erase [of "sockets_targets e" s t] by (auto simp: keeps_acct_def settled_def acct_def smap_erase_ok)
qed

lemma keeps_finished:
  "socket_finished E s err e1 = Inr e' \<Longrightarrow> keeps_acct f e e1 \<Longrightarrow> keeps_acct f e e'"
  by (blast intro: keeps_trans socket_finished_acct)

lemma connecting_acct:
  "process_connecting_ready E s e = Inr e' \<Longrightarrow> keeps_acct f e e'"
  by (auto simp: process_connecting_ready_def add_connected_socket_def remove_connecting_socket_def
      Let_def bind_res_eq_Inr split_beta split: if_splits dest!: res_cnt intro!: keeps_same elim!: keeps_finished)

lemma connected_ready_acct:
  assumes "process_connected_ready n E s e = Inr e'" and "smap_find (lvl4_sms e) s = Some l" and "\<not> l4_reconnect l"
  shows "keeps_acct f e e'"
  using assms
  by (auto simp: process_connected_ready_def Let_def bind_res_eq_Inr split_beta get_lvl4_found split: if_splits
      dest!: res_cnt intro!: keeps_same elim!: keeps_finished)

lemma dirty_acct: "process_dirty n E ps e = Inr e' \<Longrightarrow> keeps_acct f e e'"
proof (induction ps arbitrary: e)
  case (Cons s ps)
  have start: "keeps_acct f e e'"
    if "process_dirty n E ps e1 = Inr e'" "sockets_targets e1 = sockets_targets e"
      "callback_finish e1 = callback_finish e" "(todo (world e1), fin (world e1)) = (todo (world e), fin (world e))" for e1
    using keeps_start [OF Cons.IH [OF that(1)] that(2-4)] .
  have goes_on: "keeps_acct f e e'"
    if "socket_finished E s 0 e1 = Inr e2" "process_dirty n E ps e2 = Inr e'" "sockets_targets e1 = sockets_targets e"
      "callback_finish e1 = callback_finish e" "(todo (world e1), fin (world e1)) = (todo (world e), fin (world e))" for e1 e2
    using keeps_trans [OF keeps_finished [OF that(1) keeps_same [OF that(3-5)]] Cons.IH [OF that(2)]] .
  show ?case using Cons.prems
    by (auto simp: bind_res_eq_Inr Let_def split_beta split: if_splits dest!: res_cnt)
      (erule (1) goes_on; simp | erule start; simp)+
qed simp

lemma timeouts_acct: "finish_timeouts E tos e = Inr e' \<Longrightarrow> keeps_acct f e e'"
proof (induction tos arbitrary: e)
  case (Cons s tos)
  then show ?case by (auto simp: bind_res_eq_Inr intro: keeps_trans dest: socket_finished_acct)
qed simp

lemma dirty_and_timeouts_acct:
  assumes "process_dirty_and_timeouts n E e = Inr (k, e')"
  shows "keeps_acct f e e'"
proof -
  obtain ls ps tos m w where r: "scan_lvl4_sms E e (timestamp (kernel E) (world e)) (lvl4_sms e) (world e) = Inr (ls, ps, tos, m, w)"
    using scan_ok [of e "timestamp (kernel E) (world e)" "lvl4_sms e" "world e"] by blast
  then obtain e1 where e1: "process_dirty n E ps (e\<lparr>lvl4_sms := ls, world := w\<rparr>) = Inr e1" "finish_timeouts E tos e1 = Inr e'"
    using assms by (auto simp: process_dirty_and_timeouts_def Let_def bind_res_eq_Inr)
  have "keeps_acct f e (e\<lparr>lvl4_sms := ls, world := w\<rparr>)" using scan_cnt [OF r] by (intro keeps_same) simp_all
  with dirty_acct [OF e1(1)] timeouts_acct [OF e1(2)] show ?thesis by (blast intro: keeps_trans)
qed

lemma event_acct:
  assumes ok: "eng_ok fds adm cap {} e" and "process_event n E (s, ev) e = Inr e'"
    and st: "fds (world e) s = Some (Some m, r)"
  shows "keeps_acct f e e'"
proof -
  obtain l where l: "smap_find (lvl4_sms e) s = Some l"
    using book_okD(7) [OF conjunct1 [OF ok [unfolded eng_ok_def]] st] by blast
  have "\<not> l4_reconnect l" using conn_ok_of [OF ok l] by (simp add: conn_ok_def calm_def)
  with assms(2) l show ?thesis
    by (auto simp: process_event_def split: if_splits intro: connecting_acct connected_ready_acct)
qed

text \<open>What \<open>epoll_wait\<close> reports: distinct descriptors, each watched for what it is ready for.\<close>

lemma event_list_acct:
  "eng_ok fds adm cap {} e \<Longrightarrow> distinct (map fst evs) \<Longrightarrow>
   (\<forall>(s, ev)\<in>set evs. \<exists>m r. fds (world e) s = Some (Some m, r)
     \<and> (ev AND EPOLLOUT = EPOLLOUT \<longrightarrow> m = EPOLLOUT)
     \<and> (ev AND EPOLLIN = EPOLLIN \<longrightarrow> ev AND EPOLLOUT \<noteq> EPOLLOUT \<longrightarrow> m = EPOLLIN)) \<Longrightarrow>
   process_event_list pf E evs e = Inr e' \<Longrightarrow> keeps_acct f e e'"
proof (induction evs arbitrary: e)
  case (Cons x evs)
  obtain s ev where x: "x = (s, ev)" by (cases x)
  from Cons.prems(3) obtain m r where m: "fds (world e) s = Some (Some m, r)"
    "ev AND EPOLLOUT = EPOLLOUT \<longrightarrow> m = EPOLLOUT"
    "ev AND EPOLLIN = EPOLLIN \<longrightarrow> ev AND EPOLLOUT \<noteq> EPOLLOUT \<longrightarrow> m = EPOLLIN" by (auto simp: x)
  from event_ok [OF Cons.prems(1) m] obtain e1 where
    e1: "process_event pf E (s, ev) e = Inr e1" "eng_ok fds adm cap {} e1" "same_others fds s e e1" by blast
  have "fds (world e1) j = fds (world e) j" if "(j, jev) \<in> set evs" for j jev
    using that Cons.prems(2) e1(3) by (force simp: x same_others_def)
  then have "\<forall>(s, ev)\<in>set evs. \<exists>m r. fds (world e1) s = Some (Some m, r)
     \<and> (ev AND EPOLLOUT = EPOLLOUT \<longrightarrow> m = EPOLLOUT)
     \<and> (ev AND EPOLLIN = EPOLLIN \<longrightarrow> ev AND EPOLLOUT \<noteq> EPOLLOUT \<longrightarrow> m = EPOLLIN)"
    using Cons.prems(3) by (auto simp: x)
  from Cons.IH [OF e1(2) _ this] Cons.prems(2,4) e1(1) event_acct [OF Cons.prems(1) e1(1) m(1)]
  show ?case by (auto simp: x intro: keeps_trans)
qed simp

lemma events_acct:
  assumes ok: "eng_ok fds adm cap {} e" and r: "process_events pf E e = Inr (n, e')"
  shows "keeps_acct f e e'"
proof -
  obtain evs w1 where w: "os_epoll_wait (kernel E) MAX_EVENTS (world e) = (evs, w1)" by fastforce
  note law = epoll_wait_law [OF w]
  have k: "keeps_acct f e (e\<lparr>world := w1\<rparr>)" using wait_todo [OF w] by (intro keeps_same) simp_all
  show ?thesis
  proof (cases evs)
    case None
    with w r k show ?thesis by (auto simp: process_events_def)
  next
    case (Some es)
    have "eng_ok fds adm cap {} (e\<lparr>world := w1\<rparr>)" using ok law by (simp add: eng_ok_world)
    from event_list_acct [OF this, of es] law Some r w k show ?thesis
      by (auto simp: process_events_def bind_res_eq_Inr intro: keeps_trans)
  qed
qed

section \<open>Launching\<close>

lemma create_socket_acct:
  assumes ok: "eng_ok fds adm cap {} e" and av: "avail_socks e > 0" and f: "settled f e"
    and c: "create_socket E t (e\<lparr>nlaunched := nlaunched e + 1\<rparr>) = Inr ((ret, s, err), e2)"
  shows "settled f e2 \<and> acct e2 = add_mset t (acct e) \<and> todo (world e2) = todo (world e)"
proof -
  obtain l where l: "smap_find (lvl4_sms e2) s = Some l" "smap_find (lvl4_sms e) s = None"
    using create_socket_ok [OF ok av, of t] c by auto
  have new: "smap_find (sockets_targets e) s = None" using eng_ok_lvl4(2) [OF ok] l(2) by blast
  have ns: "fst (fst (new_socket E (port_socket_type E (tport t)) (port_socket_proto E (tport t)) (world e))) \<noteq> -1"
    using socket_law by (auto simp: new_socket_def split: prod.split)
  then have e2: "sockets_targets e2 = smap_insert s t (sockets_targets e)" "callback_finish e2 = callback_finish e"
    using c by (auto simp: create_socket_def new_lvl4_sm_def Let_def bind_res_eq_Inr split_beta split: if_splits)
  moreover have "todo (world e2) = todo (world e)" "fin (world e2) = fin (world e)"
    using create_socket_cnt [OF c] by auto
  ultimately show ?thesis
    using f new by (simp add: settled_def acct_def mset_smap_insert smap_insert_ok)
qed

lemma launch_one_acct:
  "eng_ok fds adm cap {} e \<Longrightarrow> avail_socks e > 0 \<Longrightarrow> settled f e \<Longrightarrow> launch_one n E e = Inr (r, e') \<Longrightarrow>
     settled f e' \<and> acct e' = acct e \<and> (r = End_of_targets \<longrightarrow> todo (world e') = [])"
proof (induction n arbitrary: e)
  case (Suc n)
  obtain nt w1 where nt: "ts_next_target E (world e) = Inr (nt, w1)" "fds w1 = fds (world e)" using next_law by blast
  note td = next_todo [OF nt(1)]
  let ?e1 = "e\<lparr>world := w1\<rparr>"
  have ok1: "eng_ok fds adm cap {} ?e1" "avail_socks ?e1 > 0" "settled f ?e1"
    using Suc.prems nt(2) by (simp_all add: eng_ok_world settled_def)
  show ?case
  proof (cases "nt = None \<or> is_end (the nt)")
    case True
    with td nt(1) Suc.prems(3,4) show ?thesis
      by (auto simp: settled_def acct_def split: option.splits if_splits)
  next
    case False
    then obtain t where t: "nt = Some t" "\<not> is_end t" by auto
    obtain ret s err e2 where c: "create_socket E t (?e1\<lparr>nlaunched := nlaunched ?e1 + 1\<rparr>) = Inr ((ret, s, err), e2)"
      using create_socket_ok [OF ok1(1,2), of t] by auto
    have a2: "settled f e2" "acct e2 = add_mset t (acct ?e1)" using create_socket_acct [OF ok1 c] by simp_all
    have "add_mset t (acct ?e1) = acct e" using td t by (simp add: acct_def)
    with a2 have a2': "settled f e2" "acct e2 = acct e" by simp_all
    show ?thesis
    proof (cases "ret = 0 \<or> err = EINPROGRESS")
      case True
      then have "r = Launched s t" "e' = e2" using Suc.prems(4) nt(1) t c by auto
      with a2' show ?thesis by simp
    next
      case nz: False
      from failed_connect [OF ok1(1,2) c] obtain e3 where
        e3: "socket_finished E s err e2 = Inr e3" "eng_ok fds adm cap {} e3" "avail_socks e3 = avail_socks e" by auto
      have "settled f e3" "acct e3 = acct e" using socket_finished_acct [OF e3(1), of f] a2' by (auto simp: keeps_acct_def)
      moreover have "launch_one n E e3 = Inr (r, e')" using Suc.prems(4) nt(1) t c nz e3(1) by auto
      ultimately show ?thesis using Suc.IH [OF e3(2)] Suc.prems(2) e3(3) by auto
    qed
  qed
qed simp

lemma launch_sockets_acct:
  "eng_ok fds adm cap {} e \<Longrightarrow> i \<le> unat (avail_socks e) \<Longrightarrow> settled f e \<Longrightarrow> launch_sockets lf E i e = Inr (b, e') \<Longrightarrow>
     settled f e' \<and> acct e' = acct e \<and> (\<not> b \<longrightarrow> todo (world e') = [])"
proof (induction i arbitrary: e)
  case (Suc i)
  then have av: "avail_socks e > 0" by (simp add: word_less_nat_alt)
  from Suc.prems(4) obtain r e1 where r: "launch_one lf E e = Inr (r, e1)" by (auto simp: bind_res_eq_Inr)
  from launch_one_ok [OF Suc.prems(1) av, of lf] r have ok1: "eng_ok fds adm cap {} e1" "launch_post fds r e e1" by auto
  note a1 = launch_one_acct [OF Suc.prems(1) av Suc.prems(3) r]
  show ?case
  proof (cases r)
    case (Launched s t)
    obtain h hs h' w' e4 where st: "get_host_sm E (ipv4 t) e1 = (h, e1\<lparr>hosts_sms := hs\<rparr>)"
      "ts_init_host_sm E t (h, world e1) = (h', w')" "fds w' = fds (world e1)"
      "e4 = add_connecting_socket E s (put_host_sm (ipv4 t) h' (e1\<lparr>hosts_sms := hs, world := w'\<rparr>))"
      "eng_ok fds adm cap {} e4" "i \<le> unat (avail_socks e4)"
      by (rule launched_step [OF ok1(1) ok1(2) [unfolded Launched] Suc.prems(2)])
    have "keeps_acct f e1 e4"
      unfolding st(4) using init_host_cnt [OF st(2)]
      by (intro keeps_same) (simp_all add: add_connecting_socket_def put_host_sm_def)
    with a1 have "settled f e4" "acct e4 = acct e" by (auto simp: keeps_acct_def)
    moreover have "launch_sockets lf E i e4 = Inr (b, e')" using Suc.prems(4) r Launched st(1,2,4) by simp
    ultimately show ?thesis using Suc.IH [OF st(5,6)] by auto
  qed (use Suc.prems(4) r a1 in auto)
qed simp

section \<open>The main loop\<close>

lemma report_acct:
  assumes "report_and_save E e = Inr e'"
  shows "keeps_acct f e e'"
proof (rule keeps_same)
  show "sockets_targets e' = sockets_targets e" "callback_finish e' = callback_finish e"
    using assms by (auto simp: report_and_save_def should_call_status_display_def should_save_state_def save_state_def Let_def
        bind_res_eq_Inr split: if_splits option.splits)
qed (rule report_cnt [OF assms])

lemma round_acct:
  assumes ok: "eng_ok fds adm cap {} e" and f: "settled f e" and r: "scan_round pf lf E e = Inr (stop, e')"
  shows "settled f e' \<and> acct e' = acct e \<and> (stop \<longrightarrow> todo (world e') = [])"
proof -
  obtain n e1 where e1: "process_events pf E e = Inr (n, e1)" "eng_ok fds adm cap {} e1" using events_ok [OF ok] by blast
  obtain v e2 where e2: "process_dirty_and_timeouts pf E e1 = Inr (v, e2)" "eng_ok fds adm cap {} e2"
    using dirty_and_timeouts_ok [OF e1(2)] by blast
  obtain b e3 where e3: "process_free_socks lf E e2 = Inr (b, e3)" using r e1(1) e2(1) by (auto simp: scan_round_def bind_res_eq_Inr)
  have "settled f e2" "acct e2 = acct e"
    using events_acct [OF ok e1(1), of f] dirty_and_timeouts_acct [OF e2(1), of f] f by (auto simp: keeps_acct_def)
  with launch_sockets_acct [OF e2(2) order_refl _ e3 [unfolded process_free_socks_def]]
  have a3: "settled f e3" "acct e3 = acct e" "\<not> b \<longrightarrow> todo (world e3) = []" by auto
  show ?thesis
  proof (cases stop)
    case True
    with r e1(1) e2(1) e3 have "e' = e3" "\<not> b" by (auto simp: scan_round_def bind_res_eq_Inr split: if_splits)
    with a3 show ?thesis by simp
  next
    case False
    with r e1(1) e2(1) e3 have "report_and_save E e3 = Inr e'" by (auto simp: scan_round_def bind_res_eq_Inr split: if_splits)
    from report_acct [OF this, of f] a3 False show ?thesis by (auto simp: keeps_acct_def)
  qed
qed

lemma loop_acct:
  "eng_ok fds adm cap {} e \<Longrightarrow> settled f e \<Longrightarrow> scan_loop n pf lf E e = Inr e' \<Longrightarrow> acct e' = acct e \<and> todo (world e') = []"
proof (induction n arbitrary: e)
  case (Suc n)
  from Suc.prems(3) obtain stop e1 where r: "scan_round pf lf E e = Inr (stop, e1)"
    "if stop then e' = e1 else scan_loop n pf lf E e1 = Inr e'" by (auto simp: bind_res_eq_Inr split: if_splits)
  from round_ok [OF Suc.prems(1), of lf] r(1) have ok1: "eng_ok fds adm cap {} e1" by auto
  from round_acct [OF Suc.prems(1,2) r(1)] r(2) Suc.IH [OF ok1] show ?case by (auto split: if_splits)
qed simp

lemma scan_accounts:
  assumes ok: "eng_ok fds adm cap {} e" and fresh: "lvl4_sms e = []" and cb: "callback_finish e = Some f"
    and r: "do_async_scan sf pf lf E e = Inr e'"
  shows "todo (world e') = [] \<and>
    mset (fin (world e')) + image_mset snd (mset (sockets_targets e')) = mset (todo (world e)) + mset (fin (world e))"
proof -
  let ?e = "e\<lparr>world := os_epoll_create (kernel E) (world e), nlaunched := 0, ndone := 0, last_time_status_display := 0\<rparr>"
  have ok0: "eng_ok fds adm cap {} ?e" by (rule start_ok [OF ok fresh])
  have "fst ` set (sockets_targets e) = {}" using eng_ok_lvl4(2) [OF ok] fresh by (simp add: smap_dom)
  then have "sockets_targets e = []" "settled f ?e" using cb by (simp_all add: settled_def)
  moreover have "todo (world ?e) = todo (world e)" "fin (world ?e) = fin (world e)" using os_cnt(4) [of "world e"] by auto
  ultimately have e0: "settled f ?e" "acct ?e = mset (todo (world e)) + mset (fin (world e))" by (simp_all add: acct_def)
  from r obtain b e1 where e1: "process_free_socks lf E ?e = Inr (b, e1)" "scan_loop sf pf lf E e1 = Inr e'"
    by (auto simp: do_async_scan_def Let_def bind_res_eq_Inr)
  from free_socks_ok [OF ok0, of lf] e1(1) have ok1: "eng_ok fds adm cap {} e1" by auto
  from launch_sockets_acct [OF ok0 order_refl e0(1) e1(1) [unfolded process_free_socks_def]]
  have a1: "settled f e1" "acct e1 = acct ?e" by auto
  from loop_acct [OF ok1 a1(1) e1(2)] have "acct e' = acct ?e" "todo (world e') = []" using a1(2) by simp_all
  with e0(2) show ?thesis by (simp add: acct_def ac_simps)
qed

end

end
