(* ===== verification/Protocol_Base.thy ===== *)
theory Protocol_Base
  imports Lvl4
begin

text \<open>
  What the protocol scanners share: the optional callbacks of their \<open>call_cb\<close> templates, and
  the C library's view of the bytes behind a buffer pointer (\<open>memchr\<close>, \<open>memcmp\<close>, C strings),
  with lemmas that reduce each access below the fill position to the buffer's contents.
\<close>

section \<open>C strings in the buffer\<close>

definition bytes_of :: "string \<Rightarrow> u8 list" where
  "bytes_of s = map of_char s"

text \<open>The C string that starts at an offset: up to the first zero byte of the block.\<close>

definition c_string :: "nat \<Rightarrow> lvl4_buffer \<Rightarrow> u8 list res" where
  "c_string off b =
     (case buf_mem b of
        None \<Rightarrow> Inl Null_pointer
      | Some m \<Rightarrow>
          (if 0 \<in> set (drop off m) then Inr (takeWhile (\<lambda>x. x \<noteq> 0) (drop off m))
           else Inl Out_of_bounds))"

text \<open>\<open>memchr(begin() + off, c, n)\<close>, as an offset from \<open>begin() + off\<close>.\<close>

definition buf_memchr :: "nat \<Rightarrow> u8 \<Rightarrow> nat \<Rightarrow> lvl4_buffer \<Rightarrow> nat option res" where
  "buf_memchr off ch n b =
     (case buf_mem b of
        None \<Rightarrow> (if n = 0 then Inr None else Inl Null_pointer)
      | Some m \<Rightarrow>
          (if off + n \<le> length m then Inr (find_byte ch (take n (drop off m)))
           else Inl Out_of_bounds))"

text \<open>\<open>memcmp(begin() + off, s, n) == 0\<close> for a string \<open>s\<close> of length \<open>n\<close>.\<close>

definition buf_memeq :: "nat \<Rightarrow> u8 list \<Rightarrow> lvl4_buffer \<Rightarrow> bool res" where
  "buf_memeq off s b =
     (case buf_mem b of
        None \<Rightarrow> (if s = [] then Inr True else Inl Null_pointer)
      | Some m \<Rightarrow>
          (if off + length s \<le> length m then Inr (take (length s) (drop off m) = s)
           else Inl Out_of_bounds))"

text \<open>The bytes a struct pointer \<open>(T* )(begin() + off)\<close> of size \<open>n\<close> refers to.\<close>

definition buf_bytes :: "nat \<Rightarrow> nat \<Rightarrow> lvl4_buffer \<Rightarrow> u8 list res" where
  "buf_bytes off n b =
     (case buf_mem b of
        None \<Rightarrow> (if n = 0 then Inr [] else Inl Null_pointer)
      | Some m \<Rightarrow>
          (if off + n \<le> length m then Inr (take n (drop off m)) else Inl Out_of_bounds))"

text \<open>A C string's bytes.\<close>

definition c_str :: "u8 list \<Rightarrow> u8 list" where
  "c_str xs = takeWhile (\<lambda>x. x \<noteq> 0) xs"

section \<open>Optional callbacks\<close>

text \<open>\<open>call_cb<def>\<close>: a set action is called, an empty one gives the default.\<close>

definition call_cb :: "bool \<Rightarrow> 'u option \<Rightarrow> ('u \<Rightarrow> (bool \<times> 'c) res) \<Rightarrow> 'c \<Rightarrow> (bool \<times> 'c) res" where
  "call_cb def action call c = (case action of None \<Rightarrow> Inr (def, c) | Some u \<Rightarrow> call u)"

lemma call_cb_returns_ok:
  "l4_ok adm l \<Longrightarrow> (\<And>u. returns_ok adm l (call u)) \<Longrightarrow> returns_ok adm l (call_cb def cb call (l, h, w))"
  by (cases cb) (simp_all add: call_cb_def returns_ok_Inr)

lemma call_cb_simps [simp]: "call_cb d None call c = Inr (d, c)" "call_cb d (Some u) call c = call u"
  by (simp_all add: call_cb_def)

section \<open>Reading below the fill position\<close>

lemma buf_mem_split:
  assumes "buf_ok b" and "buf_mem b = Some m"
  shows "m = buf_contents b @ drop (unat (buf_pos b)) m"
  using assms by (simp add: buf_contents_def)

lemma takeWhile_append_in: "x \<in> set xs \<Longrightarrow> \<not> P x \<Longrightarrow> takeWhile P (xs @ ys) = takeWhile P xs"
  by (rule takeWhile_append1)

lemma contents_block:
  assumes "buf_ok b" and "off < unat (buf_pos b)"
  obtains m where "buf_mem b = Some m"
    "drop off m = drop off (buf_contents b) @ drop (unat (buf_pos b)) m"
proof -
  obtain m where m: "buf_mem b = Some m"
    using assms by (auto simp: buf_ok_def split: option.splits)
  have "drop off m = drop off (buf_contents b @ drop (unat (buf_pos b)) m)"
    using buf_mem_split [OF assms(1) m] by simp
  moreover have "off \<le> length (buf_contents b)"
    using assms by (simp add: length_buf_contents)
  ultimately show thesis using m that by simp
qed

lemma c_string_contents:
  assumes "buf_ok b" and "0 \<in> set (drop off (buf_contents b))"
  shows "c_string off b = Inr (takeWhile (\<lambda>x. x \<noteq> 0) (drop off (buf_contents b)))"
proof -
  have "off < unat (buf_pos b)"
    using assms by (metis drop_all emptyE leI length_buf_contents list.set(1))
  then obtain m where m: "buf_mem b = Some m"
    "drop off m = drop off (buf_contents b) @ drop (unat (buf_pos b)) m"
    using contents_block [OF assms(1)] by blast
  with assms(2) show ?thesis
    by (simp add: c_string_def takeWhile_append_in [where x = 0])
qed

lemma memchr_contents:
  assumes "buf_ok b" and "off + n \<le> unat (buf_pos b)"
  shows "buf_memchr off ch n b = Inr (find_byte ch (take n (drop off (buf_contents b))))"
proof (cases "n = 0")
  case True
  with assms show ?thesis
    by (auto simp: buf_memchr_def buf_ok_def split: option.splits)
next
  case False
  with assms(2) have "off < unat (buf_pos b)" by simp
  then obtain m where m: "buf_mem b = Some m"
    "drop off m = drop off (buf_contents b) @ drop (unat (buf_pos b)) m"
    using contents_block [OF assms(1)] by blast
  have "unat (buf_pos b) \<le> length m" using m(1) assms(1) by (auto simp: buf_ok_def)
  with m assms show ?thesis by (simp add: buf_memchr_def length_buf_contents)
qed

lemma memeq_contents:
  assumes "buf_ok b" and "off + length s \<le> unat (buf_pos b)" and "s \<noteq> []"
  shows "buf_memeq off s b = Inr (take (length s) (drop off (buf_contents b)) = s)"
proof -
  from assms(2,3) have "off < unat (buf_pos b)" by (cases s) auto
  then obtain m where m: "buf_mem b = Some m"
    "drop off m = drop off (buf_contents b) @ drop (unat (buf_pos b)) m"
    using contents_block [OF assms(1)] by blast
  have "unat (buf_pos b) \<le> length m" using m(1) assms(1) by (auto simp: buf_ok_def)
  with m assms show ?thesis by (simp add: buf_memeq_def length_buf_contents)
qed

lemma write_byte_contents:
  assumes "buf_ok b" and "i < unat (buf_pos b)"
  shows "\<exists>b'. buf_write i [x] b = Inr b' \<and> buf_ok b' \<and> buf_pos b' = buf_pos b
    \<and> buf_contents b' = (buf_contents b)[i := x]"
  using buf_write_contents [of b i "[x]"] assms
  by (auto simp: length_buf_contents upd_conv_take_nth_drop)

lemma c_str_zero [simp]: "takeWhile (\<lambda>x. x \<noteq> 0) (xs @ 0 # ys) = c_str xs"
  by (induction xs) (auto simp: c_str_def)

lemma c_string_at:
  assumes "buf_ok b" and "buf_contents b = pre @ xs @ 0 # ys" and "off = length pre"
  shows "c_string off b = Inr (c_str xs)"
  using c_string_contents [OF assms(1), of off] assms by simp

lemma buf_read_at:
  assumes "buf_ok b" and "buf_contents b = pre @ x # ys" and "off = length pre"
  shows "buf_read off b = Inr x"
  using buf_read_contents [OF assms(1), of off] length_buf_contents [OF assms(1)] assms by simp

lemma buf_write_at:
  assumes "buf_ok b" and "buf_contents b = pre @ x # ys" and "off = length pre"
  shows "\<exists>b'. buf_write off [v] b = Inr b' \<and> buf_ok b' \<and> buf_pos b' = buf_pos b
    \<and> buf_contents b' = pre @ v # ys"
  using write_byte_contents [OF assms(1), of off v] length_buf_contents [OF assms(1)] assms by simp

lemma buf_bytes_contents:
  assumes "buf_ok b" and "off + n \<le> unat (buf_pos b)"
  shows "buf_bytes off n b = Inr (take n (drop off (buf_contents b)))"
proof (cases "buf_mem b")
  case (Some m)
  with assms have "unat (buf_pos b) \<le> length m" by (simp add: buf_ok_def)
  with Some assms show ?thesis by (simp add: buf_bytes_def buf_contents_def drop_take)
qed (use assms in \<open>auto simp: buf_bytes_def buf_ok_def\<close>)

lemma buf_bytes_at:
  assumes "buf_ok b" and "buf_contents b = pre @ xs @ ys" and "off = length pre" and "n = length xs"
  shows "buf_bytes off n b = Inr xs"
  using buf_bytes_contents [OF assms(1), of off n] length_buf_contents [OF assms(1)] assms by simp

section \<open>Rounds of a trigger\<close>

text \<open>A message that the size trigger waits for is there: it is handed over, then dropped.\<close>

lemma size_round:
  assumes "l4_trigger l = Size_Data_Trigger (Some f) n" and ok: "buf_ok (l4_buf l)"
    and c: "buf_contents (l4_buf l) = frame @ rest" and n: "unat n = length frame"
    and "act_data A f ct 0 n (l, h, w) = Inr (True, l', h', w')" and "l4_buf l' = l4_buf l"
  shows "\<exists>b. buf_ok b \<and> buf_contents b = rest
    \<and> (\<forall>fuel. process_loop (Suc fuel) A ct p (l, h, w) = process_loop fuel A ct 0 (l'\<lparr>l4_buf := b\<rparr>, h', w'))"
proof -
  have le: "n \<le> buf_pos (l4_buf l)"
    using length_buf_contents [OF ok] c n by (simp add: word_le_nat_alt)
  from buf_pop_by_spec [OF ok le] obtain b where
    "buf_pop_by n (l4_buf l) = Inr b" "buf_ok b" "buf_contents b = drop (unat n) (frame @ rest)"
    unfolding c by blast
  moreover from le have "\<not> buf_pos (l4_buf l) < n" by simp
  ultimately show ?thesis using assms
    by (intro exI [of _ b])
      (simp add: trigger_process_buffer_def size_trigger_process_def trigger_finish_def)
qed

lemma size_end:
  assumes "l4_trigger l = Size_Data_Trigger (Some f) n" and ok: "buf_ok (l4_buf l)"
    and c: "buf_contents (l4_buf l) = frame @ rest" and n: "unat n = length frame"
    and "act_data A f ct 0 n (l, h, w) = Inr (False, c')"
  shows "process_loop (Suc fuel) A ct p (l, h, w) = Inr (False, c')"
proof -
  have "\<not> buf_pos (l4_buf l) < n"
    using length_buf_contents [OF ok] c n by (simp add: word_less_nat_alt)
  with assms show ?thesis
    by (cases c') (simp add: trigger_process_buffer_def size_trigger_process_def trigger_finish_def)
qed

lemma char_round:
  assumes "l4_trigger l = Char_Data_Trigger (Some f) ch" and ok: "buf_ok (l4_buf l)"
    and c: "buf_contents (l4_buf l) = line @ ch # rest" and line: "ch \<notin> set line"
    and n: "n = of_nat (length line)"
    and "act_data A f ct 0 n (l, h, w) = Inr (True, l', h', w')" and "l4_buf l' = l4_buf l"
  shows "\<exists>b. buf_ok b \<and> buf_contents b = rest
    \<and> (\<forall>fuel. process_loop (Suc fuel) A ct 0 (l, h, w) = process_loop fuel A ct 0 (l'\<lparr>l4_buf := b\<rparr>, h', w'))"
proof -
  have len: "length line + 1 \<le> unat (buf_pos (l4_buf l))"
    using length_buf_contents [OF ok] c by simp
  moreover have "unat (buf_pos (l4_buf l)) < 1073741824" using buf_ok_pos_less [OF ok] by simp
  ultimately have u: "unat (of_nat (length line + 1) :: u32) = length line + 1"
    by (intro unat_of_nat_u32) linarith
  with len have le: "of_nat (length line + 1) \<le> buf_pos (l4_buf l)"
    by (simp add: word_le_nat_alt del: of_nat_add)
  from buf_pop_by_spec [OF ok le] obtain b where
    "buf_pop_by (of_nat (length line + 1)) (l4_buf l) = Inr b" "buf_ok b" "buf_contents b = rest"
    unfolding c u by auto
  moreover have "find_byte_from 0 ch (buf_contents (l4_buf l)) = Some (length line)"
    using line c by (simp add: find_byte_from_0 find_byte_append)
  ultimately show ?thesis using assms
    by (intro exI [of _ b])
      (simp add: trigger_process_buffer_def char_trigger_process_def trigger_finish_def del: of_nat_add)
qed

end
