(* ===== verification/SIP.thy ===== *)
theory SIP
  imports Protocol_Base
begin

text \<open>
  The SIP scanner (\<open>protocols/sip.h\<close>, \<open>protocols/sip.cpp\<close>). Its closures become a datatype
  whose arguments are the captured variables: the \<open>SIP\<close> object itself, used as connect
  callback, the lambda it installs on a \<open>CharDataTrigger\<close>, and the user's own closures. The
  closures of the program are typed; the two ill-typed calls (a \<open>SIP\<close> object as data
  callback, the line lambda as connect callback) do not occur and end the connection here.
\<close>

section \<open>Closures\<close>

datatype 'u sip_fn =
    Sip_Object "'u option" "'u option"
  | Sip_Line "'u option" "'u option"
  | Sip_User 'u

record ('u, 'pl, 'w) sip_user =
  su_header :: "'u \<Rightarrow> connected_target \<Rightarrow> u8 list \<Rightarrow> u8 list \<Rightarrow> ('u sip_fn, 'pl, 'w) conn
                  \<Rightarrow> (bool \<times> ('u sip_fn, 'pl, 'w) conn) res"
  su_data :: "'u \<Rightarrow> connected_target \<Rightarrow> nat \<Rightarrow> u32 \<Rightarrow> ('u sip_fn, 'pl, 'w) conn
                  \<Rightarrow> (bool \<times> ('u sip_fn, 'pl, 'w) conn) res"
  su_connect :: "'u \<Rightarrow> connected_target \<Rightarrow> ('u sip_fn, 'pl, 'w) conn
                  \<Rightarrow> (bool \<times> ('u sip_fn, 'pl, 'w) conn) res"
  su_python :: "'u \<Rightarrow> connected_target \<Rightarrow> u32 \<Rightarrow> ('u sip_fn, 'pl, 'w) conn
                  \<Rightarrow> (process_code \<times> ('u sip_fn, 'pl, 'w) conn) res"

text \<open>The configuration of a \<open>SIP\<close> object.\<close>

definition on_header :: "'u option \<Rightarrow> 'u sip_fn \<Rightarrow> 'u sip_fn" where
  "on_header cb s = (case s of Sip_Object _ cb_invalid \<Rightarrow> Sip_Object cb cb_invalid | _ \<Rightarrow> s)"

definition on_invalid_header :: "'u option \<Rightarrow> 'u sip_fn \<Rightarrow> 'u sip_fn" where
  "on_invalid_header cb s = (case s of Sip_Object cb_header _ \<Rightarrow> Sip_Object cb_header cb | _ \<Rightarrow> s)"

definition sip_20 :: "u8 list" where
  "sip_20 = bytes_of ''SIP/2.0''"

definition get_options :: "u8 list" where
  "get_options =
     bytes_of (''OPTIONS sip:sip@127.0.0.1 SIP/2.0'' @ [CHR 0x0A]
       @ ''Via: SIP/2.0/UDP 127.0.0.1;branch=z9hG4bKhjhs8ass877'' @ [CHR 0x0A]
       @ ''Max-Forwards: 70'' @ [CHR 0x0A]
       @ ''To: <sip:my@poney.com>'' @ [CHR 0x0A]
       @ ''From: Alice <sip:her@poney.com>;tag=1928301774'' @ [CHR 0x0A]
       @ ''Call-ID: a84b4c76e66710'' @ [CHR 0x0A]
       @ ''CSeq: 63104 OPTIONS'' @ [CHR 0x0A]
       @ ''Contact: <sip:my@poney.com>'' @ [CHR 0x0A]
       @ ''Accept: application/sdp'' @ [CHR 0x0A]
       @ ''Content-Length: 0'' @ [CHR 0x0A] @ [CHR 0x0A] @ [CHR 0x0A])"

text \<open>
  The header part of the line callback, after the line's last byte was replaced by a zero: cut
  the line at the first colon and call the header callback with the two strings.
\<close>

definition sip_header ::
  "('u, 'pl, 'w) sip_user \<Rightarrow> 'u option \<Rightarrow> connected_target \<Rightarrow> nat \<Rightarrow> nat
     \<Rightarrow> ('u sip_fn, 'pl, 'w) conn \<Rightarrow> (bool \<times> ('u sip_fn, 'pl, 'w) conn) res"
where
  "sip_header U cb_header ct off dot c =
     (case c of (l, h, w) \<Rightarrow>
        bind_res (buf_write (off + dot) [0] (l4_buf l)) (\<lambda>b.
        bind_res (buf_read (off + dot + 1) b) (\<lambda>v0.
        bind_res (if v0 \<noteq> 0 then bind_res (buf_read (off + dot + 2) b) (\<lambda>v1. Inr (v1 = 32)) else Inr False)
          (\<lambda>skip.
        let value = (if skip then off + dot + 2 else off + dot + 1);
            c' = (l\<lparr>l4_buf := b\<rparr>, h, w)
        in bind_res (c_string off b) (\<lambda>key.
           bind_res (c_string value b) (\<lambda>val.
           call_cb True cb_header (\<lambda>u. su_header U u ct key val c') c'))))))"

definition sip_line ::
  "('u, 'pl, 'w) sip_user \<Rightarrow> 'u option \<Rightarrow> 'u option \<Rightarrow> connected_target \<Rightarrow> nat \<Rightarrow> u32
     \<Rightarrow> ('u sip_fn, 'pl, 'w) conn \<Rightarrow> (bool \<times> ('u sip_fn, 'pl, 'w) conn) res"
where
  "sip_line U cb_header cb_invalid ct off sz c =
     (case c of (l, h, w) \<Rightarrow>
        if sz < 1 then call_cb False cb_invalid (\<lambda>u. su_data U u ct off sz c) c
        else bind_res (buf_read (off + unat sz - 1) (l4_buf l)) (\<lambda>last.
          if last \<noteq> 13 then call_cb False cb_invalid (\<lambda>u. su_data U u ct off sz c) c
          else bind_res (buf_write (off + unat sz - 1) [0] (l4_buf l)) (\<lambda>b.
            let c1 = (l\<lparr>l4_buf := b\<rparr>, h, w) in
            if sz = 1 then Inr (False, c1)
            else bind_res (buf_memchr off 58 (unat sz) b) (\<lambda>dot.
              case dot of
                None \<Rightarrow>
                  bind_res (if unat sz > length sip_20 then buf_memeq off sip_20 b else Inr False)
                    (\<lambda>version. if version then Inr (True, c1)
                      else call_cb False cb_invalid (\<lambda>u. su_data U u ct off sz c1) c1)
              | Some d \<Rightarrow> sip_header U cb_header ct off d c1))))"

definition sip_connect ::
  "'w os \<Rightarrow> 'u option \<Rightarrow> 'u option \<Rightarrow> connected_target \<Rightarrow> ('u sip_fn, 'pl, 'w) conn
     \<Rightarrow> (bool \<times> ('u sip_fn, 'pl, 'w) conn) res"
where
  "sip_connect K cb_header cb_invalid ct c =
     (case c of (l, h, w) \<Rightarrow>
        let w1 = snd (ct_send K ct get_options w)
        in Inr (True, set_trigger (Char_Data_Trigger (Some (Sip_Line cb_header cb_invalid)) 10) l, h, w1))"

definition sip_actions :: "'w os \<Rightarrow> ('u, 'pl, 'w) sip_user \<Rightarrow> ('u sip_fn, 'pl, 'w) actions" where
  "sip_actions K U =
     \<lparr>act_data = (\<lambda>f ct off sz c.
        case f of
          Sip_Object cb_header cb_invalid \<Rightarrow> Inr (False, c)
        | Sip_Line cb_header cb_invalid \<Rightarrow> sip_line U cb_header cb_invalid ct off sz c
        | Sip_User u \<Rightarrow> su_data U u ct off sz c),
      act_connect = (\<lambda>f ct c.
        case f of
          Sip_Object cb_header cb_invalid \<Rightarrow> sip_connect K cb_header cb_invalid ct c
        | Sip_Line cb_header cb_invalid \<Rightarrow> Inr (False, c)
        | Sip_User u \<Rightarrow> su_connect U u ct c),
      act_python = (\<lambda>f ct p c.
        case f of Sip_User u \<Rightarrow> su_python U u ct p c | _ \<Rightarrow> Inr (NoMoreToProcess, c))\<rparr>"

lemma length_sip_20 [simp]: "length sip_20 = 7" "sip_20 \<noteq> []"
  by (simp_all add: sip_20_def bytes_of_def)

section \<open>What a line means\<close>

text \<open>
  The specification of the line callback: what a line of the answer, delivered without its line
  feed, stands for. \<open>sip_skip\<close> is the source's treatment of blanks after the colon: it drops the
  first byte of the value when the \<^emph>\<open>second\<close> one is a blank.
\<close>

datatype sip_event = Sip_Invalid | Sip_End | Sip_Version | Sip_Header "u8 list" "u8 list"

definition sip_skip :: "u8 list \<Rightarrow> u8 list" where
  "sip_skip v = (case v of a # b # r \<Rightarrow> if a \<noteq> 0 \<and> b = 32 then b # r else v | _ \<Rightarrow> v)"

definition sip_event_of :: "u8 list \<Rightarrow> sip_event" where
  "sip_event_of frame =
     (if frame = [] \<or> last frame \<noteq> 13 then Sip_Invalid
      else let line = butlast frame in
        if line = [] then Sip_End
        else case find_byte 58 line of
            None \<Rightarrow> if take 7 line = sip_20 then Sip_Version else Sip_Invalid
          | Some d \<Rightarrow> Sip_Header (c_str (take d line)) (c_str (sip_skip (drop (d + 1) line))))"

definition sip_react ::
  "('u, 'pl, 'w) sip_user \<Rightarrow> 'u option \<Rightarrow> 'u option \<Rightarrow> connected_target \<Rightarrow> u32 \<Rightarrow> sip_event
     \<Rightarrow> ('u sip_fn, 'pl, 'w) conn \<Rightarrow> (bool \<times> ('u sip_fn, 'pl, 'w) conn) res"
where
  "sip_react U cb_header cb_invalid ct sz e c =
     (case e of
        Sip_Invalid \<Rightarrow> call_cb False cb_invalid (\<lambda>u. su_data U u ct 0 sz c) c
      | Sip_End \<Rightarrow> Inr (False, c)
      | Sip_Version \<Rightarrow> Inr (True, c)
      | Sip_Header key val \<Rightarrow> call_cb True cb_header (\<lambda>u. su_header U u ct key val c) c)"

lemma sip_header_eq:
  assumes ok: "buf_ok (l4_buf l)" and c: "buf_contents (l4_buf l) = ks @ 58 # vs @ 0 # rest"
  shows "\<exists>b. buf_ok b \<and> buf_pos b = buf_pos (l4_buf l)
    \<and> drop (length ks + length vs + 2) (buf_contents b) = rest
    \<and> sip_header U cb ct 0 (length ks) (l, h, w) =
        call_cb True cb (\<lambda>u. su_header U u ct (c_str ks) (c_str (sip_skip vs)) (l\<lparr>l4_buf := b\<rparr>, h, w))
          (l\<lparr>l4_buf := b\<rparr>, h, w)"
proof -
  obtain b where b: "buf_write (length ks) [0] (l4_buf l) = Inr b" "buf_ok b"
    "buf_pos b = buf_pos (l4_buf l)" "buf_contents b = ks @ 0 # vs @ 0 # rest"
    using buf_write_at [OF ok c refl] by blast
  have dr: "drop (length ks + length vs + 2) (buf_contents b) = rest" using b(4) by simp
  have key: "c_string 0 b = Inr (c_str ks)"
    using c_string_at [OF b(2), of "[]" ks] b(4) by simp
  have val: "c_string (length ks + 1) b = Inr (c_str vs)"
    using c_string_at [OF b(2), of "ks @ [0]" vs] b(4) by simp
  have rd: "buf_read (length ks + 1) b = Inr (case vs of [] \<Rightarrow> 0 | a # r \<Rightarrow> a)"
    using buf_read_at [OF b(2), of "ks @ [0]"] b(4) by (cases vs) auto
  show ?thesis
  proof (cases vs)
    case Nil
    with b dr key val rd show ?thesis
      by (intro exI [of _ b]) (simp add: sip_header_def sip_skip_def Let_def)
  next
    case (Cons a r)
    have rd2: "buf_read (length ks + 2) b = Inr (case r of [] \<Rightarrow> 0 | a # r \<Rightarrow> a)"
      using buf_read_at [OF b(2), of "ks @ [0, a]"] b(4) Cons by (cases r) auto
    have val2: "c_string (length ks + 2) b = Inr (c_str r)"
      using c_string_at [OF b(2), of "ks @ [0, a]" r] b(4) Cons by simp
    from b dr key val rd rd2 val2 Cons show ?thesis
      by (intro exI [of _ b], cases r) (simp_all add: sip_header_def sip_skip_def Let_def)
  qed
qed

lemma sip_line_cr_eq:
  assumes ok: "buf_ok (l4_buf l)" and c: "buf_contents (l4_buf l) = line @ 13 # rest"
    and sz: "unat sz = length line + 1"
  shows "\<exists>b. buf_ok b \<and> buf_pos b = buf_pos (l4_buf l) \<and> drop (unat sz) (buf_contents b) = rest
    \<and> sip_line U cbh cbi ct 0 sz (l, h, w) =
        sip_react U cbh cbi ct sz (sip_event_of (line @ [13])) (l\<lparr>l4_buf := b\<rparr>, h, w)"
proof -
  obtain b where b: "buf_write (length line) [0] (l4_buf l) = Inr b" "buf_ok b"
    "buf_pos b = buf_pos (l4_buf l)" "buf_contents b = line @ 0 # rest"
    using buf_write_at [OF ok c refl] by blast
  have sz0: "\<not> sz < 1" "sz = 1 \<longleftrightarrow> line = []"
    using sz by (auto simp: word_less_nat_alt word_unat_eq_iff)
  have rd: "buf_read (length line) (l4_buf l) = Inr 13"
    using buf_read_at [OF ok c refl] .
  have pos: "unat (buf_pos b) = length line + 1 + length rest"
    using length_buf_contents [OF b(2)] b(4) by simp
  have mc: "buf_memchr 0 58 (unat sz) b = Inr (find_byte 58 line)"
    using memchr_contents [OF b(2), of 0 "unat sz" 58] pos sz b(4) by (simp add: find_byte_append)
  have mv: "(if unat sz > length sip_20 then buf_memeq 0 sip_20 b else Inr False)
      = Inr (take 7 line = sip_20)"
  proof (cases "7 < unat sz")
    case True
    with memeq_contents [OF b(2), of 0 sip_20] pos sz b(4) show ?thesis by simp
  next
    case False
    then have "length (take 7 line) \<noteq> length sip_20" using sz by simp
    with False show ?thesis by fastforce
  qed
  note unfold = sip_line_def sip_event_of_def sip_react_def Let_def
  show ?thesis
  proof (cases "find_byte 58 line")
    case None
    with b sz sz0 rd mc mv show ?thesis by (intro exI [of _ b]) (simp add: unfold)
  next
    case (Some d)
    then have "d < length line" "line ! d = 58" by (simp_all add: find_byte_Some)
    then have line: "line = take d line @ 58 # drop (Suc d) line" by (metis id_take_nth_drop)
    then have split: "buf_contents (l4_buf (l\<lparr>l4_buf := b\<rparr>)) = take d line @ 58 # drop (Suc d) line @ 0 # rest"
      using b(4) by (metis append.assoc append_Cons lvl4_sm.select_convs(5) lvl4_sm.surjective lvl4_sm.update_convs(5))
    have len: "length (take d line) = d" using \<open>d < length line\<close> by simp
    from sip_header_eq [OF _ split, of U cbh ct h w] b(2,3) obtain b' where
      "buf_ok b'" "buf_pos b' = buf_pos (l4_buf l)"
      "drop (d + length (drop (Suc d) line) + 2) (buf_contents b') = rest"
      "sip_header U cbh ct 0 d (l\<lparr>l4_buf := b\<rparr>, h, w) =
        call_cb True cbh (\<lambda>u. su_header U u ct (c_str (take d line)) (c_str (sip_skip (drop (Suc d) line)))
          (l\<lparr>l4_buf := b'\<rparr>, h, w)) (l\<lparr>l4_buf := b'\<rparr>, h, w)"
      unfolding len by auto
    moreover have "d + length (drop (Suc d) line) + 2 = unat sz" using \<open>d < length line\<close> sz by simp
    ultimately show ?thesis using Some b sz sz0 rd mc
      by (intro exI [of _ b']) (auto simp: unfold)
  qed
qed

text \<open>The line callback does exactly what its specification says, on every line.\<close>

lemma sip_line_eq:
  assumes ok: "buf_ok (l4_buf l)" and sz: "unat sz \<le> unat (buf_pos (l4_buf l))"
  shows "\<exists>b. buf_ok b \<and> buf_pos b = buf_pos (l4_buf l)
    \<and> drop (unat sz) (buf_contents b) = drop (unat sz) (buf_contents (l4_buf l))
    \<and> sip_line U cbh cbi ct 0 sz (l, h, w) =
        sip_react U cbh cbi ct sz (sip_event_of (take (unat sz) (buf_contents (l4_buf l))))
          (l\<lparr>l4_buf := b\<rparr>, h, w)"
proof -
  let ?f = "take (unat sz) (buf_contents (l4_buf l))"
  have len: "length ?f = unat sz" using sz ok by (simp add: length_buf_contents)
  have split: "buf_contents (l4_buf l) = ?f @ drop (unat sz) (buf_contents (l4_buf l))" by simp
  show ?thesis
  proof (cases "?f" rule: rev_cases)
    case Nil
    with len have "sz = 0" by (simp add: unat_eq_zero)
    with ok Nil show ?thesis
      by (intro exI [of _ "l4_buf l"]) (simp add: sip_line_def sip_event_of_def sip_react_def)
  next
    case (snoc line x)
    with len have sz': "unat sz = length line + 1" by simp
    with snoc split have c: "buf_contents (l4_buf l) = line @ x # drop (unat sz) (buf_contents (l4_buf l))"
      by simp
    show ?thesis
    proof (cases "x = 13")
      case True
      with sip_line_cr_eq [OF ok _ sz'] c snoc show ?thesis by simp
    next
      case False
      have rd: "buf_read (length line) (l4_buf l) = Inr x" using buf_read_at [OF ok c refl] .
      have "\<not> sz < 1" using sz' by (auto simp: word_less_nat_alt)
      with rd False ok snoc sz' show ?thesis
        by (intro exI [of _ "l4_buf l"]) (simp add: sip_line_def sip_event_of_def sip_react_def)
    qed
  qed
qed

section \<open>The line callback is safe\<close>

text \<open>What the scanner relies on of the user's callbacks: they return in order.\<close>

locale sip_user_ok =
  fixes adm :: "'u sip_fn \<Rightarrow> u32 \<Rightarrow> bool" and U :: "('u, 'pl, 'w) sip_user"
  assumes header_ok: "l4_ok adm l \<Longrightarrow> returns_ok adm l (su_header U u ct key val (l, h, w))"
    and data_ok: "l4_ok adm l \<Longrightarrow> unat n \<le> unat (buf_pos (l4_buf l)) \<Longrightarrow>
        returns_ok adm l (su_data U u ct 0 n (l, h, w))"
begin

lemma react_ok:
  assumes "l4_ok adm l" and "unat n \<le> unat (buf_pos (l4_buf l))"
  shows "returns_ok adm l (sip_react U cbh cbi ct n e (l, h, w))"
  using assms
  by (auto simp: sip_react_def split: sip_event.split
      intro!: call_cb_returns_ok header_ok data_ok returns_ok_Inr)

lemma line_ok:
  assumes ok: "l4_ok adm l" and sz: "unat n \<le> unat (buf_pos (l4_buf l))"
  shows "returns_ok adm l (sip_line U cbh cbi ct 0 n (l, h, w))"
proof -
  obtain b where b: "buf_ok b" "buf_pos b = buf_pos (l4_buf l)"
    "sip_line U cbh cbi ct 0 n (l, h, w) =
       sip_react U cbh cbi ct n (sip_event_of (take (unat n) (buf_contents (l4_buf l)))) (l\<lparr>l4_buf := b\<rparr>, h, w)"
    using sip_line_eq [OF _ sz, of U cbh cbi ct h w] ok by (auto simp: l4_ok_def)
  have "l4_ok adm (l\<lparr>l4_buf := b\<rparr>)" using ok b by (simp add: l4_ok_def)
  with b sz show ?thesis
    by (subst returns_ok_same_pos [of l "l\<lparr>l4_buf := b\<rparr>"]) (simp_all add: react_ok)
qed

end

sublocale sip_user_ok \<subseteq> trigger_client adm "sip_actions K U" for K
  by unfold_locales
    (auto simp: sip_actions_def returns_ok_Inr split: sip_fn.split intro: line_ok data_ok)

context sip_user_ok
begin

lemma scan_returns:
  assumes "l4_ok adm l" and "unat (buf_pos (l4_buf l)) < fuel"
  shows "\<exists>r l' h' w'. process_buffer fuel (sip_actions K U) ct (l, h, w) = Inr (r, l', h', w')
    \<and> buf_ok (l4_buf l') \<and> (r \<longrightarrow> l4_ok adm l')"
  unfolding process_buffer_def using assms by (rule loop_returns)

end

section \<open>Scanning an answer\<close>

text \<open>
  The callbacks of the example program \<open>tests/sip.cpp\<close>: print each header, print the bytes of an
  invalid one, go on. The world is the text written so far.
\<close>

definition sip_print :: "(unit, 'pl, u8 list) sip_user" where
  "sip_print =
     \<lparr>su_header = (\<lambda>u ct key val (l, h, w).
        Inr (True, l, h, w @ key @ bytes_of '': '' @ val @ [10])),
      su_data = (\<lambda>u ct off n (l, h, w).
        Inr (True, l, h, w @ bytes_of ''invalid header: '' @ [10]
          @ take (unat n) (drop off (buf_contents (l4_buf l))))),
      su_connect = (\<lambda>u ct c. Inr (False, c)),
      su_python = (\<lambda>u ct p c. Inr (NoMoreToProcess, c))\<rparr>"

interpretation sp: sip_user_ok "\<lambda>f n. True" sip_print
  by unfold_locales (simp_all add: sip_print_def returns_ok_Inr)

text \<open>The headers an answer announces, and whether the connection goes on after its lines.\<close>

fun sip_scan :: "u8 list list \<Rightarrow> bool \<times> (u8 list \<times> u8 list) list" where
  "sip_scan [] = (True, [])"
| "sip_scan (f # fs) =
     (case sip_event_of f of
        Sip_Invalid \<Rightarrow> (False, [])
      | Sip_End \<Rightarrow> (False, [])
      | Sip_Version \<Rightarrow> sip_scan fs
      | Sip_Header k v \<Rightarrow> (fst (sip_scan fs), (k, v) # snd (sip_scan fs)))"

definition sip_observes :: "('u, 'pl, 'w) sip_user \<Rightarrow> (u8 list \<Rightarrow> u8 list \<Rightarrow> 'w \<Rightarrow> 'w) \<Rightarrow> bool" where
  "sip_observes U log \<longleftrightarrow>
     (\<forall>u ct k v l h w. su_header U u ct k v (l, h, w) = Inr (True, l, h, log k v w))"

lemma sip_print_observes:
  "sip_observes sip_print (\<lambda>k v w. w @ k @ bytes_of '': '' @ v @ [10])"
  by (simp add: sip_observes_def sip_print_def)

lemma sip_round:
  assumes ok: "buf_ok (l4_buf l)"
    and t: "l4_trigger l = Char_Data_Trigger (Some (Sip_Line cbh cbi)) 10"
    and i: "find_byte 10 (buf_contents (l4_buf l)) = Some i"
  shows "\<exists>b b'. buf_ok b' \<and> buf_contents b' = drop (i + 1) (buf_contents (l4_buf l))
    \<and> buf_pop_by (of_nat (i + 1)) b = Inr b'
    \<and> trigger_process_buffer (sip_actions K U) ct 0 (l, h, w) =
        bind_res (sip_react U cbh cbi ct (of_nat i) (sip_event_of (take i (buf_contents (l4_buf l))))
          (l\<lparr>l4_buf := b\<rparr>, h, w)) (trigger_finish (of_nat (i + 1)))"
proof -
  let ?c = "buf_contents (l4_buf l)"
  have len: "length ?c = unat (buf_pos (l4_buf l))" using ok by (rule length_buf_contents)
  have lt: "i < length ?c" using i by (simp add: find_byte_Some)
  moreover have "length ?c < 1073741824" using buf_ok_pos_less [OF ok] len by simp
  ultimately have u: "unat (of_nat i :: u32) = i" "unat (of_nat (i + 1) :: u32) = i + 1"
    by (intro unat_of_nat_u32; linarith)+
  obtain b where b: "buf_ok b" "buf_pos b = buf_pos (l4_buf l)" "drop i (buf_contents b) = drop i ?c"
    "sip_line U cbh cbi ct 0 (of_nat i) (l, h, w) =
       sip_react U cbh cbi ct (of_nat i) (sip_event_of (take i ?c)) (l\<lparr>l4_buf := b\<rparr>, h, w)"
    using sip_line_eq [OF ok, of "of_nat i" U cbh cbi ct h w] u lt len by auto
  have "of_nat (i + 1) \<le> buf_pos b" using u lt len b(2) by (simp add: word_le_nat_alt del: of_nat_add)
  from buf_pop_by_spec [OF b(1) this] obtain b' where
    b': "buf_pop_by (of_nat (i + 1)) b = Inr b'" "buf_ok b'"
      "buf_contents b' = drop (unat (of_nat (i + 1) :: u32)) (buf_contents b)" by blast
  have "drop (i + 1) (buf_contents b) = drop (i + 1) ?c"
    using b(3) by (metis drop_drop add.commute)
  with b b' u t i show ?thesis
    by (intro exI [of _ b] exI [of _ b'])
      (simp add: trigger_process_buffer_def char_trigger_process_def find_byte_from_0 sip_actions_def
        del: of_nat_add)
qed

lemma sip_loop_scans:
  assumes obs: "sip_observes U log"
    and t: "l4_trigger l = Char_Data_Trigger (Some (Sip_Line (Some u) None)) 10"
  shows "buf_ok b0 \<Longrightarrow> length (buf_contents b0) < fuel \<Longrightarrow>
    \<exists>b. process_loop fuel (sip_actions K U) ct 0 (l\<lparr>l4_buf := b0\<rparr>, h, w) =
      Inr (fst (sip_scan (fst (frames (l4_trigger l) (buf_contents b0)))), l\<lparr>l4_buf := b\<rparr>, h,
           fold (\<lambda>(k, v). log k v) (snd (sip_scan (fst (frames (l4_trigger l) (buf_contents b0))))) w)"
proof (induction fuel arbitrary: b0 w)
  case (Suc fuel)
  let ?l = "l\<lparr>l4_buf := b0\<rparr>" and ?c = "buf_contents b0" and ?t = "l4_trigger l"
  show ?case
  proof (cases "find_byte 10 ?c")
    case None
    then have "next_frame ?t ?c = None" by (simp add: next_frame_def t)
    moreover have "quiescent ?l" using None t by (simp add: quiescent_def)
    ultimately show ?thesis by (auto simp: trigger_quiescent frames_None)
  next
    case (Some i)
    then have nf: "next_frame ?t ?c = Some (i, i + 1)" by (simp add: next_frame_def t)
    obtain b b' where r: "buf_ok b'" "buf_contents b' = drop (i + 1) ?c"
      "buf_pop_by (of_nat (i + 1)) b = Inr b'"
      "trigger_process_buffer (sip_actions K U) ct 0 (?l, h, w) =
        bind_res (sip_react U (Some u) None ct (of_nat i) (sip_event_of (take i ?c))
          (l\<lparr>l4_buf := b\<rparr>, h, w)) (trigger_finish (of_nat (i + 1)))"
      using sip_round [of ?l "Some u" None i K U ct h w] Suc.prems t Some by auto
    have "length (buf_contents b') < fuel" using r(2) Suc.prems Some by (auto simp: find_byte_Some)
    note IH = Suc.IH [OF r(1) this]
    show ?thesis
    proof (cases "sip_event_of (take i ?c)")
      case Sip_Version
      with IH [of w] r(2-4) nf show ?thesis
        by (auto simp: sip_react_def trigger_finish_def frames_Some [OF nf] simp del: of_nat_add)
    next
      case (Sip_Header k v)
      with IH [of "log k v w"] r(2-4) nf obs show ?thesis
        by (auto simp: sip_react_def trigger_finish_def frames_Some [OF nf] sip_observes_def
            simp del: of_nat_add)
    qed (use r(2-4) in \<open>auto simp: sip_react_def trigger_finish_def frames_Some [OF nf]\<close>)
  qed
qed simp





text \<open>
  How the value of a header is cut: the usual blank after the colon stays part of the value,
  and a value whose second byte is a blank loses its first byte.
\<close>

theorem sip_value_blank:
  assumes "58 \<notin> set key" and "v \<noteq> 32" and "a \<noteq> 0"
  shows "sip_event_of (key @ [58, 32, v] @ r @ [13]) = Sip_Header (c_str key) (c_str (32 # v # r))
    \<and> sip_event_of (key @ [58, a, 32] @ r @ [13]) = Sip_Header (c_str key) (c_str (32 # r))"
  using assms by (simp add: sip_event_of_def find_byte_append sip_skip_def butlast_append)

theorem sip_value_blank_witness:
  "sip_event_of (bytes_of ''To'' @ [58, 32, 65] @ [] @ [13]) = Sip_Header (bytes_of ''To'') [32, 65]
    \<and> sip_event_of (bytes_of ''To'' @ [58, 66, 32] @ [67] @ [13]) = Sip_Header (bytes_of ''To'') [32, 67]"
  using sip_value_blank [of "bytes_of ''To''" 65 66 "[]"] sip_value_blank [of "bytes_of ''To''" 65 66 "[67]"]
  by (simp add: bytes_of_def c_str_def)

end
