(* ===== verification/Target_Set.thy ===== *)
theory Target_Set
  imports Environment
begin

text \<open>
  Sets of targets (\<open>target_set.h\<close>, \<open>target_set.cpp\<close>): the set of explicit targets
  (\<open>SimpleTargetSet\<close>) and the wrappers \<open>RepeatableTargetSet\<close> and \<open>ReinjectableTargetSet\<close>. What a
  client of a target set relies on, that \<open>next_target\<close> hands out the pending targets one by one and
  then reports the end, is the locale \<open>target_source\<close>. The comparison key of ports (\<open>as_u32\<close>) and
  the protocol of the end target (\<open>UNSUPPORTED\<close>) belong to the library \<open>leeloo\<close> and are arguments.
\<close>

section \<open>SimpleTargetSet\<close>

text \<open>
  The \<open>std::set\<close> of targets is a sorted map from the targets' keys; an iterator into it is the key
  it points at, the end, or not yet written (there is no constructor that sets it).
\<close>

datatype 'k iterator = Unset | At 'k | At_end

record simple_set =
  sts_targets :: "(u32 \<times> u32, target) smap"
  sts_it :: "(u32 \<times> u32) iterator"

definition simple_new :: simple_set where
  "simple_new = \<lparr>sts_targets = [], sts_it = Unset\<rparr>"

text \<open>\<open>++it\<close> on an iterator at key \<open>k\<close>, and \<open>begin()\<close>.\<close>

definition it_next :: "'k::linorder \<Rightarrow> ('k, 'v) smap \<Rightarrow> 'k iterator" where
  "it_next k m = (case dropWhile (\<lambda>e. fst e \<le> k) m of [] \<Rightarrow> At_end | e # _ \<Rightarrow> At (fst e))"

definition it_begin :: "('k, 'v) smap \<Rightarrow> 'k iterator" where
  "it_begin m = (case m of [] \<Rightarrow> At_end | e # _ \<Rightarrow> At (fst e))"

definition simple_add_target :: "(port \<Rightarrow> u32) \<Rightarrow> target \<Rightarrow> simple_set \<Rightarrow> simple_set res" where
  "simple_add_target as_u32 t s =
     (let k = target_key as_u32 t;
          s1 = s\<lparr>sts_targets := smap_insert k t (sts_targets s)\<rparr>
      in case sts_it s of
           Unset \<Rightarrow> Inl Uninitialised
         | At_end \<Rightarrow> Inr (s1\<lparr>sts_it := At k\<rparr>)
         | At j \<Rightarrow> Inr s1)"

definition simple_remove_target :: "(port \<Rightarrow> u32) \<Rightarrow> target \<Rightarrow> simple_set \<Rightarrow> simple_set res" where
  "simple_remove_target as_u32 t s =
     (let k = target_key as_u32 t in
      case smap_find (sts_targets s) k of
        None \<Rightarrow> Inr s
      | Some _ \<Rightarrow>
          (case sts_it s of
             Unset \<Rightarrow> Inl Uninitialised
           | it \<Rightarrow> Inr \<lparr>sts_targets = smap_erase k (sts_targets s),
                        sts_it = (if it = At k then it_next k (sts_targets s) else it)\<rparr>))"

definition simple_init :: "simple_set \<Rightarrow> simple_set" where
  "simple_init s = s\<lparr>sts_it := it_begin (sts_targets s)\<rparr>"

definition simple_next_target :: "u16 \<Rightarrow> simple_set \<Rightarrow> (target \<times> simple_set) res" where
  "simple_next_target unsupported s =
     (case sts_it s of
        Unset \<Rightarrow> Inl Uninitialised
      | At_end \<Rightarrow> Inr (target_end unsupported, s)
      | At k \<Rightarrow>
          (case smap_find (sts_targets s) k of
             None \<Rightarrow> Inl Out_of_bounds
           | Some t \<Rightarrow> Inr (t, s\<lparr>sts_it := it_next k (sts_targets s)\<rparr>)))"

definition simple_target_finished :: "target \<Rightarrow> ('f, 'pl) host_sm \<Rightarrow> bool \<times> ('f, 'pl) host_sm" where
  "simple_target_finished t h = (True, h)"

section \<open>Wrappers\<close>

definition repeatable_next_target ::
  "('s \<Rightarrow> 's) \<Rightarrow> ('s \<Rightarrow> (target \<times> 's) res) \<Rightarrow> 's \<Rightarrow> (target \<times> 's) res" where
  "repeatable_next_target ini base_next s =
     bind_res (base_next s) (\<lambda>(ret, s1). if is_end ret then base_next (ini s1) else Inr (ret, s1))"

text \<open>The queue of \<open>ReinjectableTargetSet\<close> beside the state of its base.\<close>

definition reinjectable_add_target :: "target \<Rightarrow> target list \<times> 's \<Rightarrow> target list \<times> 's" where
  "reinjectable_add_target t s = (fst s @ [t], snd s)"

definition reinjectable_emplace_target :: "target \<Rightarrow> target list \<times> 's \<Rightarrow> target list \<times> 's" where
  "reinjectable_emplace_target t s = (fst s @ [t], snd s)"

definition reinjectable_next_target ::
  "('s \<Rightarrow> (target \<times> 's) res) \<Rightarrow> target list \<times> 's \<Rightarrow> (target \<times> target list \<times> 's) res" where
  "reinjectable_next_target base_next s =
     (case s of
        (t # q, b) \<Rightarrow> Inr (t, q, b)
      | ([], b) \<Rightarrow> bind_res (base_next b) (\<lambda>(t, b'). Inr (t, [], b')))"

section \<open>What a client relies on\<close>

text \<open>The targets handed out by \<open>n\<close> calls.\<close>

fun take_targets :: "('s \<Rightarrow> (target \<times> 's) res) \<Rightarrow> nat \<Rightarrow> 's \<Rightarrow> (target list \<times> 's) res" where
  "take_targets nx 0 s = Inr ([], s)"
| "take_targets nx (Suc n) s =
     bind_res (nx s) (\<lambda>(t, s1). bind_res (take_targets nx n s1) (\<lambda>(ts, s2). Inr (t # ts, s2)))"

lemma take_targets_add:
  "take_targets nx (m + n) s =
     bind_res (take_targets nx m s) (\<lambda>(ts, s1). bind_res (take_targets nx n s1) (\<lambda>(us, s2). Inr (ts @ us, s2)))"
proof (induction m arbitrary: s)
  case 0
  show ?case by (cases "take_targets nx n s") auto
next
  case (Suc m)
  then show ?case by (auto simp: bind_res_def split: sum.splits prod.splits)
qed

locale target_source =
  fixes nx :: "'s \<Rightarrow> (target \<times> 's) res"
    and pending :: "'s \<Rightarrow> target list"
    and ok :: "'s \<Rightarrow> bool"
  assumes next_pending: "ok s \<Longrightarrow> pending s = t # ts \<Longrightarrow>
      \<exists>s'. nx s = Inr (t, s') \<and> ok s' \<and> pending s' = ts"
    and next_exhausted: "ok s \<Longrightarrow> pending s = [] \<Longrightarrow>
      \<exists>t s'. nx s = Inr (t, s') \<and> is_end t \<and> ok s' \<and> pending s' = []"
begin

lemma take_pending:
  "ok s \<Longrightarrow> pending s = ts @ us \<Longrightarrow>
     \<exists>s'. take_targets nx (length ts) s = Inr (ts, s') \<and> ok s' \<and> pending s' = us"
proof (induction ts arbitrary: s)
  case (Cons t ts)
  then obtain s1 where s1: "nx s = Inr (t, s1)" "ok s1" "pending s1 = ts @ us"
    using next_pending [of s t "ts @ us"] by auto
  from Cons.IH [OF s1(2,3)] s1(1) show ?case by auto
qed simp

lemma take_all_then_end:
  assumes "ok s"
  shows "\<exists>s1 t s2. take_targets nx (length (pending s)) s = Inr (pending s, s1)
    \<and> nx s1 = Inr (t, s2) \<and> is_end t \<and> ok s2 \<and> pending s2 = []"
proof -
  obtain s1 where s1: "take_targets nx (length (pending s)) s = Inr (pending s, s1)" "ok s1" "pending s1 = []"
    using take_pending [OF assms, of "pending s" "[]"] by auto
  with next_exhausted [OF s1(2,3)] show ?thesis by blast
qed

end

text \<open>A reinjectable set over a source is a source: the queue comes first.\<close>

lemma reinjectable_source:
  assumes "target_source nx pending ok"
  shows "target_source (reinjectable_next_target nx) (\<lambda>(q, b). q @ pending b) (\<lambda>(q, b). ok b)"
proof -
  note laws = target_source.next_pending [OF assms] target_source.next_exhausted [OF assms]
  show ?thesis
  proof
    fix s :: "target list \<times> 'a" and t ts
    assume "case s of (q, b) \<Rightarrow> ok b" and "(case s of (q, b) \<Rightarrow> q @ pending b) = t # ts"
    then show "\<exists>s'. reinjectable_next_target nx s = Inr (t, s') \<and> (case s' of (q, b) \<Rightarrow> ok b)
        \<and> (case s' of (q, b) \<Rightarrow> q @ pending b) = ts"
      using laws(1) [of "snd s" t ts]
      by (cases s; cases "fst s") (fastforce simp: reinjectable_next_target_def)+
  next
    fix s :: "target list \<times> 'a"
    assume "case s of (q, b) \<Rightarrow> ok b" and "(case s of (q, b) \<Rightarrow> q @ pending b) = []"
    then show "\<exists>t s'. reinjectable_next_target nx s = Inr (t, s') \<and> is_end t \<and> (case s' of (q, b) \<Rightarrow> ok b)
        \<and> (case s' of (q, b) \<Rightarrow> q @ pending b) = []"
      using laws(2) [of "snd s"] by (cases s) (fastforce simp: reinjectable_next_target_def)
  qed
qed

section \<open>Iterating over a sorted map\<close>

lemma dropWhile_down:
  assumes "smap_ok m" and "\<And>a b. a < b \<Longrightarrow> P b \<Longrightarrow> P a"
  shows "dropWhile (\<lambda>e. P (fst e)) m = filter (\<lambda>e. \<not> P (fst e)) m"
  using assms(1)
proof (induction m)
  case (Cons e m)
  then have up: "\<forall>x\<in>set m. fst e < fst x" by (cases e) (auto simp: smap_ok_Cons)
  from Cons.prems have "smap_ok m" by (cases e) (simp add: smap_ok_Cons)
  have "\<not> P (fst e) \<Longrightarrow> filter (\<lambda>x. \<not> P (fst x)) m = m"
    using up assms(2) by (auto intro!: filter_True)
  with Cons.IH \<open>smap_ok m\<close> show ?case by simp
qed simp

lemma dropWhile_less: "smap_ok m \<Longrightarrow> dropWhile (\<lambda>e. fst e < k) m = filter (\<lambda>e. k \<le> fst e) m"
  by (subst dropWhile_down [where P = "\<lambda>a. a < k"]) (auto simp: not_less)

lemma dropWhile_le: "smap_ok m \<Longrightarrow> dropWhile (\<lambda>e. fst e \<le> k) m = filter (\<lambda>e. k < fst e) m"
  by (subst dropWhile_down [where P = "\<lambda>a. a \<le> k"]) (auto simp: not_le)

lemma smap_filter_from:
  assumes "smap_ok m" and "smap_find m k = Some v"
  shows "filter (\<lambda>e. k \<le> fst e) m = (k, v) # filter (\<lambda>e. k < fst e) m"
  using assms
proof (induction m)
  case (Cons e m)
  obtain a b where e: "e = (a, b)" by (cases e)
  from Cons.prems(1) have up: "\<forall>x\<in>set m. a < fst x" and ok: "smap_ok m"
    by (auto simp: e smap_ok_Cons)
  show ?case
  proof (cases "k = a")
    case True
    with up Cons.prems(2) show ?thesis by (auto simp: e filter_cong less_imp_le)
  next
    case False
    with Cons.prems(2) have f: "smap_find m k = Some v" by (simp add: e)
    then have "a < k" using up smap_find_Some_key [OF f] by auto
    with Cons.IH [OF ok f] show ?thesis by (auto simp: e)
  qed
qed simp

lemma smap_erase_filter: "smap_ok m \<Longrightarrow> smap_erase k m = filter (\<lambda>e. fst e \<noteq> k) m"
proof (induction k m rule: smap_erase.induct)
  case (2 k a b m)
  then have "k = a \<Longrightarrow> filter (\<lambda>e. fst e \<noteq> k) m = m" by (auto simp: smap_ok_Cons intro!: filter_True)
  with 2 show ?case by (auto simp: smap_ok_Cons)
qed simp

lemma it_next_gt: "smap_ok m \<Longrightarrow> it_next k m = At j \<Longrightarrow> k < j"
  by (auto simp: it_next_def dropWhile_le filter_eq_Cons_iff split: list.splits)

text \<open>The targets an iterator has still before it.\<close>

definition rest_from :: "('k::linorder, 'v) smap \<Rightarrow> 'k iterator \<Rightarrow> 'v list" where
  "rest_from m it = (case it of At k \<Rightarrow> map snd (filter (\<lambda>e. k \<le> fst e) m) | _ \<Rightarrow> [])"

definition it_ok :: "('k::linorder, 'v) smap \<Rightarrow> 'k iterator \<Rightarrow> bool" where
  "it_ok m it = (case it of Unset \<Rightarrow> False | At k \<Rightarrow> smap_find m k \<noteq> None | At_end \<Rightarrow> True)"

lemma it_next_rest:
  assumes "smap_ok m"
  shows "rest_from m (it_next k m) = map snd (filter (\<lambda>e. k < fst e) m) \<and> it_ok m (it_next k m)"
proof (cases "filter (\<lambda>e. k < fst e) m")
  case Nil
  with assms show ?thesis by (simp add: it_next_def dropWhile_le rest_from_def it_ok_def)
next
  case (Cons e es)
  then have "e \<in> set (filter (\<lambda>e. k < fst e) m)" by simp
  then have e: "e \<in> set m" "k < fst e" by simp_all
  then have "smap_find m (fst e) \<noteq> None" using smap_find_None [of m "fst e"] by auto
  moreover have "filter (\<lambda>x. fst e \<le> fst x) m = filter (\<lambda>x. k < fst x) m"
  proof -
    have "dropWhile (\<lambda>x. fst x < fst e) m = dropWhile (\<lambda>x. fst x \<le> k) m"
      using assms Cons
    proof (induction m)
      case (Cons x m)
      obtain a b where x: "x = (a, b)" by (cases x)
      from Cons.prems have ok: "smap_ok m" and up: "\<forall>y\<in>set m. a < fst y" by (auto simp: x smap_ok_Cons)
      show ?case
      proof (cases "k < a")
        case True
        with Cons.prems(2) x show ?thesis by auto
      next
        case False
        with Cons.prems(2) Cons.IH [OF ok] e(2) show ?thesis by (auto simp: x)
      qed
    qed simp
    with assms show ?thesis by (simp add: dropWhile_less dropWhile_le)
  qed
  ultimately show ?thesis
    using assms Cons by (simp add: it_next_def dropWhile_le rest_from_def it_ok_def)
qed

lemma it_begin_rest: "smap_ok m \<Longrightarrow> rest_from m (it_begin m) = map snd m \<and> it_ok m (it_begin m)"
  by (cases m) (auto simp: it_begin_def rest_from_def it_ok_def smap_ok_Cons less_imp_le intro!: filter_True)

section \<open>SimpleTargetSet hands out its targets in order\<close>

definition simple_ok :: "simple_set \<Rightarrow> bool" where
  "simple_ok s \<longleftrightarrow> smap_ok (sts_targets s) \<and> it_ok (sts_targets s) (sts_it s)"

definition simple_pending :: "simple_set \<Rightarrow> target list" where
  "simple_pending s = rest_from (sts_targets s) (sts_it s)"

lemma simple_next_pending:
  assumes "simple_ok s" and "simple_pending s = t # ts"
  shows "\<exists>s'. simple_next_target unsupported s = Inr (t, s') \<and> simple_ok s' \<and> simple_pending s' = ts
    \<and> sts_targets s' = sts_targets s"
proof (cases "sts_it s")
  case (At k)
  then obtain v where v: "smap_find (sts_targets s) k = Some v" and ok: "smap_ok (sts_targets s)"
    using assms(1) by (auto simp: simple_ok_def it_ok_def)
  have "simple_pending s = v # map snd (filter (\<lambda>e. k < fst e) (sts_targets s))"
    using At smap_filter_from [OF ok v] by (simp add: simple_pending_def rest_from_def)
  with assms(2) At v it_next_rest [OF ok, of k] ok show ?thesis
    by (simp add: simple_next_target_def simple_ok_def simple_pending_def)
qed (use assms in \<open>auto simp: simple_pending_def rest_from_def\<close>)

lemma simple_next_end:
  assumes "simple_ok s" and "simple_pending s = []"
  shows "simple_next_target unsupported s = Inr (target_end unsupported, s)"
proof (cases "sts_it s")
  case (At k)
  then obtain v where "smap_find (sts_targets s) k = Some v" "smap_ok (sts_targets s)"
    using assms(1) by (auto simp: simple_ok_def it_ok_def)
  with At assms(2) show ?thesis
    by (simp add: simple_pending_def rest_from_def smap_filter_from)
qed (use assms in \<open>auto simp: simple_next_target_def simple_ok_def it_ok_def\<close>)

interpretation st: target_source "simple_next_target unsupported" simple_pending simple_ok for unsupported
  by unfold_locales (auto dest: simple_next_pending simp: simple_next_end)

interpretation rst: target_source "reinjectable_next_target (simple_next_target unsupported)"
    "\<lambda>(q, b). q @ simple_pending b" "\<lambda>(q, b). simple_ok b" for unsupported
  by (rule reinjectable_source) (rule st.target_source_axioms)

lemma simple_init_ok:
  "smap_ok (sts_targets s) \<Longrightarrow>
     simple_ok (simple_init s) \<and> simple_pending (simple_init s) = map snd (sts_targets s)"
  using it_begin_rest [of "sts_targets s"] by (simp add: simple_init_def simple_ok_def simple_pending_def)

text \<open>Every entry is stored under its own key.\<close>

definition simple_keyed :: "(port \<Rightarrow> u32) \<Rightarrow> simple_set \<Rightarrow> bool" where
  "simple_keyed as_u32 s \<longleftrightarrow> (\<forall>e\<in>set (sts_targets s). fst e = target_key as_u32 (snd e))"

lemma set_smap_insert:
  "smap_ok m \<Longrightarrow> smap_find m k = None \<Longrightarrow> set (smap_insert k v m) = insert (k, v) (set m)"
  by (induction k v m rule: smap_insert.induct) (auto simp: smap_ok_Cons split: if_splits)

lemma smap_insert_same: "smap_ok m \<Longrightarrow> smap_find m k = Some w \<Longrightarrow> smap_insert k v m = m"
proof (induction k v m rule: smap_insert.induct)
  case (2 k v a b m)
  then have "a \<noteq> k \<Longrightarrow> k \<in> fst ` set m" by (auto dest: smap_find_Some_key split: if_splits)
  with 2 show ?case by (auto simp: smap_ok_Cons split: if_splits)
qed simp

lemma filter_smap_insert: "\<not> P (k, v) \<Longrightarrow> filter P (smap_insert k v m) = filter P m"
  by (induction k v m rule: smap_insert.induct) auto

lemma smap_find_entry: "smap_find m k = Some v \<Longrightarrow> (k, v) \<in> set m"
  by (simp add: smap_find_def map_of_SomeD)

lemma simple_add_ok:
  assumes "simple_ok s" and "simple_keyed as_u32 s" and inj: "inj as_u32"
  shows "\<exists>s'. simple_add_target as_u32 t s = Inr s' \<and> simple_ok s' \<and> simple_keyed as_u32 s'
    \<and> snd ` set (sts_targets s') = insert t (snd ` set (sts_targets s))"
proof -
  let ?k = "target_key as_u32 t" and ?m = "sts_targets s"
  have ok: "smap_ok ?m" using assms(1) by (simp add: simple_ok_def)
  have ent: "(\<forall>e\<in>set (smap_insert ?k t ?m). fst e = target_key as_u32 (snd e))
      \<and> snd ` set (smap_insert ?k t ?m) = insert t (snd ` set ?m)"
  proof (cases "smap_find ?m ?k")
    case None
    with ok assms(2) show ?thesis by (auto simp: set_smap_insert simple_keyed_def)
  next
    case (Some v)
    then have "(?k, v) \<in> set ?m" by (rule smap_find_entry)
    with assms(2) have "?k = target_key as_u32 v" by (force simp: simple_keyed_def)
    then have "v = t" using target_key_inj [OF inj] by metis
    with \<open>(?k, v) \<in> set ?m\<close> have "t \<in> snd ` set ?m" by force
    with ok Some assms(2) show ?thesis by (auto simp: smap_insert_same simple_keyed_def)
  qed
  have find: "smap_find (smap_insert ?k t ?m) j \<noteq> None" if "smap_find ?m j \<noteq> None \<or> j = ?k" for j
    using that ok by (auto simp: smap_simps)
  from assms(1) ent find ok show ?thesis
    by (cases "sts_it s") (auto simp: simple_add_target_def Let_def simple_ok_def it_ok_def simple_keyed_def
        smap_insert_ok)
qed

fun simple_add_all :: "(port \<Rightarrow> u32) \<Rightarrow> target list \<Rightarrow> simple_set \<Rightarrow> simple_set res" where
  "simple_add_all as_u32 [] s = Inr s"
| "simple_add_all as_u32 (t # ts) s = bind_res (simple_add_target as_u32 t s) (simple_add_all as_u32 ts)"

lemma simple_add_all_ok:
  "simple_ok s \<Longrightarrow> simple_keyed as_u32 s \<Longrightarrow> inj as_u32 \<Longrightarrow>
     \<exists>s'. simple_add_all as_u32 ts s = Inr s' \<and> simple_ok s' \<and> simple_keyed as_u32 s'
       \<and> snd ` set (sts_targets s') = set ts \<union> snd ` set (sts_targets s)"
proof (induction ts arbitrary: s)
  case (Cons t ts)
  from simple_add_ok [OF Cons.prems, of t] obtain s1 where
    s1: "simple_add_target as_u32 t s = Inr s1" "simple_ok s1" "simple_keyed as_u32 s1"
      "snd ` set (sts_targets s1) = insert t (snd ` set (sts_targets s))" by blast
  from Cons.IH [OF s1(2,3) Cons.prems(3)] s1(1,4) show ?case by auto
qed simp

lemma keyed_sorted:
  assumes "smap_ok m" and "\<forall>e\<in>set m. fst e = target_key as_u32 (snd e)"
  shows "sorted_wrt (target_less as_u32) (map snd m)"
proof -
  have "sorted_wrt (\<lambda>a b. fst a < fst b) m" using assms(1) by (simp add: smap_ok_def sorted_wrt_map)
  then have "sorted_wrt (\<lambda>a b. target_less as_u32 (snd a) (snd b)) m"
    by (rule sorted_wrt_mono_rel [rotated]) (use assms(2) in \<open>auto simp: target_less_key\<close>)
  then show ?thesis by (simp add: sorted_wrt_map)
qed

text \<open>
  C21. A \<open>SimpleTargetSet\<close> filled with any targets after its first \<open>init\<close> and initialised again
  hands out each of them exactly once, in the order of \<open>operator<\<close>, and then reports the end.
\<close>

theorem simple_set_enumerates:
  assumes "inj as_u32"
  shows "\<exists>s xs s1 s2. simple_add_all as_u32 ts (simple_init simple_new) = Inr s
    \<and> set xs = set ts \<and> sorted_wrt (target_less as_u32) xs
    \<and> take_targets (simple_next_target u) (length xs) (simple_init s) = Inr (xs, s1)
    \<and> simple_next_target u s1 = Inr (target_end u, s2)"
proof -
  have "simple_ok (simple_init simple_new)" "simple_keyed as_u32 (simple_init simple_new)"
    "sts_targets (simple_init simple_new) = []"
    by (simp_all add: simple_init_def simple_new_def simple_ok_def it_begin_def it_ok_def simple_keyed_def)
  from simple_add_all_ok [OF this(1,2) assms, of ts] this(3) obtain s where
    s: "simple_add_all as_u32 ts (simple_init simple_new) = Inr s" "smap_ok (sts_targets s)"
      "simple_keyed as_u32 s" "snd ` set (sts_targets s) = set ts"
    by (auto simp: simple_ok_def)
  let ?xs = "map snd (sts_targets s)"
  have init: "simple_ok (simple_init s)" "simple_pending (simple_init s) = ?xs"
    using simple_init_ok [OF s(2)] by auto
  obtain s1 where s1: "take_targets (simple_next_target u) (length ?xs) (simple_init s) = Inr (?xs, s1)"
    "simple_ok s1" "simple_pending s1 = []"
    using st.take_pending [OF init(1), of ?xs "[]"] init(2) by auto
  have "sorted_wrt (target_less as_u32) ?xs"
    using s(2,3) by (intro keyed_sorted) (simp_all add: simple_keyed_def)
  with s s1 simple_next_end [OF s1(2,3)] show ?thesis
    by (intro exI [of _ s] exI [of _ ?xs] exI [of _ s1]) auto
qed

theorem simple_set_enumerates_witness:
  "\<exists>s xs s1 s2. simple_add_all port_pack [Target 2 (Port 80 0), Target 1 (Port 80 0)] (simple_init simple_new) = Inr s
    \<and> set xs = set [Target 2 (Port 80 0), Target 1 (Port 80 0)] \<and> sorted_wrt (target_less port_pack) xs
    \<and> take_targets (simple_next_target 0) (length xs) (simple_init s) = Inr (xs, s1)
    \<and> simple_next_target 0 s1 = Inr (target_end 0, s2)"
  by (rule simple_set_enumerates) (rule port_pack_inj)

text \<open>
  Removing a target from a \<open>SimpleTargetSet\<close> while it is being walked takes it out of the
  targets still to come and leaves the others, in their order, also when the iterator is at the
  removed target.
\<close>

theorem simple_remove_keeps_others:
  assumes "simple_ok s" and "simple_keyed as_u32 s" and "inj as_u32"
  shows "\<exists>s'. simple_remove_target as_u32 t s = Inr s' \<and> simple_ok s'
    \<and> simple_pending s' = filter (\<lambda>x. x \<noteq> t) (simple_pending s)"
proof -
  let ?k = "target_key as_u32 t" and ?m = "sts_targets s"
  have ok: "smap_ok ?m" using assms(1) by (simp add: simple_ok_def)
  have ne: "snd e \<noteq> t \<longleftrightarrow> fst e \<noteq> ?k" if "e \<in> set ?m" for e
    using that assms(2) target_key_inj [OF assms(3)] by (auto simp: simple_keyed_def)
  have er: "smap_erase ?k ?m = filter (\<lambda>e. fst e \<noteq> ?k) ?m"
    using ok by (rule smap_erase_filter)
  have fil: "map snd (filter P (filter (\<lambda>e. fst e \<noteq> ?k) ?m)) = filter (\<lambda>x. x \<noteq> t) (map snd (filter P ?m))" for P
  proof -
    have "filter (\<lambda>e. fst e \<noteq> ?k \<and> P e) ?m = filter (\<lambda>e. snd e \<noteq> t \<and> P e) ?m"
      by (rule filter_cong [OF refl]) (use ne in blast)
    then show ?thesis by (simp add: filter_map comp_def conj_commute)
  qed
  show ?thesis
  proof (cases "smap_find ?m ?k")
    case None
    then have "snd e \<noteq> t" if "e \<in> set ?m" for e
      using ne [OF that] that by (force simp: smap_find_None)
    then have "t \<notin> set (simple_pending s)"
      by (auto simp: simple_pending_def rest_from_def split: iterator.splits)
    with None assms(1) show ?thesis
      by (auto simp: simple_remove_target_def Let_def intro!: filter_True [symmetric])
  next
    case (Some v)
    let ?it = "if sts_it s = At ?k then it_next ?k ?m else sts_it s"
    have it: "sts_it s \<noteq> Unset" "it_ok ?m ?it"
      using assms(1) it_next_rest [OF ok] by (auto simp: simple_ok_def it_ok_def split: iterator.splits)
    have nk: "?it \<noteq> At ?k" using it_next_gt [OF ok, of ?k ?k] by (cases "sts_it s = At ?k") auto
    then have ok': "it_ok (smap_erase ?k ?m) ?it"
      using it(2) ok by (auto simp: it_ok_def smap_simps split: iterator.splits)
    have r1: "rest_from (smap_erase ?k ?m) it = filter (\<lambda>x. x \<noteq> t) (rest_from ?m it)" for it
      unfolding er by (cases it) (simp_all add: rest_from_def fil del: filter_filter)
    have r2: "filter (\<lambda>x. x \<noteq> t) (rest_from ?m ?it) = filter (\<lambda>x. x \<noteq> t) (simple_pending s)"
    proof (cases "sts_it s = At ?k")
      case True
      have "v = t" using ne [OF smap_find_entry [OF Some]] by simp
      with True Some it_next_rest [OF ok, of ?k] show ?thesis
        by (simp add: simple_pending_def rest_from_def smap_filter_from [OF ok Some])
    qed (simp add: simple_pending_def)
    from it(1) Some ok ok' r1 r2 show ?thesis
      by (cases "sts_it s") (auto simp: simple_remove_target_def Let_def simple_ok_def simple_pending_def
          smap_erase_ok)
  qed
qed

definition sample_set :: simple_set where
  "sample_set = \<lparr>sts_targets = [((1, 80), Target 1 (Port 80 0)), ((2, 80), Target 2 (Port 80 0))], sts_it = At (1, 80)\<rparr>"

lemma sample_set_ok: "simple_ok sample_set" "simple_keyed port_pack sample_set"
  by (simp_all add: sample_set_def simple_ok_def simple_keyed_def it_ok_def smap_ok_def target_key_def port_pack_def)

theorem simple_remove_keeps_others_witness:
  "\<exists>s'. simple_remove_target port_pack (Target 1 (Port 80 0)) sample_set = Inr s' \<and> simple_ok s'
    \<and> simple_pending s' = filter (\<lambda>x. x \<noteq> Target 1 (Port 80 0)) (simple_pending sample_set)"
  by (rule simple_remove_keeps_others [OF sample_set_ok port_pack_inj])

text \<open>
  Adding a target to a \<open>SimpleTargetSet\<close> that has handed out all its targets makes pending the
  new target together with every larger target of the set, although those were handed out before;
  a new target behind the iterator of a walk in progress is never handed out in that walk.
\<close>

theorem simple_add_late:
  assumes "simple_ok s" and "smap_find (sts_targets s) (target_key as_u32 t) = None"
  shows "\<exists>s'. simple_add_target as_u32 t s = Inr s'
    \<and> (sts_it s = At_end \<longrightarrow> simple_pending s' =
         t # map snd (filter (\<lambda>e. target_key as_u32 t < fst e) (sts_targets s)))
    \<and> (\<forall>k. sts_it s = At k \<and> target_key as_u32 t < k \<longrightarrow> simple_pending s' = simple_pending s)"
proof -
  let ?k = "target_key as_u32 t" and ?m = "sts_targets s"
  have ok: "smap_ok ?m" using assms(1) by (simp add: simple_ok_def)
  note up = filter_smap_insert [of _ ?k t ?m]
  have new: "filter (\<lambda>e. ?k \<le> fst e) (smap_insert ?k t ?m) = (?k, t) # filter (\<lambda>e. ?k < fst e) ?m"
  proof -
    have "smap_find (smap_insert ?k t ?m) ?k = Some t" using ok assms(2) by (simp add: smap_simps)
    from smap_filter_from [OF smap_insert_ok [OF ok] this] up [of "\<lambda>e. ?k < fst e"] show ?thesis by simp
  qed
  have "sts_it s \<noteq> Unset" using assms(1) by (auto simp: simple_ok_def it_ok_def)
  with new up show ?thesis
    by (cases "sts_it s")
      (auto simp: simple_add_target_def Let_def simple_pending_def rest_from_def not_le)
qed

theorem simple_add_late_witness:
  "\<exists>s'. simple_add_target port_pack (Target 1 (Port 80 0))
       \<lparr>sts_targets = [((2, 80), Target 2 (Port 80 0))], sts_it = At_end\<rparr> = Inr s'
     \<and> simple_pending s' = [Target 1 (Port 80 0), Target 2 (Port 80 0)]"
  using simple_add_late [of "\<lparr>sts_targets = [((2, 80), Target 2 (Port 80 0))], sts_it = At_end\<rparr>"
      port_pack "Target 1 (Port 80 0)"]
  by (auto simp: simple_ok_def it_ok_def smap_ok_def target_key_def less_prod_def)

text \<open>
  A \<open>ReinjectableTargetSet\<close> over a \<open>SimpleTargetSet\<close> hands out the targets added to its queue
  first, in the order they were added, then the pending targets of the set, then the end.
\<close>

theorem reinjected_first:
  assumes "simple_ok s"
  shows "\<exists>s1 t s2. take_targets (reinjectable_next_target (simple_next_target u))
      (length qs + length (simple_pending s)) (fold reinjectable_add_target qs ([], s))
      = Inr (qs @ simple_pending s, s1)
    \<and> reinjectable_next_target (simple_next_target u) s1 = Inr (t, s2) \<and> is_end t"
proof -
  have "fold reinjectable_add_target qs (q, s) = (q @ qs, s)" for q
    by (induction qs arbitrary: q) (auto simp: reinjectable_add_target_def)
  with rst.take_all_then_end [of "(qs, s)" u] assms show ?thesis by auto
qed

theorem reinjected_first_witness:
  "\<exists>s1 t s2. take_targets (reinjectable_next_target (simple_next_target 0))
      (length [Target 9 (Port 1 0)] + length (simple_pending sample_set))
      (fold reinjectable_add_target [Target 9 (Port 1 0)] ([], sample_set))
      = Inr ([Target 9 (Port 1 0)] @ simple_pending sample_set, s1)
    \<and> reinjectable_next_target (simple_next_target 0) s1 = Inr (t, s2) \<and> is_end t"
  by (rule reinjected_first) (rule sample_set_ok)

section \<open>RepeatableTargetSet\<close>

text \<open>A source that \<open>init\<close> takes back to its first target.\<close>

locale restartable_source = target_source nx pending ok
  for nx :: "'s \<Rightarrow> (target \<times> 's) res" and pending ok +
  fixes ini :: "'s \<Rightarrow> 's" and all_targets :: "target list"
  assumes restart: "ok s \<Longrightarrow> ok (ini s) \<and> pending (ini s) = all_targets"
begin

lemma repeat_takes:
  assumes "\<forall>t\<in>set ts. \<not> is_end t"
  shows "ok s \<Longrightarrow> pending s = ts \<Longrightarrow>
    \<exists>s'. take_targets (repeatable_next_target ini nx) (length ts) s = Inr (ts, s') \<and> ok s' \<and> pending s' = []"
  using assms
proof (induction ts arbitrary: s)
  case (Cons t ts)
  then obtain s1 where s1: "nx s = Inr (t, s1)" "ok s1" "pending s1 = ts"
    using next_pending [of s t ts] by auto
  from Cons.IH [OF s1(2,3)] Cons.prems(3) s1(1) show ?case
    by (auto simp: repeatable_next_target_def)
qed simp

lemma repeat_wraps:
  assumes "ok s" and "pending s = []" and "all_targets \<noteq> []" and "\<forall>t\<in>set all_targets. \<not> is_end t"
  shows "\<exists>s1. ok s1 \<and> pending s1 = all_targets
    \<and> repeatable_next_target ini nx s = repeatable_next_target ini nx s1"
proof -
  obtain t s0 where s0: "nx s = Inr (t, s0)" "is_end t" "ok s0" using next_exhausted [OF assms(1,2)] by blast
  let ?s1 = "ini s0"
  have s1: "ok ?s1" "pending ?s1 = all_targets" using restart [OF s0(3)] by auto
  obtain a as where all: "all_targets = a # as" using assms(3) by (cases all_targets) auto
  with next_pending [OF s1(1), of a as] s1(2) assms(4) s0 show ?thesis
    by (intro exI [of _ ?s1]) (auto simp: repeatable_next_target_def s1)
qed

lemma repeat_cycles:
  assumes "all_targets \<noteq> []" and ends: "\<forall>t\<in>set all_targets. \<not> is_end t"
  shows "ok s \<Longrightarrow> pending s = all_targets \<or> pending s = [] \<Longrightarrow>
    \<exists>s'. take_targets (repeatable_next_target ini nx) (n * length all_targets) s
      = Inr (concat (replicate n all_targets), s')"
proof (induction n arbitrary: s)
  case (Suc n)
  have "\<exists>s1. take_targets (repeatable_next_target ini nx) (length all_targets) s = Inr (all_targets, s1)
      \<and> ok s1 \<and> pending s1 = []"
  proof (cases "pending s = []")
    case True
    from repeat_wraps [OF Suc.prems(1) True assms] obtain s1 where
      s1: "ok s1" "pending s1 = all_targets"
        "repeatable_next_target ini nx s = repeatable_next_target ini nx s1" by blast
    with repeat_takes [OF ends s1(1,2)] assms(1) show ?thesis by (cases all_targets) auto
  next
    case False
    with Suc.prems repeat_takes [OF ends Suc.prems(1)] show ?thesis by auto
  qed
  then obtain s1 where "take_targets (repeatable_next_target ini nx) (length all_targets) s = Inr (all_targets, s1)"
    "ok s1" "pending s1 = []" by blast
  with Suc.IH [of s1] show ?case by (auto simp: take_targets_add)
qed simp

end

interpretation ss: restartable_source "simple_next_target u" simple_pending
    "\<lambda>s. simple_ok s \<and> sts_targets s = m" simple_init "map snd m" for u m
proof
  fix s t ts assume "simple_ok s \<and> sts_targets s = m" "simple_pending s = t # ts"
  then show "\<exists>s'. simple_next_target u s = Inr (t, s') \<and> (simple_ok s' \<and> sts_targets s' = m) \<and> simple_pending s' = ts"
    using simple_next_pending by fastforce
next
  fix s assume "simple_ok s \<and> sts_targets s = m" "simple_pending s = []"
  then show "\<exists>t s'. simple_next_target u s = Inr (t, s') \<and> is_end t \<and> (simple_ok s' \<and> sts_targets s' = m) \<and> simple_pending s' = []"
    by (simp add: simple_next_end)
next
  fix s assume "simple_ok s \<and> sts_targets s = m"
  then show "(simple_ok (simple_init s) \<and> sts_targets (simple_init s) = m) \<and> simple_pending (simple_init s) = map snd m"
    using simple_init_ok [of s] by (auto simp: simple_ok_def simple_init_def)
qed

text \<open>
  A \<open>RepeatableTargetSet\<close> over a \<open>SimpleTargetSet\<close> with at least one target never reports the
  end: it hands out the whole set in order, over and over.
\<close>

theorem repeatable_cycles:
  assumes "smap_ok (sts_targets s)" and "sts_targets s \<noteq> []" and "\<forall>e\<in>set (sts_targets s). \<not> is_end (snd e)"
  shows "\<exists>s'. take_targets (repeatable_next_target simple_init (simple_next_target u))
      (n * length (sts_targets s)) (simple_init s)
    = Inr (concat (replicate n (map snd (sts_targets s))), s')"
proof -
  have "simple_ok (simple_init s)" "simple_pending (simple_init s) = map snd (sts_targets s)"
    using simple_init_ok [OF assms(1)] by auto
  then show ?thesis
    using ss.repeat_cycles [of "sts_targets s" "simple_init s" u n] assms(2,3) by (simp add: simple_init_def)
qed

theorem repeatable_cycles_witness:
  "\<exists>s'. take_targets (repeatable_next_target simple_init (simple_next_target 0))
      (3 * length (sts_targets sample_set)) (simple_init sample_set)
    = Inr (concat (replicate 3 (map snd (sts_targets sample_set))), s')"
  by (rule repeatable_cycles) (simp_all add: sample_set_def smap_ok_def is_end_def)

end
