(* ===== verification/Scripted_Net.thy ===== *)
theory Scripted_Net
  imports Engine_Liveness Engine_Account SIP Target_Set
begin

text \<open>
  Environments in which all the laws of \<open>engine_env\<close>, \<open>live_env\<close> and \<open>account_env\<close> hold: a kernel that keeps
  a table of descriptors and connects them to servers which send a fixed answer and hang up, the SIP
  scanner of \<open>SIP\<close> with callbacks that print, and a target set. What the engine relies on of the set
  is the locale \<open>scan_source\<close>; the set of explicit targets of \<open>Target_Set\<close> provides it here, the
  product of addresses and ports in \<open>IPV4_Scan\<close>.
\<close>

section \<open>The world\<close>

text \<open>
  A descriptor: the events it is watched for, the number of bytes announced so far, and the bytes
  the peer has sent and the program has not read yet.
\<close>

type_synonym net_fd = "nat option \<times> 30 word \<times> u8 list"

record 'ts net =
  net_clock :: nat
  net_table :: "(int \<times> net_fd) list"
  net_sent :: "(int \<times> u8 list) list"
  net_log :: "u8 list"
  net_done :: "(target \<times> int) list"
  net_targets :: 'ts

definition net_get :: "int \<Rightarrow> 'ts net \<Rightarrow> net_fd option" where
  "net_get s w = map_of (net_table w) s"

definition net_set :: "int \<Rightarrow> net_fd \<Rightarrow> 'ts net \<Rightarrow> 'ts net" where
  "net_set s d w = w\<lparr>net_table := (s, d) # filter (\<lambda>e. fst e \<noteq> s) (net_table w)\<rparr>"

definition net_fds :: "'ts net \<Rightarrow> fd_table" where
  "net_fds w s = map_option (\<lambda>(m, r, p). (m, unat r)) (net_get s w)"

lemma map_of_filter_out: "map_of (filter (\<lambda>e. fst e \<noteq> s) xs) j = (if j = s then None else map_of xs j)"
  by (induction xs) auto

lemma net_get_set: "net_get j (net_set s d w) = (if j = s then Some d else net_get j w)"
  by (simp add: net_get_def net_set_def map_of_filter_out)

section \<open>The kernel\<close>

definition net_socket :: "'ts net \<Rightarrow> (int \<times> int) \<times> 'ts net" where
  "net_socket w = (let s = fold max (map fst (net_table w)) 2 + 1 in ((s, 0), net_set s (None, 0, []) w))"

definition net_connect :: "(u32 \<Rightarrow> u8 list) \<Rightarrow> int \<Rightarrow> sockaddr_in \<Rightarrow> 'ts net \<Rightarrow> (int \<times> int) \<times> 'ts net" where
  "net_connect answers s a w =
     (case net_get s w of
        None \<Rightarrow> ((-1, EBADF), w)
      | Some (m, r, p) \<Rightarrow>
          ((-1, EINPROGRESS),
           net_set s (m, r, answers (case sin_addr a of (b0, b1, b2, b3) \<Rightarrow> ntohl b0 b1 b2 b3)) w))"

definition net_close :: "int \<Rightarrow> 'ts net \<Rightarrow> 'ts net" where
  "net_close s w = w\<lparr>net_table := filter (\<lambda>e. fst e \<noteq> s) (net_table w)\<rparr>"

definition net_epoll_add :: "int \<Rightarrow> nat \<Rightarrow> 'ts net \<Rightarrow> 'ts net" where
  "net_epoll_add s m w = (case net_get s w of Some (None, r, p) \<Rightarrow> net_set s (Some m, r, p) w | _ \<Rightarrow> w)"

definition net_epoll_del :: "int \<Rightarrow> 'ts net \<Rightarrow> 'ts net" where
  "net_epoll_del s w = (case net_get s w of Some (Some m, r, p) \<Rightarrow> net_set s (None, r, p) w | _ \<Rightarrow> w)"

text \<open>Every watched descriptor is ready for what it is watched for; a wait takes one second.\<close>

definition net_ready :: "'ts net \<Rightarrow> (int \<times> nat) list" where
  "net_ready w = concat (map (\<lambda>s. case net_get s w of Some (Some m, r, p) \<Rightarrow> if m \<in> {EPOLLIN, EPOLLOUT} then [(s, m)] else [] | _ \<Rightarrow> [])
     (remdups (map fst (net_table w))))"

definition net_epoll_wait :: "nat \<Rightarrow> 'ts net \<Rightarrow> (int \<times> nat) list option \<times> 'ts net" where
  "net_epoll_wait n w = (Some (take n (net_ready w)), w\<lparr>net_clock := net_clock w + 1\<rparr>)"

definition net_fionread :: "int \<Rightarrow> 'ts net \<Rightarrow> u32 \<times> 'ts net" where
  "net_fionread s w =
     (case net_get s w of
        None \<Rightarrow> (0, w)
      | Some (m, r, p) \<Rightarrow>
          let k = nat (min (int (length p)) (2 ^ 30 - 1 - uint r))
          in (of_nat k, net_set s (m, r + of_nat k, p) w))"

definition net_read :: "int \<Rightarrow> u32 \<Rightarrow> 'ts net \<Rightarrow> u8 list option \<times> 'ts net" where
  "net_read s k w =
     (case net_get s w of
        None \<Rightarrow> (None, w)
      | Some (m, r, p) \<Rightarrow> (Some (take (unat k) p), net_set s (m, r, drop (unat k) p) w))"

definition net_kernel :: "(u32 \<Rightarrow> u8 list) \<Rightarrow> 'ts net os" where
  "net_kernel answers =
     \<lparr>os_time = (\<lambda>w. int (net_clock w)), os_junk = (\<lambda>w _. 0), os_socket = (\<lambda>_ _. net_socket),
      os_connect = net_connect answers, os_close = net_close, os_epoll_create = (\<lambda>w. w),
      os_epoll_add = net_epoll_add, os_epoll_del = net_epoll_del, os_epoll_wait = net_epoll_wait,
      os_fionread = net_fionread, os_so_error = (\<lambda>_ w. (0, w)), os_read = net_read,
      os_write = (\<lambda>s bs w. (int (length bs), w\<lparr>net_sent := net_sent w @ [(s, bs)]\<rparr>)),
      os_getpeername = (\<lambda>_ w. None),
      os_sa_junk = (\<lambda>w. \<lparr>sin_family = 0, sin_addr = (0, 0, 0, 0), sin_port = (0, 0)\<rparr>),
      os_so_type = (\<lambda>_ w. 1), os_so_protocol = (\<lambda>_ w. 6)\<rparr>"

section \<open>Laws of the kernel\<close>

lemma net_fds_set: "net_fds (net_set s (m, r, p) w) = (net_fds w)(s \<mapsto> (m, unat r))"
  by (auto simp: net_fds_def net_get_set fun_eq_iff)

lemma net_fds_fields [simp]:
  "net_fds (w\<lparr>net_clock := c\<rparr>) = net_fds w" "net_fds (w\<lparr>net_sent := ss\<rparr>) = net_fds w"
  "net_fds (w\<lparr>net_log := lg\<rparr>) = net_fds w" "net_fds (w\<lparr>net_done := ds\<rparr>) = net_fds w"
  "net_fds (w\<lparr>net_targets := ts\<rparr>) = net_fds w"
  by (simp_all add: net_fds_def net_get_def fun_eq_iff)

lemma net_fds_None: "net_fds w s = None \<longleftrightarrow> net_get s w = None"
  by (simp add: net_fds_def)

lemma net_fds_same: "net_get s w = Some (m, r, p) \<Longrightarrow> (net_fds w)(s \<mapsto> (m, unat r)) = net_fds w"
  by (auto simp: net_fds_def fun_eq_iff)

lemma fold_max_ge: "(x :: int) \<in> set xs \<Longrightarrow> x \<le> fold max xs a"
  "a \<le> fold max xs (a :: int)"
  by (simp_all add: Max.set_eq_fold [symmetric])

lemma net_socket_law:
  assumes "net_socket w = ((s, err), w')"
  shows "s \<noteq> -1 \<and> net_fds w s = None \<and> net_fds w' = (net_fds w)(s \<mapsto> (None, 0))"
proof -
  have s: "s = fold max (map fst (net_table w)) 2 + 1" "w' = net_set s (None, 0, []) w"
    using assms by (auto simp: net_socket_def Let_def)
  have "s \<notin> set (map fst (net_table w))" using fold_max_ge(1) [of s "map fst (net_table w)" 2] s(1) by auto
  then have "net_get s w = None" by (simp add: net_get_def map_of_eq_None_iff)
  moreover have "s \<noteq> -1" using fold_max_ge(2) [of 2 "map fst (net_table w)"] s(1) by linarith
  ultimately show ?thesis using s(2) by (simp add: net_fds_set net_fds_None)
qed

lemma net_close_law: "net_fds (net_close s w) = (net_fds w)(s := None)"
  by (auto simp: net_fds_def net_get_def net_close_def fun_eq_iff map_of_filter_out)

lemma net_add_law: "net_fds (net_epoll_add s m w) =
    (case net_fds w s of Some (None, r) \<Rightarrow> (net_fds w)(s \<mapsto> (Some m, r)) | _ \<Rightarrow> net_fds w)"
  by (auto simp: net_epoll_add_def net_fds_set net_fds_def [of w s] split: option.splits)

lemma net_del_law: "net_fds (net_epoll_del s w) =
    (case net_fds w s of Some (Some m, r) \<Rightarrow> (net_fds w)(s \<mapsto> (None, r)) | _ \<Rightarrow> net_fds w)"
  by (auto simp: net_epoll_del_def net_fds_set net_fds_def [of w s] split: option.splits)

lemma net_ready_watched: "(s, m) \<in> set (net_ready w) \<Longrightarrow> m \<in> {EPOLLIN, EPOLLOUT} \<and> (\<exists>r. net_fds w s = Some (Some m, r))"
  by (auto simp: net_ready_def net_fds_def split: option.splits if_splits) (metis (no_types))+

lemma map_fst_ready: "map fst (net_ready w) =
    filter (\<lambda>s. \<exists>m r p. net_get s w = Some (Some m, r, p) \<and> m \<in> {EPOLLIN, EPOLLOUT}) (remdups (map fst (net_table w)))"
proof -
  have "map fst (concat (map (\<lambda>s. case net_get s w of Some (Some m, r, p) \<Rightarrow> if m \<in> {EPOLLIN, EPOLLOUT} then [(s, m)] else [] | _ \<Rightarrow> []) xs)) =
      filter (\<lambda>s. \<exists>m r p. net_get s w = Some (Some m, r, p) \<and> m \<in> {EPOLLIN, EPOLLOUT}) xs" for xs
    by (induction xs) (auto split: option.splits)
  then show ?thesis by (simp add: net_ready_def)
qed

lemma net_ready_distinct: "distinct (map fst (take n (net_ready w)))"
  by (simp add: take_map [symmetric] map_fst_ready distinct_take)

lemma net_wait_law:
  assumes "net_epoll_wait n w = (evs, w')"
  shows "net_fds w' = net_fds w \<and> (case evs of None \<Rightarrow> True | Some es \<Rightarrow> distinct (map fst es)
    \<and> (\<forall>(s, ev)\<in>set es. \<exists>m r. net_fds w s = Some (Some m, r) \<and> (ev AND EPOLLOUT = EPOLLOUT \<longrightarrow> m = EPOLLOUT)
         \<and> (ev AND EPOLLIN = EPOLLIN \<longrightarrow> ev AND EPOLLOUT \<noteq> EPOLLOUT \<longrightarrow> m = EPOLLIN)))"
proof -
  have es: "evs = Some (take n (net_ready w))" "net_fds w' = net_fds w" using assms by (auto simp: net_epoll_wait_def)
  have "\<exists>m r. net_fds w s = Some (Some m, r) \<and> (ev AND EPOLLOUT = EPOLLOUT \<longrightarrow> m = EPOLLOUT)
         \<and> (ev AND EPOLLIN = EPOLLIN \<longrightarrow> ev AND EPOLLOUT \<noteq> EPOLLOUT \<longrightarrow> m = EPOLLIN)"
    if "(s, ev) \<in> set (take n (net_ready w))" for s ev
    using net_ready_watched [OF in_set_takeD [OF that]] by (auto simp: EPOLLIN_def EPOLLOUT_def)
  with es net_ready_distinct show ?thesis by auto
qed

lemma net_fionread_law:
  assumes "net_fionread s w = (k, w')" and "net_fds w s = Some (mo, rx)"
  shows "net_fds w' = (net_fds w)(s \<mapsto> (mo, rx + unat k)) \<and> rx + unat k < 2 ^ 30"
proof -
  obtain r p where g: "net_get s w = Some (mo, r, p)" "rx = unat r"
    using assms(2) by (auto simp: net_fds_def)
  let ?k = "min (length p) (2 ^ 30 - 1 - unat r)"
  have r: "unat r < 2 ^ 30" using unsigned_less [of r] by simp
  then have "2 ^ 30 - 1 - uint r = int (2 ^ 30 - 1 - unat r)" by (simp add: of_nat_diff)
  then have "nat (min (int (length p)) (2 ^ 30 - 1 - uint r)) = ?k" by (metis nat_int of_nat_min)
  then have eq: "k = of_nat ?k" "w' = net_set s (mo, r + of_nat ?k, p) w"
    using assms(1) g(1) by (auto simp: net_fionread_def Let_def)
  have "unat r + ?k < 2 ^ 30" using r min.cobounded2 [of "length p" "2 ^ 30 - 1 - unat r"] by linarith
  moreover from this have "unat (of_nat ?k :: u32) = ?k" "unat (r + of_nat ?k) = unat r + ?k"
    by (simp_all add: unat_of_nat unat_word_ariths)
  ultimately show ?thesis unfolding eq g(2) by (simp add: net_fds_set)
qed

lemma net_read_law:
  assumes "net_read s k w = (bs, w')"
  shows "net_fds w' = net_fds w \<and> (case bs of None \<Rightarrow> True | Some xs \<Rightarrow> length xs \<le> unat k)"
  using assms by (auto simp: net_read_def net_fds_set net_fds_same split: option.splits)

lemma net_connect_law: "net_fds (snd (net_connect answers s a w)) = net_fds w"
  by (auto simp: net_connect_def net_fds_set net_fds_same split: option.splits)

section \<open>The target set\<close>

text \<open>
  The interface between the engine and a target set: \<open>nx\<close>, \<open>fn\<close> and \<open>ih\<close> are \<open>next_target\<close>,
  \<open>target_finished\<close> and \<open>init_host_sm\<close> on the state of the set, and \<open>todo\<close> is what it has still to hand
  out. The set never blocks, hands out the targets of \<open>todo\<close> one by one and then the end, and
  neither finishing a target nor initialising a host changes what is still to come.
\<close>

locale scan_source =
  fixes nx :: "'ts \<Rightarrow> (target option \<times> 'ts) res"
    and fn :: "target \<Rightarrow> (unit sip_fn, 'pl) host_sm \<times> 'ts \<Rightarrow> (bool \<times> (unit sip_fn, 'pl) host_sm \<times> 'ts) res"
    and ih :: "target \<Rightarrow> (unit sip_fn, 'pl) host_sm \<times> 'ts \<Rightarrow> (unit sip_fn, 'pl) host_sm \<times> 'ts"
    and todo :: "'ts \<Rightarrow> target list"
  assumes source_next: "\<exists>t s'. nx s = Inr (Some t, s') \<and>
      (if is_end t then todo s = [] \<and> todo s' = [] else todo s = t # todo s')"
    and source_finished: "\<exists>d h' s'. fn t (h, s) = Inr (d, h', s') \<and> todo s' = todo s"
    and source_init_host: "todo (snd (ih t (h, s))) = todo s"

text \<open>A \<open>SimpleTargetSet\<close> of real targets after its \<open>init\<close>: the iterator is valid.\<close>

definition ready_ok :: "simple_set \<Rightarrow> bool" where
  "ready_ok s \<longleftrightarrow> simple_ok s \<and> (\<forall>e\<in>set (sts_targets s). \<not> is_end (snd e))"

typedef ready_set = "{s. ready_ok s}"
  by (intro exI [of _ "simple_init simple_new"]) (auto simp: ready_ok_def simple_init_ok simple_new_def simple_init_def simple_ok_def it_ok_def it_begin_def)

definition ready_next :: "ready_set \<Rightarrow> (target option \<times> ready_set) res" where
  "ready_next s = bind_res (simple_next_target 0 (Rep_ready_set s)) (\<lambda>(t, s'). Inr (Some t, Abs_ready_set s'))"

definition ready_todo :: "ready_set \<Rightarrow> target list" where
  "ready_todo s = simple_pending (Rep_ready_set s)"

lemma pending_entries: "set (simple_pending s) \<subseteq> snd ` set (sts_targets s)"
  by (auto simp: simple_pending_def rest_from_def split: iterator.splits)

lemma ready_next_law:
  "\<exists>t s'. ready_next s = Inr (Some t, s') \<and>
     (if is_end t then ready_todo s = [] \<and> ready_todo s' = [] else ready_todo s = t # ready_todo s')"
proof -
  have ok: "simple_ok (Rep_ready_set s)" "ready_ok (Rep_ready_set s)" using Rep_ready_set by (simp_all add: ready_ok_def)
  have rep: "Rep_ready_set (Abs_ready_set r) = r" if "ready_ok r" for r
    using that by (simp add: Abs_ready_set_inverse)
  show ?thesis
  proof (cases "simple_pending (Rep_ready_set s)")
    case Nil
    with simple_next_end [OF ok(1) Nil, of 0] ok(2) show ?thesis
      by (auto simp: ready_next_def ready_todo_def rep is_end_target_end)
  next
    case (Cons t ts)
    then have "\<not> is_end t" using pending_entries [of "Rep_ready_set s"] ok(2) by (auto simp: ready_ok_def)
    with simple_next_pending [OF ok(1) Cons, of 0] ok(2) show ?thesis
      by (auto simp: ready_next_def ready_todo_def Cons rep ready_ok_def)
  qed
qed

definition ready_finished :: "target \<Rightarrow> ('f, 'pl) host_sm \<times> 's \<Rightarrow> (bool \<times> ('f, 'pl) host_sm \<times> 's) res" where
  "ready_finished t c = (case simple_target_finished t (fst c) of (d, h') \<Rightarrow> Inr (d, h', snd c))"

interpretation rs: scan_source ready_next ready_finished "\<lambda>t c. c" ready_todo
  by unfold_locales (auto simp: ready_next_law ready_finished_def simple_target_finished_def)

section \<open>The program's callbacks\<close>

text \<open>The printing callbacks of \<open>SIP\<close>, writing to the log of the world.\<close>

definition net_print :: "(unit, 'pl, 'ts net) sip_user" where
  "net_print =
     \<lparr>su_header = (\<lambda>u ct key val (l, h, w).
        Inr (True, l, h, w\<lparr>net_log := net_log w @ key @ bytes_of '': '' @ val @ [10]\<rparr>)),
      su_data = (\<lambda>u ct off n (l, h, w).
        Inr (True, l, h, w\<lparr>net_log := net_log w @ take (unat n) (drop off (buf_contents (l4_buf l)))\<rparr>)),
      su_connect = (\<lambda>u ct c. Inr (False, c)),
      su_python = (\<lambda>u ct p c. Inr (NoMoreToProcess, c))\<rparr>"

interpretation np: sip_user_ok "\<lambda>f n. True" net_print
  by unfold_locales (simp_all add: net_print_def returns_ok_Inr)

text \<open>Results that leave the flags of the connection and the descriptors alone.\<close>

definition keeps :: "'f lvl4_sm \<Rightarrow> 'ts net \<Rightarrow> (bool \<times> ('f, 'pl, 'ts net) conn) res \<Rightarrow> bool" where
  "keeps l w res \<longleftrightarrow> (\<forall>go l' h' w'. res = Inr (go, l', h', w') \<longrightarrow>
     sm_valid l' = sm_valid l \<and> l4_reconnect l' = l4_reconnect l \<and> net_fds w' = net_fds w)"

lemma keeps_Inr: "sm_valid l' = sm_valid l \<Longrightarrow> l4_reconnect l' = l4_reconnect l \<Longrightarrow> net_fds w' = net_fds w \<Longrightarrow>
    keeps l w (Inr (go, l', h', w'))"
  by (simp add: keeps_def)

lemma keeps_bind: "(\<And>x. keeps l w (f x)) \<Longrightarrow> keeps l w (bind_res m f)"
  by (cases m) (simp_all add: keeps_def)

lemma keeps_call_cb: "(\<And>u. keeps l w (g u)) \<Longrightarrow> keeps l w (Inr (d, c)) \<Longrightarrow> keeps l w (call_cb d cb g c)"
  by (cases cb) (simp_all add: call_cb_def)

lemma net_user_keeps:
  "keeps l w (su_header net_print u ct key val (l\<lparr>l4_buf := b\<rparr>, h, w))"
  "keeps l w (su_data net_print u ct off n (l\<lparr>l4_buf := b\<rparr>, h, w))"
  "keeps l w (su_data net_print u ct off n (l, h, w))"
  "keeps l w (Inr (go, l\<lparr>l4_buf := b\<rparr>, h, w))" "keeps l w (Inr (go, l, h, w))"
  by (simp_all add: net_print_def keeps_Inr)

lemma net_header_keeps: "keeps l w (sip_header net_print cbh ct off d (l\<lparr>l4_buf := b\<rparr>, h, w))"
  unfolding sip_header_def Let_def prod.case lvl4_sm.update_convs lvl4_sm.select_convs
  by (intro keeps_bind keeps_call_cb) (simp_all add: net_print_def keeps_Inr)

lemma net_line_keeps: "keeps l w (sip_line net_print cbh cbi ct off n (l, h, w))"
  unfolding sip_line_def Let_def prod.case
  by (auto intro!: keeps_bind keeps_call_cb net_header_keeps simp: net_user_keeps split: option.splits)

lemma net_data_keeps: "keeps l w (act_data (sip_actions K net_print) f ct off n (l, h, w))"
  by (cases f) (simp_all add: sip_actions_def net_line_keeps net_user_keeps)

text \<open>The environment, for any target set given by its operations and any kind of port list.\<close>

definition net_env_with ::
  "'pl port_list_ops \<Rightarrow> ('ts \<Rightarrow> (target option \<times> 'ts) res) \<Rightarrow> ('ts \<Rightarrow> 'ts)
     \<Rightarrow> (target \<Rightarrow> (unit sip_fn, 'pl) host_sm \<times> 'ts \<Rightarrow> (bool \<times> (unit sip_fn, 'pl) host_sm \<times> 'ts) res)
     \<Rightarrow> (target \<Rightarrow> (unit sip_fn, 'pl) host_sm \<times> 'ts \<Rightarrow> (unit sip_fn, 'pl) host_sm \<times> 'ts)
     \<Rightarrow> (u32 \<Rightarrow> u8 list) \<Rightarrow> (unit sip_fn, 'pl, 'ts net) env"
where
  "net_env_with L nx ini fn ih answers =
     \<lparr>kernel = net_kernel answers, actions_of = sip_actions (net_kernel answers) net_print,
      port_ops = L, port_socket_type = (\<lambda>p. 1), port_socket_proto = (\<lambda>p. 6),
      protocol_from_socket_type = (\<lambda>ty pr. 6),
      ts_init = (\<lambda>w. Inr (w\<lparr>net_targets := ini (net_targets w)\<rparr>)),
      ts_next_target = (\<lambda>w. bind_res (nx (net_targets w)) (\<lambda>(t, s). Inr (t, w\<lparr>net_targets := s\<rparr>))),
      ts_target_finished = (\<lambda>t (h, w). bind_res (fn t (h, net_targets w)) (\<lambda>(d, h', s). Inr (d, h', w\<lparr>net_targets := s\<rparr>))),
      ts_init_host_sm = (\<lambda>t (h, w). case ih t (h, net_targets w) of (h', s) \<Rightarrow> (h', w\<lparr>net_targets := s\<rparr>)),
      ts_save_state = (\<lambda>f w. Inr w), ts_restore_state = (\<lambda>f w. Inr w),
      call_finish = (\<lambda>f t b err w. Inr (w\<lparr>net_done := net_done w @ [(t, err)]\<rparr>)),
      call_status = (\<lambda>f nl nd w. Inr w), call_watch_timeout = (\<lambda>f ct w. Inr (True, w)),
      call_timeout_target = (\<lambda>f t w. Inr (5, w))\<rparr>"

lemma net_env_sel:
  "kernel (net_env_with L nx ini fn ih answers) = net_kernel answers"
  "actions_of (net_env_with L nx ini fn ih answers) = sip_actions (net_kernel answers) net_print"
  by (simp_all add: net_env_with_def)

lemma net_connected_law:
  assumes "l4_ok (\<lambda>f n. True) l"
  shows "returns_ok (\<lambda>f n. True) l (act_connect (sip_actions (net_kernel answers) net_print) f ct (l, h, w))
    \<and> keeps l w (act_connect (sip_actions (net_kernel answers) net_print) f ct (l, h, w))"
  using assms
  by (cases f) (simp_all add: sip_actions_def sip_connect_def ct_send_def net_kernel_def net_print_def keeps_Inr
      returns_ok_def l4_ok_def progressing_def set_trigger_def Let_def)

lemma net_kernel_sel:
  "os_socket (net_kernel answers) ty pr = net_socket" "os_connect (net_kernel answers) = net_connect answers"
  "os_close (net_kernel answers) = net_close" "os_epoll_create (net_kernel answers) w = w"
  "os_epoll_add (net_kernel answers) = net_epoll_add" "os_epoll_del (net_kernel answers) = net_epoll_del"
  "os_epoll_wait (net_kernel answers) = net_epoll_wait" "os_fionread (net_kernel answers) = net_fionread"
  "os_so_error (net_kernel answers) s w = (0, w)" "os_read (net_kernel answers) = net_read"
  by (simp_all add: net_kernel_def)

lemma net_call_sel:
  "ts_save_state (net_env_with L nx ini fn ih answers) file w = Inr w"
  "call_finish (net_env_with L nx ini fn ih answers) f t b i w = Inr (w\<lparr>net_done := net_done w @ [(t, i)]\<rparr>)"
  "call_status (net_env_with L nx ini fn ih answers) f nl nd w = Inr w"
  "call_watch_timeout (net_env_with L nx ini fn ih answers) f ct w = Inr (True, w)"
  "call_timeout_target (net_env_with L nx ini fn ih answers) f t w = Inr (5, w)"
  by (simp_all add: net_env_with_def)

lemmas net_laws = net_socket_law net_close_law net_add_law net_del_law net_fionread_law net_read_law
  net_connect_law net_wait_law

context scan_source
begin

lemma source_calls:
  "\<exists>nt w'. ts_next_target (net_env_with L nx ini fn ih answers) w = Inr (nt, w') \<and> net_fds w' = net_fds w"
  "\<exists>d h' w'. ts_target_finished (net_env_with L nx ini fn ih answers) t (h, w) = Inr (d, h', w') \<and> net_fds w' = net_fds w"
  "net_fds (snd (ts_init_host_sm (net_env_with L nx ini fn ih answers) t (h, w))) = net_fds w"
  using source_next [of "net_targets w"] source_finished [of t h "net_targets w"]
  by (auto simp: net_env_with_def net_fds_same split: prod.split)

lemma source_engine_env: "engine_env (\<lambda>f n. True) (net_env_with L nx ini fn ih answers) net_fds (2 ^ 30)"
proof (rule engine_env.intro)
  show "trigger_client (\<lambda>f n. True) (actions_of (net_env_with L nx ini fn ih answers))"
    unfolding net_env_sel by (rule np.trigger_client_axioms)
  show "engine_env_axioms (\<lambda>f n. True) (net_env_with L nx ini fn ih answers) net_fds (2 ^ 30)"
  proof (unfold_locales, unfold net_env_sel)
    show "sm_valid l' = sm_valid l \<and> l4_reconnect l' = l4_reconnect l \<and> net_fds w' = net_fds w"
      if "act_data (sip_actions (net_kernel answers) net_print) f ct 0 k (l, h, w) = Inr (go, l', h', w')"
      for f ct k l h w go l' h' w'
      using net_data_keeps that unfolding keeps_def by blast
    show "returns_ok (\<lambda>f n. True) l (act_connect (sip_actions (net_kernel answers) net_print) f ct (l, h, w))
      \<and> (\<forall>r l' h' w'. act_connect (sip_actions (net_kernel answers) net_print) f ct (l, h, w) = Inr (r, l', h', w') \<longrightarrow>
           sm_valid l' = sm_valid l \<and> l4_reconnect l' = l4_reconnect l \<and> net_fds w' = net_fds w)"
      if "l4_ok (\<lambda>f n. True) l" for l f ct h w
      using net_connected_law [OF that] unfolding keeps_def by blast
  qed (((unfold net_kernel_sel net_call_sel)?, (rule net_laws; assumption | rule source_calls | fastforce simp: net_fds_same))+)
qed

end

section \<open>The laws of \<open>observer\<close>, \<open>live_env\<close> and \<open>account_env\<close>\<close>

text \<open>The part of the world that neither the sockets nor the scanner's callbacks touch.\<close>

definition net_vis :: "'ts net \<Rightarrow> 'ts \<times> (target \<times> int) list \<times> nat" where
  "net_vis w = (net_targets w, net_done w, net_clock w)"

lemma net_vis_simps [simp]:
  "net_vis (net_set s d w) = net_vis w" "net_vis (w\<lparr>net_sent := ss\<rparr>) = net_vis w"
  "net_vis (w\<lparr>net_log := lg\<rparr>) = net_vis w" "net_vis (net_close s w) = net_vis w"
  "net_vis (net_epoll_add s m w) = net_vis w" "net_vis (net_epoll_del s w) = net_vis w"
  by (auto simp: net_vis_def net_set_def net_close_def net_epoll_add_def net_epoll_del_def split: option.splits)

lemma net_call_vis:
  "net_socket w = (r, w') \<Longrightarrow> net_vis w' = net_vis w"
  "net_connect answers s a w = (r, w') \<Longrightarrow> net_vis w' = net_vis w"
  "net_fionread s w = (k, w') \<Longrightarrow> net_vis w' = net_vis w"
  "net_read s k w = (bs, w') \<Longrightarrow> net_vis w' = net_vis w"
  by (auto simp: net_socket_def net_connect_def net_fionread_def net_read_def Let_def split: option.splits)

definition keeps_vis :: "'ts net \<Rightarrow> (bool \<times> ('f, 'pl, 'ts net) conn) res \<Rightarrow> bool" where
  "keeps_vis w res \<longleftrightarrow> (\<forall>go l' h' w'. res = Inr (go, l', h', w') \<longrightarrow> net_vis w' = net_vis w)"

lemma keeps_vis_Inr: "net_vis w' = net_vis w \<Longrightarrow> keeps_vis w (Inr (go, l', h', w'))"
  by (simp add: keeps_vis_def)

lemma keeps_vis_bind: "(\<And>x. keeps_vis w (f x)) \<Longrightarrow> keeps_vis w (bind_res m f)"
  by (cases m) (simp_all add: keeps_vis_def)

lemma keeps_vis_call_cb:
  "(\<And>u. keeps_vis w (g u)) \<Longrightarrow> keeps_vis w (Inr (d, c)) \<Longrightarrow> keeps_vis w (call_cb d cb g c)"
  by (cases cb) (simp_all add: call_cb_def)

lemma net_user_vis:
  "keeps_vis w (su_header net_print u ct key val (l, h, w))" "keeps_vis w (su_data net_print u ct off n (l, h, w))"
  "keeps_vis w (Inr (go, l, h, w))"
  by (simp_all add: net_print_def keeps_vis_Inr)

lemma net_line_vis: "keeps_vis w (sip_line net_print cbh cbi ct off n (l, h, w))"
  unfolding sip_line_def sip_header_def Let_def prod.case
  by (auto intro!: keeps_vis_bind keeps_vis_call_cb simp: net_user_vis split: option.splits)

lemma net_action_vis:
  "keeps_vis w (act_data (sip_actions K net_print) f ct off n (l, h, w))"
  "keeps_vis w (act_connect (sip_actions (net_kernel answers) net_print) f ct (l, h, w))"
  by (cases f; simp add: sip_actions_def net_line_vis net_user_vis)
    (cases f; simp add: sip_actions_def sip_connect_def ct_send_def net_kernel_def net_print_def Let_def keeps_vis_Inr)

text \<open>The targets to come, those reported and the number of waits.\<close>

definition net_todo :: "('ts \<Rightarrow> target list) \<Rightarrow> 'ts net \<Rightarrow> target list" where
  "net_todo todo w = todo (net_targets w)"

definition net_fin :: "'ts net \<Rightarrow> target list" where
  "net_fin w = map fst (net_done w)"

definition net_cnt :: "('ts \<Rightarrow> target list) \<Rightarrow> 'ts net \<Rightarrow> nat \<times> nat" where
  "net_cnt todo w = (length (net_todo todo w), net_clock w)"

definition net_sum :: "('ts \<Rightarrow> target list) \<Rightarrow> 'ts net \<Rightarrow> target list \<times> target list \<times> nat" where
  "net_sum todo w = (net_todo todo w, net_fin w, net_clock w)"

lemma net_vis_sum: "net_vis w' = net_vis w \<Longrightarrow> net_sum todo w' = net_sum todo w"
  by (simp add: net_vis_def net_sum_def net_todo_def net_fin_def)

context scan_source
begin

lemma source_sum:
  "ts_target_finished (net_env_with L nx ini fn ih answers) t (h, w) = Inr (d, h', w') \<Longrightarrow> net_sum todo w' = net_sum todo w"
  "ts_init_host_sm (net_env_with L nx ini fn ih answers) t (h, w) = (h', w') \<Longrightarrow> net_sum todo w' = net_sum todo w"
  using source_finished [of t h "net_targets w"] source_init_host [of t h "net_targets w"]
  by (auto simp: net_env_with_def net_sum_def net_todo_def net_fin_def split: prod.splits)

lemma source_observer: "observer (net_env_with L nx ini fn ih answers) (net_sum todo)"
proof (unfold_locales, unfold net_env_sel)
  show "net_sum todo w' = net_sum todo w"
    if "act_data (sip_actions (net_kernel answers) net_print) f ct off sz (l, h, w) = Inr (ret, l', h', w')"
    for f ct off sz l h w ret l' h' w' using net_action_vis(1) that net_vis_sum unfolding keeps_vis_def by blast
  show "net_sum todo w' = net_sum todo w"
    if "act_connect (sip_actions (net_kernel answers) net_print) f ct (l, h, w) = Inr (ret, l', h', w')"
    for f ct l h w ret l' h' w' using net_action_vis(2) that net_vis_sum unfolding keeps_vis_def by blast
  show "net_sum todo w' = net_sum todo w"
    if "act_python (sip_actions (net_kernel answers) net_print) f ct p (l, h, w) = Inr (c, l', h', w')"
    for f ct p l h w c l' h' w' using that by (cases f) (simp_all add: sip_actions_def net_print_def)
qed (((unfold net_kernel_sel net_call_sel)?, (erule source_sum | erule net_vis_sum [OF net_call_vis(1)] |
      erule net_vis_sum [OF net_call_vis(2)] | erule net_vis_sum [OF net_call_vis(3)] | erule net_vis_sum [OF net_call_vis(4)] |
      rule net_vis_sum; simp | fastforce))+)

lemma source_next_world:
  assumes "ts_next_target (net_env_with L nx ini fn ih answers) w = Inr (nt, w')"
  shows "\<exists>t. nt = Some t \<and> net_fin w' = net_fin w \<and> net_clock w' = net_clock w \<and>
    (if is_end t then net_todo todo w = [] \<and> net_todo todo w' = [] else net_todo todo w = t # net_todo todo w')"
proof -
  obtain t s' where t: "nx (net_targets w) = Inr (Some t, s')"
    "if is_end t then todo (net_targets w) = [] \<and> todo s' = [] else todo (net_targets w) = t # todo s'"
    using source_next by blast
  with assms show ?thesis by (intro exI [of _ t]) (auto simp: net_env_with_def net_todo_def net_fin_def)
qed

lemma source_live_env: "live_env (\<lambda>f n. True) (net_env_with L nx ini fn ih answers) net_fds (2 ^ 30) (net_cnt todo) 1"
proof (rule live_env.intro [OF source_engine_env])
  show "observer (net_env_with L nx ini fn ih answers) (net_cnt todo)"
    using observer_map [OF source_observer, where h = "\<lambda>(ts, d, c). (length ts, c)"]
    by (simp add: net_sum_def net_cnt_def [abs_def])
  show "live_env_axioms (net_env_with L nx ini fn ih answers) (net_cnt todo) 1"
  proof (unfold_locales, unfold net_env_sel)
    show "snd (net_cnt todo w') = snd (net_cnt todo w) \<and> (\<exists>t. nt = Some t \<and>
        (if is_end t then fst (net_cnt todo w') \<le> fst (net_cnt todo w) else fst (net_cnt todo w') < fst (net_cnt todo w)))"
      if "ts_next_target (net_env_with L nx ini fn ih answers) w = Inr (nt, w')" for w nt w'
      using source_next_world [OF that] by (auto simp: net_cnt_def)
    show "int (snd (net_cnt todo w)) \<le> int 1 * os_time (net_kernel answers) w" for w
      by (simp add: net_kernel_def net_cnt_def)
    show "evs \<noteq> None \<and> net_cnt todo w' = (fst (net_cnt todo w), snd (net_cnt todo w) + 1)"
      if "os_epoll_wait (net_kernel answers) n w = (evs, w')" for n w evs w'
      using that by (auto simp: net_kernel_sel net_epoll_wait_def net_cnt_def net_todo_def)
  qed (auto simp: net_call_sel net_cnt_def net_todo_def)
qed

lemma source_account_env:
  "account_env (\<lambda>f n. True) (net_env_with L nx ini fn ih answers) net_fds (2 ^ 30) (net_todo todo) net_fin"
proof (rule account_env.intro [OF source_engine_env])
  show "observer (net_env_with L nx ini fn ih answers) (\<lambda>w. (net_todo todo w, net_fin w))"
    using observer_map [OF source_observer, where h = "\<lambda>(ts, d, c). (ts, d)"] by (simp add: net_sum_def)
  show "account_env_axioms (net_env_with L nx ini fn ih answers) (net_todo todo) net_fin"
  proof (unfold_locales, unfold net_env_sel)
    show "net_todo todo w' = net_todo todo w \<and> net_fin w' = net_fin w"
      if "os_epoll_wait (net_kernel answers) n w = (evs, w')" for n w evs w'
      using that by (auto simp: net_kernel_sel net_epoll_wait_def net_todo_def net_fin_def)
    show "net_fin w' = net_fin w \<and> (case nt of None \<Rightarrow> net_todo todo w' = net_todo todo w
        | Some t \<Rightarrow> if is_end t then net_todo todo w = [] \<and> net_todo todo w' = [] else net_todo todo w = t # net_todo todo w')"
      if "ts_next_target (net_env_with L nx ini fn ih answers) w = Inr (nt, w')" for w nt w'
      using source_next_world [OF that] by auto
  qed (auto simp: net_call_sel net_todo_def net_fin_def)
qed

end

section \<open>The explicit targets\<close>

definition net_env :: "(u32 \<Rightarrow> u8 list) \<Rightarrow> (unit sip_fn, unit, ready_set net) env" where
  "net_env = net_env_with unit_ports ready_next (\<lambda>s. Abs_ready_set (simple_init (Rep_ready_set s))) ready_finished (\<lambda>t c. c)"

lemma net_engine_env: "engine_env (\<lambda>f n. True) (net_env answers) net_fds (2 ^ 30)"
  unfolding net_env_def by (rule rs.source_engine_env)

lemma net_live_env: "live_env (\<lambda>f n. True) (net_env answers) net_fds (2 ^ 30) (net_cnt ready_todo) 1"
  unfolding net_env_def by (rule rs.source_live_env)

lemma net_account_env: "account_env (\<lambda>f n. True) (net_env answers) net_fds (2 ^ 30) (net_todo ready_todo) net_fin"
  unfolding net_env_def by (rule rs.source_account_env)

interpretation net: engine_env "\<lambda>f n. True" "net_env answers" net_fds "2 ^ 30" for answers
  by (rule net_engine_env)

interpretation nl: live_env "\<lambda>f n. True" "net_env answers" net_fds "2 ^ 30" "net_cnt ready_todo" 1 for answers
  by (rule net_live_env)

interpretation na: account_env "\<lambda>f n. True" "net_env answers" net_fds "2 ^ 30" "net_todo ready_todo" net_fin for answers
  by (rule net_account_env)

end
