(* ===== verification/IPV4_Target_Set.thy ===== *)
theory IPV4_Target_Set
  imports Target_Set "HOL-Library.Multiset"
begin

text \<open>
  The product of an address list and a port list in random order (\<open>IPV4TargetSet\<close> in
  \<open>target_set.h\<close> and \<open>target_set.cpp\<close>). The lists of intervals and the generators of random
  permutations belong to the library \<open>leeloo\<close>: their operations are the record \<open>leeloo\<close>, and what
  is relied on of them is \<open>permuting\<close> and \<open>counting\<close>. \<open>Target_State\<close> adds saving and restoring.
\<close>

section \<open>The set\<close>

text \<open>
  \<open>il\<close> is the type of \<open>ip_list_intervals\<close>, \<open>ql\<close> of \<open>port_list_intervals\<close>; \<open>v4_*\<close> belongs to
  \<open>list_intervals_random_promise\<close> on the addresses, \<open>rp_*\<close> to \<open>list_intervals_random\<close> on the ports.
  An initialisation draws from a generator of random numbers of type \<open>'g\<close>.
\<close>

record ('il, 'ql, 'v, 'p, 'g) leeloo =
  il_aggregate :: "'il \<Rightarrow> 'il"
  il_create_index_cache :: "nat \<Rightarrow> 'il \<Rightarrow> 'il"
  ql_aggregate :: "'ql \<Rightarrow> 'ql"
  ql_create_index_cache :: "nat \<Rightarrow> 'ql \<Rightarrow> 'ql"
  v4_new :: 'v
  v4_init :: "'il \<Rightarrow> 'g \<Rightarrow> 'v \<times> 'g"
  v4_end :: "'v \<Rightarrow> bool"
  v4_next :: "'v \<Rightarrow> 'v"
  v4_get_current :: "'il \<Rightarrow> 'v \<Rightarrow> u32"
  v4_get_current_step :: "'v \<Rightarrow> u32"
  v4_step_done :: "u32 \<Rightarrow> 'v \<Rightarrow> 'v"
  rp_new :: 'p
  rp_init :: "'ql \<Rightarrow> 'g \<Rightarrow> 'p \<times> 'g"
  rp_end :: "'p \<Rightarrow> bool"
  rp_draw :: "'ql \<Rightarrow> 'p \<Rightarrow> port \<times> 'p"
  rp_size_original :: "'p \<Rightarrow> u32"

text \<open>
  The members of the set. The two lists are references to objects of the caller: their current
  contents are fields here. So are the two global generators of random numbers.
\<close>

record ('il, 'ql, 'v, 'p, 'g) ipv4_set =
  ips_list :: 'il
  ports_list :: 'ql
  rand_v4 :: 'v
  rand_port :: 'p
  mt_rand_ips :: 'g
  mt_rand_ports :: 'g

definition ipv4_new ::
  "('il, 'ql, 'v, 'p, 'g) leeloo \<Rightarrow> 'il \<Rightarrow> 'ql \<Rightarrow> 'g \<Rightarrow> 'g \<Rightarrow> ('il, 'ql, 'v, 'p, 'g) ipv4_set" where
  "ipv4_new G ipv4s ports gi gp =
     \<lparr>ips_list = ipv4s, ports_list = ports, rand_v4 = v4_new G, rand_port = rp_new G, mt_rand_ips = gi,
      mt_rand_ports = gp\<rparr>"

definition ipv4_init ::
  "('il, 'ql, 'v, 'p, 'g) leeloo \<Rightarrow> ('il, 'ql, 'v, 'p, 'g) ipv4_set \<Rightarrow> ('il, 'ql, 'v, 'p, 'g) ipv4_set" where
  "ipv4_init G s =
     (let ips1 = il_aggregate G (ips_list s);
          ports1 = ql_aggregate G (ports_list s);
          ips2 = il_create_index_cache G 256 ips1;
          ports2 = ql_create_index_cache G 16 ports1;
          (v, gi) = v4_init G ips2 (mt_rand_ips s);
          (p, gp) = rp_init G ports2 (mt_rand_ports s)
      in \<lparr>ips_list = ips2, ports_list = ports2, rand_v4 = v, rand_port = p, mt_rand_ips = gi, mt_rand_ports = gp\<rparr>)"

definition ipv4_init_shrd ::
  "u32 \<Rightarrow> u32 \<Rightarrow> ('il, 'ql, 'v, 'p, 'g) ipv4_set \<Rightarrow> ('il, 'ql, 'v, 'p, 'g) ipv4_set" where
  "ipv4_init_shrd shrd_idx shrd_count s = s"

definition ipv4_next_target ::
  "u16 \<Rightarrow> ('il, 'ql, 'v, 'p, 'g) leeloo \<Rightarrow> ('il, 'ql, 'v, 'p, 'g) ipv4_set
     \<Rightarrow> target \<times> ('il, 'ql, 'v, 'p, 'g) ipv4_set" where
  "ipv4_next_target unsupported G s =
     (let s1 = (if rp_end G (rand_port s)
                then (let (p, g) = rp_init G (ports_list s) (mt_rand_ports s)
                      in s\<lparr>rand_v4 := v4_next G (rand_v4 s), rand_port := p, mt_rand_ports := g\<rparr>)
                else s)
      in if v4_end G (rand_v4 s1) then (target_end unsupported, s1)
         else let ip = v4_get_current G (ips_list s1) (rand_v4 s1);
                  (port, p) = rp_draw G (ports_list s1) (rand_port s1)
              in (Target ip port, s1\<lparr>rand_port := p\<rparr>))"

definition ipv4_ports_count ::
  "('il, 'ql, 'v, 'p, 'g) leeloo \<Rightarrow> ('il, 'ql, 'v, 'p, 'g) ipv4_set \<Rightarrow> u32" where
  "ipv4_ports_count G s = rp_size_original G (rand_port s)"

definition ipv4_target_finished ::
  "'pl port_list_ops \<Rightarrow> ('il, 'ql, 'v, 'p, 'g) leeloo \<Rightarrow> target
     \<Rightarrow> ('f, 'pl) host_sm \<times> ('il, 'ql, 'v, 'p, 'g) ipv4_set
     \<Rightarrow> (bool \<times> ('f, 'pl) host_sm \<times> ('il, 'ql, 'v, 'p, 'g) ipv4_set) res" where
  "ipv4_target_finished L G t c =
     (case c of (h, s) \<Rightarrow>
        let h1 = host_port_done L (tport t) h
        in if host_ports_done_count L h1 = ipv4_ports_count G s
           then bind_res (host_rand_idx_ip h1)
                  (\<lambda>i. Inr (True, h1, s\<lparr>rand_v4 := v4_step_done G i (rand_v4 s)\<rparr>))
           else Inr (False, h1, s))"

definition ipv4_init_host_sm ::
  "('il, 'ql, 'v, 'p, 'g) leeloo \<Rightarrow> target \<Rightarrow> ('f, 'pl) host_sm \<times> ('il, 'ql, 'v, 'p, 'g) ipv4_set
     \<Rightarrow> ('f, 'pl) host_sm \<times> ('il, 'ql, 'v, 'p, 'g) ipv4_set" where
  "ipv4_init_host_sm G t c =
     (case c of (h, s) \<Rightarrow> (host_set_rand_idx_ip (v4_get_current_step G (rand_v4 s)) h, s))"

section \<open>What is relied on of the generators\<close>

text \<open>
  \<open>addrs\<close> and \<open>ports\<close> read off the elements of a list, \<open>vl\<close> and \<open>pl\<close> the elements a generator on a
  list has still before it. Aggregating a list removes duplicates and nothing else, an index cache
  changes no element, an initialised generator walks through a permutation of its list, and drawing a
  port does not change the size of the list a generator was made for.
\<close>

definition list_laws ::
  "('il, 'ql, 'v, 'p, 'g) leeloo \<Rightarrow> ('il \<Rightarrow> u32 list) \<Rightarrow> ('ql \<Rightarrow> port list) \<Rightarrow> bool"
where
  "list_laws G addrs ports \<longleftrightarrow>
     (\<forall>l. set (addrs (il_aggregate G l)) = set (addrs l) \<and> distinct (addrs (il_aggregate G l)))
     \<and> (\<forall>n l. addrs (il_create_index_cache G n l) = addrs l)
     \<and> (\<forall>l. set (ports (ql_aggregate G l)) = set (ports l) \<and> distinct (ports (ql_aggregate G l)))
     \<and> (\<forall>n l. ports (ql_create_index_cache G n l) = ports l)"

definition permuting ::
  "('il, 'ql, 'v, 'p, 'g) leeloo \<Rightarrow> ('il \<Rightarrow> u32 list) \<Rightarrow> ('ql \<Rightarrow> port list)
     \<Rightarrow> ('il \<Rightarrow> 'v \<Rightarrow> u32 list) \<Rightarrow> ('ql \<Rightarrow> 'p \<Rightarrow> port list) \<Rightarrow> bool"
where
  "permuting G addrs ports vl pl \<longleftrightarrow>
     (\<forall>l g. mset (vl l (fst (v4_init G l g))) = mset (addrs l))
     \<and> (\<forall>l v. v4_end G v \<longleftrightarrow> vl l v = [])
     \<and> (\<forall>l v. vl l (v4_next G v) = tl (vl l v))
     \<and> (\<forall>l v. vl l v \<noteq> [] \<longrightarrow> v4_get_current G l v = hd (vl l v))
     \<and> (\<forall>l g. mset (pl l (fst (rp_init G l g))) = mset (ports l))
     \<and> (\<forall>l p. rp_end G p \<longleftrightarrow> pl l p = [])
     \<and> (\<forall>l p. pl l p \<noteq> [] \<longrightarrow> fst (rp_draw G l p) = hd (pl l p) \<and> pl l (snd (rp_draw G l p)) = tl (pl l p))
     \<and> (\<forall>l p. rp_size_original G (snd (rp_draw G l p)) = rp_size_original G p)"

text \<open>
  The targets a set has still to hand out, up to the order in which it will draw the ports of the
  addresses to come.
\<close>

definition product_targets :: "u32 list \<Rightarrow> port list \<Rightarrow> target list" where
  "product_targets ips ps = map (\<lambda>(i, p). Target i p) (List.product ips ps)"

definition left_after :: "u32 list \<Rightarrow> port list \<Rightarrow> port list \<Rightarrow> target list" where
  "left_after ips now ps = (case ips of [] \<Rightarrow> [] | ip # rest \<Rightarrow> map (Target ip) now @ product_targets rest ps)"

lemma product_targets_simps [simp]:
  "product_targets [] ps = []"
  "product_targets (i # is) ps = map (Target i) ps @ product_targets is ps"
  by (simp_all add: product_targets_def comp_def)

lemma length_product_targets [simp]: "length (product_targets is ps) = length is * length ps"
  by (simp add: product_targets_def)

lemma set_product_targets: "set (product_targets is ps) = {Target i p | i p. i \<in> set is \<and> p \<in> set ps}"
  by (force simp: product_targets_def)

lemma distinct_product_targets: "distinct is \<Longrightarrow> distinct ps \<Longrightarrow> distinct (product_targets is ps)"
  unfolding product_targets_def by (auto simp: distinct_map distinct_product intro: inj_onI)

lemma mset_product_targets: "mset is = mset js \<Longrightarrow> mset (product_targets is ps) = mset (product_targets js ps)"
proof -
  have sum: "mset (product_targets is ps) = (\<Sum>i\<in>#mset is. mset (map (Target i) ps))" for "is"
    by (induction "is") simp_all
  show "mset is = mset js \<Longrightarrow> mset (product_targets is ps) = mset (product_targets js ps)" unfolding sum by simp
qed

section \<open>What the set hands out\<close>

definition ipv4_source :: "u16 \<Rightarrow> ('il, 'ql, 'v, 'p, 'g) leeloo \<Rightarrow> ('il, 'ql, 'v, 'p, 'g) ipv4_set
    \<Rightarrow> (target \<times> ('il, 'ql, 'v, 'p, 'g) ipv4_set) res" where
  "ipv4_source u G s = Inr (ipv4_next_target u G s)"

lemma permuting_step:
  assumes "permuting G addrs ports vl pl"
  shows "vl l v = i # is \<Longrightarrow> \<not> v4_end G v \<and> v4_get_current G l v = i"
    and "pl k q = p # ps \<Longrightarrow> \<not> rp_end G q \<and> fst (rp_draw G k q) = p \<and> pl k (snd (rp_draw G k q)) = ps"
    and "rp_size_original G (snd (rp_draw G k q)) = rp_size_original G q"
  using assms unfolding permuting_def by (metis list.distinct(1) list.sel(1,3))+

lemma ipv4_one_address:
  assumes "permuting G addrs ports vl pl" and "vl (ips_list s) (rand_v4 s) = ip # rest"
  shows "pl (ports_list s) (rand_port s) = ps \<Longrightarrow>
    \<exists>s'. take_targets (ipv4_source u G) (length ps) s = Inr (map (Target ip) ps, s')
      \<and> pl (ports_list s') (rand_port s') = [] \<and> rand_v4 s' = rand_v4 s
      \<and> ips_list s' = ips_list s \<and> ports_list s' = ports_list s \<and> ipv4_ports_count G s' = ipv4_ports_count G s"
  using assms(2)
proof (induction ps arbitrary: s)
  case (Cons p ps)
  let ?s1 = "s\<lparr>rand_port := snd (rp_draw G (ports_list s) (rand_port s))\<rparr>"
  have "ipv4_source u G s = Inr (Target ip p, ?s1)" "pl (ports_list ?s1) (rand_port ?s1) = ps"
    "ipv4_ports_count G ?s1 = ipv4_ports_count G s"
    using permuting_step [OF assms(1)] Cons.prems
    by (simp_all add: ipv4_source_def ipv4_next_target_def split_def ipv4_ports_count_def)
  with Cons.IH [of ?s1] Cons.prems(2) show ?case by auto
qed simp

lemma ipv4_next_address:
  assumes "permuting G addrs ports vl pl" and "ports (ports_list s) \<noteq> []" and "pl (ports_list s) (rand_port s) = []"
  shows "\<exists>s1. ipv4_source u G s = ipv4_source u G s1 \<and> ips_list s1 = ips_list s \<and> ports_list s1 = ports_list s
    \<and> mset (pl (ports_list s) (rand_port s1)) = mset (ports (ports_list s))
    \<and> vl (ips_list s) (rand_v4 s1) = tl (vl (ips_list s) (rand_v4 s))"
proof -
  obtain p g where pg: "rp_init G (ports_list s) (mt_rand_ports s) = (p, g)" by fastforce
  let ?s1 = "s\<lparr>rand_v4 := v4_next G (rand_v4 s), rand_port := p, mt_rand_ports := g\<rparr>"
  have m: "mset (pl (ports_list s) p) = mset (ports (ports_list s))"
    using assms(1) pg unfolding permuting_def by (metis fst_conv)
  then have "pl (ports_list s) p \<noteq> []" using assms(2) by auto
  with assms(1,3) pg have "\<not> rp_end G p" "rp_end G (rand_port s)" by (auto simp: permuting_def)
  then have "ipv4_source u G s = ipv4_source u G ?s1" using pg by (simp add: ipv4_source_def ipv4_next_target_def)
  with m assms(1) show ?thesis by (intro exI [of _ ?s1]) (simp add: permuting_def)
qed

text \<open>
  A set hands out exactly what it has left, then the end. The port generator may have been
  exhausted when the count starts.
\<close>

lemma ipv4_walk:
  assumes perm: "permuting G addrs ports vl pl"
  shows "vl (ips_list s) (rand_v4 s) = is \<Longrightarrow> ports (ports_list s) = ps \<Longrightarrow> ps \<noteq> [] \<Longrightarrow>
    \<exists>ts s'. take_targets (ipv4_source u G) (length (left_after is (pl (ports_list s) (rand_port s)) ps)) s = Inr (ts, s')
      \<and> mset ts = mset (left_after is (pl (ports_list s) (rand_port s)) ps)
      \<and> (\<forall>i js. is = i # js \<longrightarrow> (\<exists>us. ts = map (Target i) (pl (ports_list s) (rand_port s)) @ us))
      \<and> is_end (fst (ipv4_next_target u G s'))"
proof (induction "is" arbitrary: s)
  case Nil
  then have "v4_end G (rand_v4 s)" "v4_end G (v4_next G (rand_v4 s))"
    using perm unfolding permuting_def by (metis tl_Nil)+
  then have "is_end (fst (ipv4_next_target u G s))"
    by (auto simp: ipv4_next_target_def Let_def split: prod.split)
  then show ?case by (simp add: left_after_def)
next
  case (Cons i "is")
  let ?now = "pl (ports_list s) (rand_port s)"
  obtain s1 where s1: "take_targets (ipv4_source u G) (length ?now) s = Inr (map (Target i) ?now, s1)"
    "pl (ports_list s1) (rand_port s1) = []" "vl (ips_list s1) (rand_v4 s1) = i # is"
    "ips_list s1 = ips_list s" "ports_list s1 = ports_list s"
    using ipv4_one_address [OF perm Cons.prems(1) refl, of u] Cons.prems(1) by auto
  obtain s2 where s2: "ipv4_source u G s1 = ipv4_source u G s2" "mset (pl (ports_list s) (rand_port s2)) = mset ps"
    "vl (ips_list s2) (rand_v4 s2) = is" "ports_list s2 = ports_list s"
    using ipv4_next_address [OF perm, of s1 u] s1(2-5) Cons.prems(2,3) by auto
  let ?now2 = "pl (ports_list s2) (rand_port s2)" and ?n = "length is * length ps"
  have len2: "length ?now2 = length ps" using s2(2,4) by (metis size_mset)
  then have left2: "length (left_after is ?now2 ps) = ?n"
    "mset (left_after is ?now2 ps) = mset (product_targets is ps)"
    using s2(2,4) by (auto simp: left_after_def mset_map split: list.split)
  obtain ts s' where ts: "take_targets (ipv4_source u G) ?n s2 = Inr (ts, s')"
    "mset ts = mset (product_targets is ps)" "is_end (fst (ipv4_next_target u G s'))"
    using Cons.IH [OF s2(3), unfolded left2] s2(4) Cons.prems(2,3) by auto
  have left: "left_after (i # is) ?now ps = map (Target i) ?now @ product_targets is ps" by (simp add: left_after_def)
  show ?case
  proof (cases "is")
    case Nil
    with s2(1) ts have "is_end (fst (ipv4_next_target u G s1))" by (auto simp: ipv4_source_def)
    with Nil s1(1) show ?thesis by (simp add: left_after_def)
  next
    case (Cons j js)
    then have "take_targets (ipv4_source u G) ?n s1 = take_targets (ipv4_source u G) ?n s2"
      using s2(1) \<open>ps \<noteq> []\<close> by (cases ?n) auto
    with s1(1) ts show ?thesis by (simp add: left take_targets_add)
  qed
qed

lemma ipv4_init_covers:
  assumes laws: "list_laws G addrs ports" and perm: "permuting G addrs ports vl pl" and "ports (ports_list s) \<noteq> []"
  shows "\<exists>n ts s'. take_targets (ipv4_source u G) n (ipv4_init G s) = Inr (ts, s') \<and> distinct ts
      \<and> set ts = {Target i p | i p. i \<in> set (addrs (ips_list s)) \<and> p \<in> set (ports (ports_list s))}
      \<and> is_end (fst (ipv4_next_target u G s'))"
proof -
  let ?s = "ipv4_init G s"
  let ?is = "addrs (ips_list ?s)" and ?ps = "ports (ports_list ?s)"
  let ?v = "vl (ips_list ?s) (rand_v4 ?s)" and ?now = "pl (ports_list ?s) (rand_port ?s)"
  have lists: "set ?is = set (addrs (ips_list s))" "distinct ?is" "set ?ps = set (ports (ports_list s))" "distinct ?ps"
    using laws by (simp_all add: ipv4_init_def list_laws_def Let_def split_def)
  have m: "mset ?v = mset ?is" "mset ?now = mset ?ps"
    using perm by (simp_all add: ipv4_init_def permuting_def Let_def split_def)
  have "mset (left_after ?v ?now ?ps) = mset (product_targets ?v ?ps)"
    using m(2) by (auto simp: left_after_def mset_map split: list.split)
  also have "\<dots> = mset (product_targets ?is ?ps)" using m(1) by (rule mset_product_targets)
  finally have left: "mset (left_after ?v ?now ?ps) = mset (product_targets ?is ?ps)" .
  have "?ps \<noteq> []" using assms(3) lists(3) by auto
  from ipv4_walk [OF perm refl refl this, of u] obtain ts s' where
    ts: "take_targets (ipv4_source u G) (length (left_after ?v ?now ?ps)) ?s = Inr (ts, s')"
      "mset ts = mset (product_targets ?is ?ps)" "is_end (fst (ipv4_next_target u G s'))"
    unfolding left by blast
  have "set ts = set (product_targets ?is ?ps)" using ts(2) by (rule mset_eq_setD)
  moreover have "distinct ts"
    using mset_eq_imp_distinct_iff [OF ts(2)] distinct_product_targets [OF lists(2,4)] by simp
  ultimately show ?thesis using ts(1,3) lists(1,3) by (auto simp: set_product_targets)
qed

text \<open>
  C19. An initialised \<open>IPV4TargetSet\<close> hands out every combination of an address and a port exactly
  once, and then reports the end, also when the lists given to it name an address or a port more
  than once: if aggregating a list only removes duplicates and the two generators walk through
  permutations of their lists. There has to be at least one port.
\<close>

theorem ipv4_set_covers:
  assumes "list_laws G addrs ports" and "permuting G addrs ports vl pl" and "ports (ports_list s) \<noteq> []"
  shows "\<exists>n ts s'. take_targets (ipv4_source u G) n (ipv4_init G s) = Inr (ts, s') \<and> distinct ts
      \<and> set ts = {Target i p | i p. i \<in> set (addrs (ips_list s)) \<and> p \<in> set (ports (ports_list s))}
      \<and> is_end (fst (ipv4_next_target u G s'))"
  using assms by (rule ipv4_init_covers)

text \<open>Generators that walk through their lists in the given order.\<close>

definition list_leeloo :: "(u32 list, port list, u32 list, port list \<times> nat, unit) leeloo" where
  "list_leeloo =
     \<lparr>il_aggregate = remdups, il_create_index_cache = (\<lambda>_ l. l), ql_aggregate = remdups,
      ql_create_index_cache = (\<lambda>_ l. l), v4_new = [], v4_init = (\<lambda>l g. (l, g)), v4_end = (\<lambda>v. v = []),
      v4_next = tl, v4_get_current = (\<lambda>_ v. hd v), v4_get_current_step = (\<lambda>v. of_nat (length v)),
      v4_step_done = (\<lambda>_ v. v), rp_new = ([], 0), rp_init = (\<lambda>l g. ((l, length l), g)), rp_end = (\<lambda>p. fst p = []),
      rp_draw = (\<lambda>_ p. (hd (fst p), tl (fst p), snd p)), rp_size_original = (\<lambda>p. of_nat (snd p))\<rparr>"

lemma list_leeloo_laws:
  "list_laws list_leeloo id id" "permuting list_leeloo id id (\<lambda>_ v. v) (\<lambda>_ p. fst p)"
  by (simp_all add: list_laws_def permuting_def list_leeloo_def)

theorem ipv4_set_covers_witness:
  "\<exists>n ts s'. take_targets (ipv4_source 0 list_leeloo) n
      (ipv4_init list_leeloo (ipv4_new list_leeloo [1, 2, 1] [Port 80 0, Port 443 0] () ())) = Inr (ts, s') \<and> distinct ts
      \<and> set ts = {Target i p | i p. i \<in> set [1, 2, 1] \<and> p \<in> set [Port 80 0, Port 443 0]}
      \<and> is_end (fst (ipv4_next_target 0 list_leeloo s'))"
  using ipv4_set_covers [OF list_leeloo_laws, of "ipv4_new list_leeloo [1, 2, 1] [Port 80 0, Port 443 0] () ()" 0]
  by (simp add: ipv4_new_def)

section \<open>When a host is done\<close>

text \<open>
  What \<open>target_finished\<close> relies on of the port list: a port that is new to the list raises its size
  by one, and aggregating the list changes neither its ports nor its size.
\<close>

definition counting :: "'pl port_list_ops \<Rightarrow> ('pl \<Rightarrow> port set) \<Rightarrow> bool" where
  "counting L ports_of \<longleftrightarrow>
     ports_of (pl_empty L) = {} \<and> pl_size L (pl_empty L) = 0
     \<and> (\<forall>p l. ports_of (pl_add L p l) = insert p (ports_of l))
     \<and> (\<forall>p l. p \<notin> ports_of l \<longrightarrow> pl_size L (pl_add L p l) = pl_size L l + 1)
     \<and> (\<forall>l. ports_of (pl_aggregate L l) = ports_of l \<and> pl_size L (pl_aggregate L l) = pl_size L l)"

fun ipv4_finish_all ::
  "'pl port_list_ops \<Rightarrow> ('il, 'ql, 'v, 'p, 'g) leeloo \<Rightarrow> target list \<Rightarrow> ('f, 'pl) host_sm \<times> ('il, 'ql, 'v, 'p, 'g) ipv4_set
     \<Rightarrow> (bool list \<times> ('f, 'pl) host_sm \<times> ('il, 'ql, 'v, 'p, 'g) ipv4_set) res" where
  "ipv4_finish_all L G [] c = Inr ([], c)"
| "ipv4_finish_all L G (t # ts) c =
     bind_res (ipv4_target_finished L G t c)
       (\<lambda>(r, c1). bind_res (ipv4_finish_all L G ts c1) (\<lambda>(rs, c2). Inr (r # rs, c2)))"

lemma host_port_done_counts:
  assumes "counting L ports_of" and "p \<notin> ports_of (ports_done h)"
  shows "ports_of (ports_done (host_port_done L p h)) = insert p (ports_of (ports_done h))"
    and "host_ports_done_count L (host_port_done L p h) = host_ports_done_count L h + 1"
    and "rand_idx_ip (host_port_done L p h) = rand_idx_ip h"
  using assms by (simp_all add: counting_def host_port_done_def host_ports_done_count_def Let_def)

lemma ipv4_finish_append:
  "ipv4_finish_all L G (xs @ ys) c = bind_res (ipv4_finish_all L G xs c) (\<lambda>(rs, c1).
     bind_res (ipv4_finish_all L G ys c1) (\<lambda>(qs, c2). Inr (rs @ qs, c2)))"
proof (induction xs arbitrary: c)
  case Nil
  show ?case by (cases "ipv4_finish_all L G ys c") auto
next
  case (Cons x xs)
  then show ?case by (auto simp: bind_res_def split: sum.splits prod.splits)
qed

text \<open>Fewer ports than the set has do not finish a host.\<close>

lemma ipv4_finish_partial:
  assumes cnt: "counting L ports_of"
  shows "distinct (map tport ts) \<Longrightarrow> tport ` set ts \<inter> ports_of (ports_done h) = {} \<Longrightarrow>
    unat (host_ports_done_count L h) + length ts < unat (ipv4_ports_count G s) \<Longrightarrow>
    \<exists>h'. ipv4_finish_all L G ts (h, s) = Inr (replicate (length ts) False, h', s)
      \<and> ports_of (ports_done h') = ports_of (ports_done h) \<union> tport ` set ts
      \<and> unat (host_ports_done_count L h') = unat (host_ports_done_count L h) + length ts
      \<and> rand_idx_ip h' = rand_idx_ip h"
proof (induction ts arbitrary: h)
  case (Cons x ts)
  let ?h = "host_port_done L (tport x) h" and ?n = "ipv4_ports_count G s"
  have "tport x \<notin> ports_of (ports_done h)" using Cons.prems(2) by auto
  note h = host_port_done_counts [OF cnt this]
  have "unat (host_ports_done_count L h) + 1 < 2 ^ 32"
    using Cons.prems(3) unat_u32_less [of ?n] by (simp del: unat_u32_less)
  then have u: "unat (host_ports_done_count L ?h) = unat (host_ports_done_count L h) + 1"
    using h(2) by (simp add: unat_word_ariths)
  then have "host_ports_done_count L ?h \<noteq> ?n" using Cons.prems(3) by auto
  then have fin: "ipv4_target_finished L G x (h, s) = Inr (False, ?h, s)"
    by (simp add: ipv4_target_finished_def Let_def)
  from Cons.IH [of ?h] Cons.prems h(1) u obtain h' where
    "ipv4_finish_all L G ts (?h, s) = Inr (replicate (length ts) False, h', s)"
    "ports_of (ports_done h') = ports_of (ports_done ?h) \<union> tport ` set ts"
    "unat (host_ports_done_count L h') = unat (host_ports_done_count L ?h) + length ts"
    "rand_idx_ip h' = rand_idx_ip ?h" by auto
  with fin h u show ?case by auto
qed simp

lemma ipv4_finish_last:
  assumes cnt: "counting L ports_of" and new: "tport t \<notin> ports_of (ports_done h)" and "rand_idx_ip h = Some i"
    and n: "unat (host_ports_done_count L h) + 1 = unat (ipv4_ports_count G s)"
  shows "\<exists>h'. ipv4_target_finished L G t (h, s) = Inr (True, h', s\<lparr>rand_v4 := v4_step_done G i (rand_v4 s)\<rparr>)"
proof -
  have "unat (host_ports_done_count L h) + 1 < 2 ^ 32" using n unat_u32_less [of "ipv4_ports_count G s"] by simp
  then have "host_ports_done_count L h + 1 = ipv4_ports_count G s"
    using n by (simp add: word_unat_eq_iff unat_word_ariths)
  then have "host_ports_done_count L (host_port_done L (tport t) h) = ipv4_ports_count G s"
    "rand_idx_ip (host_port_done L (tport t) h) = Some i"
    using host_port_done_counts [OF cnt new] assms(3) by auto
  then show ?thesis by (simp add: ipv4_target_finished_def host_rand_idx_ip_def Let_def)
qed

text \<open>
  C22. \<open>target_finished\<close> reports a host as done exactly at the last of its ports: when the targets of
  one address, one per port, are finished in any order, all calls but the last return \<open>false\<close>, the
  last returns \<open>true\<close> and marks the step of that address as done.
\<close>

theorem ipv4_host_done:
  assumes "counting L ports_of" and "distinct (map tport (ts @ [t]))" and "rand_idx_ip h = Some i"
    and "ports_done h = pl_empty L" and "length ts + 1 = unat (ipv4_ports_count G s)"
  shows "\<exists>h'. ipv4_finish_all L G (ts @ [t]) (h, s) =
      Inr (replicate (length ts) False @ [True], h', s\<lparr>rand_v4 := v4_step_done G i (rand_v4 s)\<rparr>)"
proof -
  from ipv4_finish_partial [OF assms(1), of ts h G s] assms obtain h1 where
    h1: "ipv4_finish_all L G ts (h, s) = Inr (replicate (length ts) False, h1, s)"
      "ports_of (ports_done h1) = tport ` set ts" "unat (host_ports_done_count L h1) = length ts"
      "rand_idx_ip h1 = Some i"
    by (auto simp: counting_def host_ports_done_count_def)
  from ipv4_finish_last [OF assms(1) _ h1(4), of t G s] h1(2,3) assms(2,5) obtain h' where
    "ipv4_target_finished L G t (h1, s) = Inr (True, h', s\<lparr>rand_v4 := v4_step_done G i (rand_v4 s)\<rparr>)" by auto
  with h1(1) show ?thesis by (simp add: ipv4_finish_append)
qed

definition list_ports :: "port list port_list_ops" where
  "list_ports = \<lparr>pl_empty = [], pl_add = (\<lambda>p l. p # l), pl_intervals = length, pl_aggregate = (\<lambda>l. l),
     pl_size = (\<lambda>l. of_nat (length l))\<rparr>"

lemma list_ports_counting: "counting list_ports set"
  by (simp add: counting_def list_ports_def)

definition two_ports :: "(u32 list, port list, u32 list, port list \<times> nat, unit) ipv4_set" where
  "two_ports = ipv4_init list_leeloo (ipv4_new list_leeloo [7] [Port 80 0, Port 443 0] () ())"

lemma two_ports_simps:
  "ips_list two_ports = [7]" "ports_list two_ports = [Port 80 0, Port 443 0]" "rand_v4 two_ports = [7]"
  "rand_port two_ports = ([Port 80 0, Port 443 0], 2)" "ipv4_ports_count list_leeloo two_ports = 2"
  by (simp_all add: two_ports_def ipv4_init_def ipv4_new_def list_leeloo_def ipv4_ports_count_def Let_def)

theorem ipv4_host_done_witness:
  "\<exists>h' :: (unit, port list) host_sm. ipv4_finish_all list_ports list_leeloo
      ([Target 7 (Port 443 0)] @ [Target 7 (Port 80 0)])
      (host_set_rand_idx_ip 0 (host_sm_new list_ports 0), two_ports) =
      Inr (replicate (length [Target 7 (Port 443 0)]) False @ [True], h',
           two_ports\<lparr>rand_v4 := v4_step_done list_leeloo 0 (rand_v4 two_ports)\<rparr>)"
  using ipv4_host_done [OF list_ports_counting, of "[Target 7 (Port 443 0)]" "Target 7 (Port 80 0)"
      "host_set_rand_idx_ip 0 (host_sm_new list_ports 0) :: (unit, port list) host_sm" 0 list_leeloo two_ports]
  by (simp add: two_ports_simps host_set_rand_idx_ip_def host_sm_new_def host_sm.defs state_machine.defs
      state_machine_new_def list_ports_def)

end
