(* ===== verification/Target_State.thy ===== *)
theory Target_State
  imports IPV4_Target_Set
begin

text \<open>
  Saving and restoring the state of a target set (\<open>TargetSet::save_state\<close>, \<open>restore_state\<close> and
  their overrides in \<open>target_set.cpp\<close>, \<open>target_set.h\<close> and \<open>target_file.h\<close>). The XML archives of boost
  and the serialisers of \<open>leeloo\<close> are the record \<open>archives\<close>; what the round trip relies on of them
  is \<open>archive_laws\<close>.
\<close>

section \<open>Procedures that may throw\<close>

text \<open>
  An exception leaves what was done before it: a procedure returns the exception, if any, and the
  state in either case. \<open>finally_do\<close> is a destructor, which also runs when an exception passes.
\<close>

type_synonym 's proc = "'s \<Rightarrow> fault option \<times> 's"

definition then_do :: "'s proc \<Rightarrow> 's proc \<Rightarrow> 's proc" where
  "then_do f g s = (case f s of (None, s1) \<Rightarrow> g s1 | (Some e, s1) \<Rightarrow> (Some e, s1))"

definition finally_do :: "'s proc \<Rightarrow> ('s \<Rightarrow> 's) \<Rightarrow> 's proc" where
  "finally_do f d s = (case f s of (r, s1) \<Rightarrow> (r, d s1))"

lemma then_do_simps [simp]:
  "f s = (None, s1) \<Longrightarrow> then_do f g s = g s1" "f s = (Some e, s1) \<Longrightarrow> then_do f g s = (Some e, s1)"
  by (simp_all add: then_do_def)

section \<open>Archives\<close>

text \<open>
  A stream is good or failed, with the units (characters) written to it or still to be read. \<open>put_*\<close>
  and \<open>get_*\<close> are \<open>operator<<\<close> and \<open>operator>>\<close> on \<open>make_nvp\<close>; reading changes an object in place.
\<close>

record 'x stream =
  good :: bool
  units :: "'x list"

record ('il, 'ql, 'v, 'p, 'g, 'x) archives =
  xml_oarchive :: "'x stream proc"
  xml_oarchive_end :: "'x stream \<Rightarrow> 'x stream"
  put_ips :: "string \<Rightarrow> 'il \<Rightarrow> 'x stream proc"
  put_ports :: "string \<Rightarrow> 'ql \<Rightarrow> 'x stream proc"
  v4_save_state :: "'v \<Rightarrow> 'x stream proc"
  rp_save_state :: "'p \<Rightarrow> 'x stream proc"
  xml_iarchive :: "'x stream proc"
  xml_iarchive_end :: "'x stream \<Rightarrow> 'x stream"
  get_ips :: "string \<Rightarrow> ('il \<times> 'x stream) proc"
  get_ports :: "string \<Rightarrow> ('ql \<times> 'x stream) proc"
  v4_restore_state :: "'il \<Rightarrow> ('v \<times> 'g \<times> 'x stream) proc"
  rp_restore_state :: "'ql \<Rightarrow> ('p \<times> 'g \<times> 'x stream) proc"

definition ipv4_save_state ::
  "('il, 'ql, 'v, 'p, 'g, 'x) archives \<Rightarrow> ('il, 'ql, 'v, 'p, 'g) ipv4_set \<Rightarrow> 'x stream proc"
where
  "ipv4_save_state A s =
     then_do (xml_oarchive A)
       (finally_do
         (then_do (put_ips A ''ipv4s'' (ips_list s))
         (then_do (put_ports A ''ports'' (ports_list s))
         (then_do (v4_save_state A (rand_v4 s))
                  (rp_save_state A (rand_port s)))))
         (xml_oarchive_end A))"

text \<open>Restoring works on the set together with the stream.\<close>

definition read_ips ::
  "('il, 'ql, 'v, 'p, 'g, 'x) archives \<Rightarrow> string \<Rightarrow> (('il, 'ql, 'v, 'p, 'g) ipv4_set \<times> 'x stream) proc" where
  "read_ips A name c =
     (case c of (s, is) \<Rightarrow> case get_ips A name (ips_list s, is) of (r, l, is') \<Rightarrow> (r, s\<lparr>ips_list := l\<rparr>, is'))"

definition read_ports ::
  "('il, 'ql, 'v, 'p, 'g, 'x) archives \<Rightarrow> string \<Rightarrow> (('il, 'ql, 'v, 'p, 'g) ipv4_set \<times> 'x stream) proc" where
  "read_ports A name c =
     (case c of (s, is) \<Rightarrow> case get_ports A name (ports_list s, is) of (r, l, is') \<Rightarrow> (r, s\<lparr>ports_list := l\<rparr>, is'))"

definition read_v4 ::
  "('il, 'ql, 'v, 'p, 'g, 'x) archives \<Rightarrow> (('il, 'ql, 'v, 'p, 'g) ipv4_set \<times> 'x stream) proc" where
  "read_v4 A c =
     (case c of (s, is) \<Rightarrow> case v4_restore_state A (ips_list s) (rand_v4 s, mt_rand_ips s, is) of
        (r, v, g, is') \<Rightarrow> (r, s\<lparr>rand_v4 := v, mt_rand_ips := g\<rparr>, is'))"

definition read_rp ::
  "('il, 'ql, 'v, 'p, 'g, 'x) archives \<Rightarrow> (('il, 'ql, 'v, 'p, 'g) ipv4_set \<times> 'x stream) proc" where
  "read_rp A c =
     (case c of (s, is) \<Rightarrow> case rp_restore_state A (ports_list s) (rand_port s, mt_rand_ports s, is) of
        (r, p, g, is') \<Rightarrow> (r, s\<lparr>rand_port := p, mt_rand_ports := g\<rparr>, is'))"

definition read_caches ::
  "('il, 'ql, 'v, 'p, 'g) leeloo \<Rightarrow> (('il, 'ql, 'v, 'p, 'g) ipv4_set \<times> 'x stream) proc" where
  "read_caches G c =
     (case c of (s, is) \<Rightarrow>
        (None, s\<lparr>ips_list := il_create_index_cache G 256 (ips_list s),
                 ports_list := ql_create_index_cache G 16 (ports_list s)\<rparr>, is))"

definition ipv4_restore_state ::
  "('il, 'ql, 'v, 'p, 'g, 'x) archives \<Rightarrow> ('il, 'ql, 'v, 'p, 'g) leeloo
     \<Rightarrow> (('il, 'ql, 'v, 'p, 'g) ipv4_set \<times> 'x stream) proc"
where
  "ipv4_restore_state A G =
     then_do (\<lambda>(s, is). case xml_iarchive A is of (r, is') \<Rightarrow> (r, s, is'))
       (finally_do
         (then_do (read_ips A ''ipv4s'')
         (then_do (read_ports A ''ports'')
         (then_do (read_v4 A)
         (then_do (read_rp A)
                  (read_caches G)))))
         (\<lambda>(s, is). (s, xml_iarchive_end A is)))"

text \<open>The sets that keep no state: \<open>SimpleTargetSet\<close> and \<open>TargetAsyncFile\<close>.\<close>

definition simple_save_state :: "simple_set \<Rightarrow> 'x stream proc" where
  "simple_save_state s os = (None, os)"

definition simple_restore_state :: "(simple_set \<times> 'x stream) proc" where
  "simple_restore_state c = (None, c)"

definition simple_init_shrd :: "u32 \<Rightarrow> u32 \<Rightarrow> simple_set \<Rightarrow> simple_set" where
  "simple_init_shrd shrd_idx shrd_count s = s"

section \<open>Files\<close>

text \<open>
  The files of the system and whether a file can be opened for writing. Opening for writing
  truncates a file; a stream whose file cannot be opened is failed. The stream versions of saving
  and restoring, virtual functions of the set, are the arguments \<open>save\<close> and \<open>restore\<close>. Closing the
  stream, also when an exception passes, leaves in the file what was written.
\<close>

type_synonym 'x files = "string \<Rightarrow> 'x list option"

definition save_state_file ::
  "(string \<Rightarrow> bool) \<Rightarrow> ('s \<Rightarrow> 'x stream proc) \<Rightarrow> string \<Rightarrow> 's \<Rightarrow> 'x files proc" where
  "save_state_file writable save file s fs =
     (if writable file
      then case save s \<lparr>good = True, units = []\<rparr> of (r, os) \<Rightarrow> (r, fs(file \<mapsto> units os))
      else case save s \<lparr>good = False, units = []\<rparr> of (r, os) \<Rightarrow> (r, fs))"

definition restore_state_file ::
  "('s \<times> 'x stream) proc \<Rightarrow> 'x files \<Rightarrow> string \<Rightarrow> 's proc" where
  "restore_state_file restore fs file s =
     (let is = (case fs file of None \<Rightarrow> \<lparr>good = False, units = []\<rparr> | Some bs \<Rightarrow> \<lparr>good = True, units = bs\<rparr>)
      in case restore (s, is) of (r, s', is') \<Rightarrow> (r, s'))"

section \<open>A restored set goes on where the saved one was\<close>

text \<open>
  What is relied on of the archives. Writing appends to a good stream, reading takes back what was
  written: lists keep their elements, the generator of ports the elements it has left. The
  generator of addresses keeps a promise about unfinished steps: \<open>resume\<close> is what it hands out when
  restored, as a function of the addresses and of the generator saved. Generators refer to the
  elements of a list by position.
\<close>

definition write_laws ::
  "('il, 'ql, 'v, 'p, 'g, 'x) archives \<Rightarrow> 'x list \<Rightarrow> 'x list \<Rightarrow> (string \<Rightarrow> 'il \<Rightarrow> 'x list)
     \<Rightarrow> (string \<Rightarrow> 'ql \<Rightarrow> 'x list) \<Rightarrow> ('v \<Rightarrow> 'x list) \<Rightarrow> ('p \<Rightarrow> 'x list) \<Rightarrow> bool"
where
  "write_laws A hdr ftr ti tq tv tp \<longleftrightarrow>
     (\<forall>us. xml_oarchive A \<lparr>good = True, units = us\<rparr> = (None, \<lparr>good = True, units = us @ hdr\<rparr>))
     \<and> (\<forall>us. xml_oarchive_end A \<lparr>good = True, units = us\<rparr> = \<lparr>good = True, units = us @ ftr\<rparr>)
     \<and> (\<forall>n l us. put_ips A n l \<lparr>good = True, units = us\<rparr> = (None, \<lparr>good = True, units = us @ ti n l\<rparr>))
     \<and> (\<forall>n l us. put_ports A n l \<lparr>good = True, units = us\<rparr> = (None, \<lparr>good = True, units = us @ tq n l\<rparr>))
     \<and> (\<forall>v us. v4_save_state A v \<lparr>good = True, units = us\<rparr> = (None, \<lparr>good = True, units = us @ tv v\<rparr>))
     \<and> (\<forall>p us. rp_save_state A p \<lparr>good = True, units = us\<rparr> = (None, \<lparr>good = True, units = us @ tp p\<rparr>))"

definition read_laws ::
  "('il, 'ql, 'v, 'p, 'g, 'x) archives \<Rightarrow> ('il, 'ql, 'v, 'p, 'g) leeloo \<Rightarrow> ('il \<Rightarrow> u32 list) \<Rightarrow> ('ql \<Rightarrow> port list)
     \<Rightarrow> ('il \<Rightarrow> 'v \<Rightarrow> u32 list) \<Rightarrow> ('ql \<Rightarrow> 'p \<Rightarrow> port list) \<Rightarrow> (u32 list \<Rightarrow> 'v \<Rightarrow> u32 list)
     \<Rightarrow> 'x list \<Rightarrow> (string \<Rightarrow> 'il \<Rightarrow> 'x list) \<Rightarrow> (string \<Rightarrow> 'ql \<Rightarrow> 'x list) \<Rightarrow> ('v \<Rightarrow> 'x list) \<Rightarrow> ('p \<Rightarrow> 'x list) \<Rightarrow> bool"
where
  "read_laws A G addrs ports vl pl resume hdr ti tq tv tp \<longleftrightarrow>
     (\<forall>us. xml_iarchive A \<lparr>good = True, units = hdr @ us\<rparr> = (None, \<lparr>good = True, units = us\<rparr>))
     \<and> (\<forall>n l l0 us. \<exists>l'. get_ips A n (l0, \<lparr>good = True, units = ti n l @ us\<rparr>) = (None, l', \<lparr>good = True, units = us\<rparr>)
          \<and> addrs l' = addrs l)
     \<and> (\<forall>n l l0 us. \<exists>l'. get_ports A n (l0, \<lparr>good = True, units = tq n l @ us\<rparr>) = (None, l', \<lparr>good = True, units = us\<rparr>)
          \<and> ports l' = ports l)
     \<and> (\<forall>l v v0 g us. \<exists>v' g'. v4_restore_state A l (v0, g, \<lparr>good = True, units = tv v @ us\<rparr>)
            = (None, v', g', \<lparr>good = True, units = us\<rparr>) \<and> vl l v' = resume (addrs l) v)
     \<and> (\<forall>l p p0 g us. \<exists>p' g'. rp_restore_state A l (p0, g, \<lparr>good = True, units = tp p @ us\<rparr>)
            = (None, p', g', \<lparr>good = True, units = us\<rparr>) \<and> pl l p' = pl l p \<and> rp_size_original G p' = rp_size_original G p)
     \<and> (\<forall>l l' v. addrs l = addrs l' \<longrightarrow> vl l v = vl l' v)
     \<and> (\<forall>l l' p. ports l = ports l' \<longrightarrow> pl l p = pl l' p)"

definition archive_laws ::
  "('il, 'ql, 'v, 'p, 'g, 'x) archives \<Rightarrow> ('il, 'ql, 'v, 'p, 'g) leeloo \<Rightarrow> ('il \<Rightarrow> u32 list) \<Rightarrow> ('ql \<Rightarrow> port list)
     \<Rightarrow> ('il \<Rightarrow> 'v \<Rightarrow> u32 list) \<Rightarrow> ('ql \<Rightarrow> 'p \<Rightarrow> port list) \<Rightarrow> (u32 list \<Rightarrow> 'v \<Rightarrow> u32 list) \<Rightarrow> bool"
where
  "archive_laws A G addrs ports vl pl resume \<longleftrightarrow>
     (\<exists>hdr ftr ti tq tv tp. write_laws A hdr ftr ti tq tv tp
        \<and> read_laws A G addrs ports vl pl resume hdr ti tq tv tp)"

text \<open>What a restored set agrees on with the set that was saved.\<close>

lemma restore_after_save:
  assumes laws: "list_laws G addrs ports" and arch: "archive_laws A G addrs ports vl pl resume"
    and w: "writable file"
  shows "\<exists>fs' s'. save_state_file writable (ipv4_save_state A) file s fs = (None, fs')
    \<and> restore_state_file (ipv4_restore_state A G) fs' file s0 = (None, s')
    \<and> addrs (ips_list s') = addrs (ips_list s) \<and> ports (ports_list s') = ports (ports_list s)
    \<and> vl (ips_list s') (rand_v4 s') = resume (addrs (ips_list s)) (rand_v4 s)
    \<and> pl (ports_list s') (rand_port s') = pl (ports_list s) (rand_port s)
    \<and> ipv4_ports_count G s' = ipv4_ports_count G s"
proof -
  obtain hdr ftr ti tq tv tp where wl: "write_laws A hdr ftr ti tq tv tp"
    and rl: "read_laws A G addrs ports vl pl resume hdr ti tq tv tp" using arch by (auto simp: archive_laws_def)
  let ?tip = "ti ''ipv4s'' (ips_list s)" and ?tpo = "tq ''ports'' (ports_list s)"
  let ?tv = "tv (rand_v4 s)" and ?tp = "tp (rand_port s)"
  let ?fs = "fs(file \<mapsto> hdr @ ?tip @ ?tpo @ ?tv @ ?tp @ ftr)"
  have saved: "save_state_file writable (ipv4_save_state A) file s fs = (None, ?fs)"
    using wl w by (simp add: save_state_file_def ipv4_save_state_def then_do_def finally_do_def write_laws_def)
  obtain l where l: "get_ips A ''ipv4s'' (ips_list s0, \<lparr>good = True, units = ?tip @ ?tpo @ ?tv @ ?tp @ ftr\<rparr>)
      = (None, l, \<lparr>good = True, units = ?tpo @ ?tv @ ?tp @ ftr\<rparr>)" "addrs l = addrs (ips_list s)"
    using rl unfolding read_laws_def by meson
  obtain q where q: "get_ports A ''ports'' (ports_list s0, \<lparr>good = True, units = ?tpo @ ?tv @ ?tp @ ftr\<rparr>)
      = (None, q, \<lparr>good = True, units = ?tv @ ?tp @ ftr\<rparr>)" "ports q = ports (ports_list s)"
    using rl unfolding read_laws_def by meson
  obtain v gv where v: "v4_restore_state A l (rand_v4 s0, mt_rand_ips s0, \<lparr>good = True, units = ?tv @ ?tp @ ftr\<rparr>)
      = (None, v, gv, \<lparr>good = True, units = ?tp @ ftr\<rparr>)" "vl l v = resume (addrs l) (rand_v4 s)"
    using rl unfolding read_laws_def by meson
  obtain p gp where p: "rp_restore_state A q (rand_port s0, mt_rand_ports s0, \<lparr>good = True, units = ?tp @ ftr\<rparr>)
      = (None, p, gp, \<lparr>good = True, units = ftr\<rparr>)" "pl q p = pl q (rand_port s)"
      "rp_size_original G p = rp_size_original G (rand_port s)"
    using rl unfolding read_laws_def by meson
  let ?l = "il_create_index_cache G 256 l" and ?q = "ql_create_index_cache G 16 q"
  let ?s = "\<lparr>ips_list = ?l, ports_list = ?q, rand_v4 = v, rand_port = p, mt_rand_ips = gv, mt_rand_ports = gp\<rparr>"
  have "xml_iarchive A \<lparr>good = True, units = hdr @ ?tip @ ?tpo @ ?tv @ ?tp @ ftr\<rparr>
      = (None, \<lparr>good = True, units = ?tip @ ?tpo @ ?tv @ ?tp @ ftr\<rparr>)" using rl by (simp add: read_laws_def)
  then have restored: "restore_state_file (ipv4_restore_state A G) ?fs file s0 = (None, ?s)"
    using l(1) q(1) v(1) p(1)
    by (simp add: restore_state_file_def ipv4_restore_state_def then_do_def finally_do_def read_ips_def read_ports_def
        read_v4_def read_rp_def read_caches_def)
  have elems: "addrs ?l = addrs l" "ports ?q = ports q" using laws by (simp_all add: list_laws_def)
  have "vl ?l v = vl l v" "pl ?q p = pl q p" "pl q (rand_port s) = pl (ports_list s) (rand_port s)"
    using rl elems q(2) unfolding read_laws_def by metis+
  with saved restored elems l(2) q(2) v(2) p(2,3) show ?thesis by (simp add: ipv4_ports_count_def)
qed


text \<open>An archive of the lists of \<open>list_leeloo\<close>, one unit per object.\<close>

datatype piece = Head | Ips string "u32 list" | Ports string "port list" | V4 "u32 list" | Rp "port list \<times> nat"

definition put_piece :: "piece \<Rightarrow> piece stream proc" where
  "put_piece x os = (if good os then (None, os\<lparr>units := units os @ [x]\<rparr>) else (Some Archive_exception, os))"

definition take_piece :: "(piece \<Rightarrow> 'a option) \<Rightarrow> ('a \<times> piece stream) proc" where
  "take_piece sel c =
     (case c of (a, is) \<Rightarrow> case units is of
        [] \<Rightarrow> (Some Archive_exception, a, is)
      | x # us \<Rightarrow> (case sel x of
          None \<Rightarrow> (Some Archive_exception, a, is)
        | Some b \<Rightarrow> if good is then (None, b, is\<lparr>units := us\<rparr>) else (Some Archive_exception, a, is)))"

definition take_state :: "(piece \<Rightarrow> 'a option) \<Rightarrow> ('a \<times> unit \<times> piece stream) proc" where
  "take_state sel c = (case c of (a, g, is) \<Rightarrow> case take_piece sel (a, is) of (r, b, is') \<Rightarrow> (r, b, g, is'))"

definition list_archives :: "(u32 list, port list, u32 list, port list \<times> nat, unit, piece) archives" where
  "list_archives =
     \<lparr>xml_oarchive = put_piece Head, xml_oarchive_end = (\<lambda>os. os),
      put_ips = (\<lambda>n l. put_piece (Ips n l)), put_ports = (\<lambda>n l. put_piece (Ports n l)),
      v4_save_state = (\<lambda>v. put_piece (V4 v)), rp_save_state = (\<lambda>p. put_piece (Rp p)),
      xml_iarchive = (\<lambda>is. case take_piece (\<lambda>x. if x = Head then Some () else None) ((), is) of (r, _, is') \<Rightarrow> (r, is')),
      xml_iarchive_end = (\<lambda>is. is),
      get_ips = (\<lambda>n. take_piece (\<lambda>x. case x of Ips m l \<Rightarrow> if m = n then Some l else None | _ \<Rightarrow> None)),
      get_ports = (\<lambda>n. take_piece (\<lambda>x. case x of Ports m l \<Rightarrow> if m = n then Some l else None | _ \<Rightarrow> None)),
      v4_restore_state = (\<lambda>l. take_state (\<lambda>x. case x of V4 v \<Rightarrow> Some v | _ \<Rightarrow> None)),
      rp_restore_state = (\<lambda>l. take_state (\<lambda>x. case x of Rp p \<Rightarrow> Some p | _ \<Rightarrow> None))\<rparr>"

lemma list_archives_laws:
  "archive_laws list_archives list_leeloo id id (\<lambda>_ v. v) (\<lambda>_ p. fst p) (\<lambda>_ v. v)"
proof -
  have "write_laws list_archives [Head] [] (\<lambda>n l. [Ips n l]) (\<lambda>n l. [Ports n l]) (\<lambda>v. [V4 v]) (\<lambda>p. [Rp p])"
    by (simp add: write_laws_def list_archives_def put_piece_def)
  moreover have "read_laws list_archives list_leeloo id id (\<lambda>_ v. v) (\<lambda>_ p. fst p) (\<lambda>_ v. v) [Head]
      (\<lambda>n l. [Ips n l]) (\<lambda>n l. [Ports n l]) (\<lambda>v. [V4 v]) (\<lambda>p. [Rp p])"
    by (simp add: read_laws_def list_archives_def take_piece_def take_state_def)
  ultimately show ?thesis unfolding archive_laws_def by blast
qed

text \<open>The set of two ports after its first target.\<close>

definition one_drawn :: "(u32 list, port list, u32 list, port list \<times> nat, unit) ipv4_set" where
  "one_drawn = snd (ipv4_next_target 0 list_leeloo two_ports)"

lemma one_drawn_simps:
  "ips_list one_drawn = [7]" "ports_list one_drawn = [Port 80 0, Port 443 0]" "rand_v4 one_drawn = [7]"
  "rand_port one_drawn = ([Port 443 0], 2)" "ipv4_ports_count list_leeloo one_drawn = 2"
  by (simp_all add: one_drawn_def ipv4_next_target_def Let_def two_ports_simps ipv4_ports_count_def)
    (simp_all add: list_leeloo_def two_ports_simps)


section \<open>What is lost\<close>



text \<open>
  Restoring is not atomic. From a file that cannot be opened nothing is read and the set stays as
  it is, if the archive refuses a failed stream; an archive that breaks off behind the addresses
  leaves a set with the new addresses and the old generators.
\<close>

theorem failed_restore:
  shows "fs file = None \<Longrightarrow> xml_iarchive A \<lparr>good = False, units = []\<rparr> = (Some e, is1) \<Longrightarrow>
      restore_state_file (ipv4_restore_state A G) fs file s = (Some e, s)"
    and "fs file = Some us \<Longrightarrow> xml_iarchive A \<lparr>good = True, units = us\<rparr> = (None, is1) \<Longrightarrow>
      get_ips A ''ipv4s'' (ips_list s, is1) = (None, l, is2) \<Longrightarrow>
      get_ports A ''ports'' (ports_list s, is2) = (Some e, q, is3) \<Longrightarrow>
      restore_state_file (ipv4_restore_state A G) fs file s = (Some e, s\<lparr>ips_list := l, ports_list := q\<rparr>)"
  by (simp_all add: restore_state_file_def ipv4_restore_state_def then_do_def finally_do_def read_ips_def read_ports_def)

end
