(* ===== verification/Engine_Theorems.thy ===== *)
theory Engine_Theorems
  imports Scripted_Net Target_State
begin

text \<open>
  The properties of the engine, stated on its definitions. Those that need the laws of
  \<open>engine_env\<close> or \<open>live_env\<close> are applied to the scripted network; the ones that show where the
  code goes wrong are runs of the model.
\<close>

section \<open>Safety of a scan\<close>

lemma new_engine_ok:
  assumes "\<And>s m r. fds w s \<noteq> Some (Some m, r)"
  shows "eng_ok fds adm (unat n) {} (async_engine_new n tmo w)"
proof -
  have "unat n < 2 ^ 32" using unsigned_less [of n] by simp
  with assms show ?thesis by (auto simp: eng_ok_def async_engine_new_def book_ok_def)
qed

lemma setters_ok:
  "eng_ok fds adm cap X (set_lvl4_connected_callback a e) = eng_ok fds adm cap X e"
  "eng_ok fds adm cap X (set_lvl4_finish_callback a e) = eng_ok fds adm cap X e"
  "eng_ok fds adm cap X (set_status_display_callback a t e) = eng_ok fds adm cap X e"
  "eng_ok fds adm cap X (set_watch_timeout a t e) = eng_ok fds adm cap X e"
  "eng_ok fds adm cap X (set_timeout_of_target a e) = eng_ok fds adm cap X e"
  "eng_ok fds adm cap X e \<Longrightarrow> eng_ok fds adm cap X (auto_save_state file secs e)"
  by (auto simp: eng_ok_def set_lvl4_connected_callback_def set_lvl4_finish_callback_def
      set_status_display_callback_def set_watch_timeout_def set_timeout_of_target_def auto_save_state_def
      split: option.splits)


definition quiet_net :: "'ts \<Rightarrow> 'ts net" where
  "quiet_net ts = \<lparr>net_clock = 0, net_table = [], net_sent = [], net_log = [], net_done = [], net_targets = ts\<rparr>"

definition sip_engine :: "u32 \<Rightarrow> 'ts net \<Rightarrow> (unit sip_fn, 'pl, 'ts net) engine" where
  "sip_engine n w = set_lvl4_finish_callback (Some (Sip_User ()))
     (set_lvl4_connected_callback (Some (Sip_Object (Some ()) None)) (async_engine_new n 5 w))"

lemma sip_engine_ok: "eng_ok net_fds adm (unat n) {} (sip_engine n (quiet_net ts))"
  using new_engine_ok [of net_fds "quiet_net ts" adm n 5]
  by (simp add: sip_engine_def setters_ok quiet_net_def net_fds_def net_get_def)

lemma sip_engine_fresh: "lvl4_sms (sip_engine n w) = []" "world (sip_engine n w) = w"
  by (simp_all add: sip_engine_def async_engine_new_def set_lvl4_finish_callback_def set_lvl4_connected_callback_def)


section \<open>A scan ends\<close>


lemma sample_rep: "Rep_ready_set (Abs_ready_set sample_set) = sample_set"
  using sample_set_ok by (intro Abs_ready_set_inverse) (simp add: ready_ok_def sample_set_def is_end_def)

lemma sample_todo: "ready_todo (Abs_ready_set sample_set) = [Target 1 (Port 80 0), Target 2 (Port 80 0)]"
  by (simp add: ready_todo_def sample_rep) (simp add: sample_set_def simple_pending_def rest_from_def less_eq_prod_def)


section \<open>Without sockets\<close>

context engine_env
begin

lemma no_sockets_avail: "eng_ok fds adm 0 {} e \<Longrightarrow> avail_socks e = 0"
  by (simp add: eng_ok_def book_ok_def unat_eq_0)

lemma no_sockets_round:
  assumes ok: "eng_ok fds adm 0 {} e"
  shows "\<exists>e'. scan_round pf lf E e = Inr (False, e') \<and> eng_ok fds adm 0 {} e'"
proof -
  obtain n e1 where e1: "process_events pf E e = Inr (n, e1)" "eng_ok fds adm 0 {} e1"
    using events_ok [OF ok] by blast
  obtain v e2 where e2: "process_dirty_and_timeouts pf E e1 = Inr (v, e2)" "eng_ok fds adm 0 {} e2"
    using dirty_and_timeouts_ok [OF e1(2)] by blast
  have "process_free_socks lf E e2 = Inr (True, e2)"
    using no_sockets_avail [OF e2(2)] by (simp add: process_free_socks_def)
  with report_ok [OF e2(2)] e1(1) e2(1) show ?thesis by (auto simp: scan_round_def)
qed

lemma no_sockets_loop: "eng_ok fds adm 0 {} e \<Longrightarrow> scan_loop n pf lf E e = Inl Out_of_fuel"
proof (induction n arbitrary: e)
  case (Suc n)
  from no_sockets_round [OF Suc.prems, of lf] Suc.IH show ?case by auto
qed simp

end

text \<open>
  C35. An engine without sockets never ends its scan, however many rounds it is given and however
  few targets there are: the end of the targets is only noticed when a target is asked for.
\<close>

theorem no_sockets_never_ends:
  assumes env: "engine_env adm E fds pf" and ok: "eng_ok fds adm 0 {} e" and fresh: "lvl4_sms e = []"
  shows "do_async_scan sf pf lf E e = Inl Out_of_fuel"
proof -
  let ?e = "e\<lparr>world := os_epoll_create (kernel E) (world e), nlaunched := 0, ndone := 0, last_time_status_display := 0\<rparr>"
  have "eng_ok fds adm 0 {} ?e" using engine_env.start_ok [OF env ok fresh] .
  with engine_env.no_sockets_avail [OF env this] engine_env.no_sockets_loop [OF env this] show ?thesis
    by (simp add: do_async_scan_def process_free_socks_def Let_def)
qed

theorem no_sockets_never_ends_witness:
  "do_async_scan 1000 (2 ^ 30) 3 (net_env (\<lambda>ip. [])) (sip_engine 0 (quiet_net (Abs_ready_set sample_set))) = Inl Out_of_fuel"
  using sip_engine_ok [of "\<lambda>f n. True" 0 "Abs_ready_set sample_set"]
  by (intro no_sockets_never_ends [OF net_engine_env]) (simp_all add: sip_engine_fresh)

section \<open>No target is lost\<close>

lemma scan_reports:
  assumes live: "live_env adm E fds pf cnt rate" and acc: "account_env adm E fds pf todo fin"
    and ok: "eng_ok fds adm cap {} e" and fresh: "lvl4_sms e = []" and cap: "0 < cap" and lf: "fst (cnt (world e)) < lf"
    and cb: "callback_finish e = Some f" and none: "fin (world e) = []"
  shows "\<exists>N. \<forall>sf\<ge>N. \<exists>e'. do_async_scan sf pf lf E e = Inr e' \<and> todo (world e') = []
    \<and> mset (fin (world e')) + image_mset snd (mset (sockets_targets e')) = mset (todo (world e))"
proof -
  obtain N where N: "\<forall>sf\<ge>N. \<exists>e'. do_async_scan sf pf lf E e = Inr e' \<and> eng_ok fds adm cap {} e'"
    using live_env.scan_live [OF live ok fresh cap lf] by blast
  have "todo (world e') = [] \<and> mset (fin (world e')) + image_mset snd (mset (sockets_targets e')) = mset (todo (world e))"
    if "do_async_scan sf pf lf E e = Inr e'" for sf e'
    using account_env.scan_accounts [OF acc ok fresh cb that] none by simp
  with N show ?thesis by (intro exI [of _ N]) blast
qed



section \<open>Ending connections\<close>

context engine_env
begin

lemma finished_exact:
  assumes ok: "eng_ok fds adm cap {} e" and l: "smap_find (lvl4_sms e) s = Some l"
  shows "\<exists>e'. socket_finished E s err e = Inr e' \<and> eng_ok fds adm cap {} e'
    \<and> fds (world e') s = None \<and> smap_find (lvl4_sms e') s = None \<and> smap_find (sockets_targets e') s = None
    \<and> avail_socks e' = avail_socks e + 1 \<and> ndone e' = ndone e + 1
    \<and> (\<forall>j. j \<noteq> s \<longrightarrow> smap_find (lvl4_sms e') j = smap_find (lvl4_sms e) j \<and> fds (world e') j = fds (world e) j)"
proof -
  obtain e' where e': "socket_finished E s err e = Inr e'" "eng_ok fds adm cap {} e'" "same_others fds s e e'"
    "smap_find (lvl4_sms e') s = None" "avail_socks e' = avail_socks e + 1" "fds (world e') s = None"
    "ndone e' = ndone e + 1" using socket_finished_ok [OF ok l, of err] by auto
  have "smap_find (sockets_targets e') s = None" using eng_ok_lvl4(2) [OF e'(2)] e'(4) by blast
  with e' show ?thesis by (auto simp: same_others_def)
qed

text \<open>What the loop over the connections collects when no callback decides about timeouts.\<close>

lemma scan_plain:
  assumes "callback_timeout_target e = None" and "watch_timeout_cb e = None"
  shows "scan_lvl4_sms E e ts ls w = Inr (ls', ps, tos, n, w') \<Longrightarrow> (\<forall>x\<in>set ls. sm_valid (snd x)) \<Longrightarrow>
    tos = map fst (filter (\<lambda>x. ts - sm_ts (snd x) \<ge> int (unat (timeout e))) ls) \<and> n + length tos = length ls"
proof (induction ls arbitrary: w ls' ps tos n w')
  case (Cons x ls)
  obtain s l where x: "x = (s, l)" by (cases x)
  have "sm_valid l" using Cons.prems(2) x by simp
  with Cons.prems(1) [unfolded x] show ?case
  proof (cases rule: scan_validE)
    case (1 tmo w1 b l2 w2 ls1 ps1 tos1 n1)
    have "b = (ts - sm_ts l \<ge> int (unat (timeout e)))"
      using 1(1,2) assms by (auto simp: timeout_of_target_def has_watch_timedout_def split: if_splits)
    with Cons.IH [OF 1(3)] Cons.prems(2) 1(5,6) show ?thesis by (auto simp: x)
  qed
qed simp

lemma timeouts_spec:
  assumes ok: "eng_ok fds adm cap {} e" and cb: "callback_timeout_target e = None" "watch_timeout_cb e = None"
  shows "\<exists>n e'. process_dirty_and_timeouts pf E e = Inr (n, e') \<and> eng_ok fds adm cap {} e'
    \<and> (\<forall>s. s \<in> dom (smap_find (lvl4_sms e')) \<longleftrightarrow>
         (\<exists>l. smap_find (lvl4_sms e) s = Some l \<and> timestamp (kernel E) (world e) - sm_ts l < int (unat (timeout e))))
    \<and> n = length (lvl4_sms e')"
proof -
  let ?ts = "timestamp (kernel E) (world e)"
  let ?late = "\<lambda>l. ?ts - sm_ts l \<ge> int (unat (timeout e))"
  obtain n e' tos ls ps w where r: "process_dirty_and_timeouts pf E e = Inr (n, e')" "eng_ok fds adm cap {} e'"
    "scan_lvl4_sms E e ?ts (lvl4_sms e) (world e) = Inr (ls, ps, tos, n, w)"
    "\<forall>s. ts_of e' s = (if s \<in> set tos then None else ts_of e s)" using dirty_and_timeouts_ok [OF ok] by blast
  have m: "smap_ok (lvl4_sms e)" "smap_ok (lvl4_sms e')" using eng_ok_lvl4(1) ok r(2) by blast+
  have find: "(s, l) \<in> set (lvl4_sms e) \<longleftrightarrow> smap_find (lvl4_sms e) s = Some l" for s l
    using m(1) by (metis smap_find_def smap_ok_def strict_sorted_iff map_of_eq_Some_iff)
  have "\<forall>x\<in>set (lvl4_sms e). sm_valid (snd x)"
    using conn_ok_of [OF ok] find by (force simp: conn_ok_def calm_def)
  then have tos: "tos = map fst (filter (\<lambda>x. ?late (snd x)) (lvl4_sms e))" "n + length tos = length (lvl4_sms e)"
    using scan_plain [OF cb r(3)] by auto
  have late: "s \<in> set tos \<longleftrightarrow> (\<exists>l. smap_find (lvl4_sms e) s = Some l \<and> ?late l)" for s
    unfolding tos(1) by (auto simp: find image_iff)
  have dom: "dom (smap_find (lvl4_sms e')) = dom (smap_find (lvl4_sms e)) - set tos"
    unfolding dom_ts_of using r(4) by (auto simp: dom_def)
  have "distinct tos"
    unfolding tos(1) using m(1) by (metis distinct_map_filter smap_ok_def strict_sorted_iff)
  then have "card (set tos) = length tos" by (rule distinct_card)
  moreover have "set tos \<subseteq> dom (smap_find (lvl4_sms e))" using late by blast
  ultimately have "length (lvl4_sms e') = length (lvl4_sms e) - length tos"
    using dom m by (simp add: smap_length card_Diff_subset finite_dom_smap)
  moreover have "s \<in> dom (smap_find (lvl4_sms e')) \<longleftrightarrow> (\<exists>l. smap_find (lvl4_sms e) s = Some l \<and> \<not> ?late l)" for s
    unfolding dom using late by auto
  ultimately show ?thesis using r(1,2) tos(2) by (auto simp: not_le)
qed

end

text \<open>
  C6. \<open>socket_finished\<close> ends exactly one connection: it closes the descriptor, removes the entries of
  the socket from both maps, gives the socket back, counts the target as done, and touches no
  other connection.
\<close>

theorem socket_finished_exact:
  assumes "engine_env adm E fds pf" and "eng_ok fds adm cap {} e" and "smap_find (lvl4_sms e) s = Some l"
  shows "\<exists>e'. socket_finished E s err e = Inr e' \<and> eng_ok fds adm cap {} e'
    \<and> fds (world e') s = None \<and> smap_find (lvl4_sms e') s = None \<and> smap_find (sockets_targets e') s = None
    \<and> avail_socks e' = avail_socks e + 1 \<and> ndone e' = ndone e + 1
    \<and> (\<forall>j. j \<noteq> s \<longrightarrow> smap_find (lvl4_sms e') j = smap_find (lvl4_sms e) j \<and> fds (world e') j = fds (world e) j)"
  using assms by (rule engine_env.finished_exact)

text \<open>An engine with one connection, on descriptor 3, that is being established.\<close>

definition one_conn :: "ready_set \<Rightarrow> nat \<Rightarrow> (unit sip_fn, unit, ready_set net) engine" where
  "one_conn ts now = (sip_engine 100 ((quiet_net ts)\<lparr>net_table := [(3, Some EPOLLOUT, 0, [])], net_clock := now\<rparr>))
     \<lparr>lvl4_sms := [(3, set_valid True (lvl4_sm_new 0))], sockets_targets := [(3, Target 1 (Port 80 0))],
      avail_socks := 99, nlaunched := 1\<rparr>"

lemma one_conn_ok: "eng_ok net_fds (\<lambda>f n. True) 100 {} (one_conn ts now)"
proof -
  have "conn_ok (\<lambda>f n. True) (set_valid True (lvl4_sm_new 0)) (Some (Some EPOLLOUT, 0))"
    by (simp add: conn_ok_def calm_def l4_ok_def quiescent_def progressing_def
      set_valid_def lvl4_sm_new_def lvl4_sm.defs state_machine.defs state_machine_new_def buf_new_def buf_ok_def)
  then show ?thesis
    by (auto simp: eng_ok_def book_ok_def one_conn_def sip_engine_def async_engine_new_def set_lvl4_finish_callback_def
        set_lvl4_connected_callback_def quiet_net_def net_fds_def net_get_def smap_ok_def split: if_splits)
qed

lemma one_conn_find:
  "smap_find (lvl4_sms (one_conn ts now)) s = (if s = 3 then Some (set_valid True (lvl4_sm_new 0)) else None)"
  "callback_timeout_target (one_conn ts now) = None" "watch_timeout_cb (one_conn ts now) = None"
  "timeout (one_conn ts now) = 5" "timestamp (kernel (net_env answers)) (world (one_conn ts now)) = int now"
  by (simp_all add: one_conn_def sip_engine_def async_engine_new_def set_lvl4_finish_callback_def
      set_lvl4_connected_callback_def timestamp_def net_env_def net_env_sel net_kernel_def)

theorem socket_finished_exact_witness:
  "\<exists>e'. socket_finished (net_env (\<lambda>ip. [])) 3 ECONNRESET (one_conn (Abs_ready_set sample_set) 0) = Inr e'
    \<and> eng_ok net_fds (\<lambda>f n. True) 100 {} e'
    \<and> net_fds (world e') 3 = None \<and> smap_find (lvl4_sms e') 3 = None \<and> smap_find (sockets_targets e') 3 = None
    \<and> avail_socks e' = avail_socks (one_conn (Abs_ready_set sample_set) 0) + 1 \<and> ndone e' = ndone (one_conn (Abs_ready_set sample_set) 0) + 1
    \<and> (\<forall>j. j \<noteq> 3 \<longrightarrow> smap_find (lvl4_sms e') j = smap_find (lvl4_sms (one_conn (Abs_ready_set sample_set) 0)) j
        \<and> net_fds (world e') j = net_fds (world (one_conn (Abs_ready_set sample_set) 0)) j)"
  by (rule socket_finished_exact [OF net_engine_env one_conn_ok]) (simp add: one_conn_find)

text \<open>
  C5. Timeouts: without callbacks that decide about them, \<open>process_dirty_and_timeouts\<close> ends exactly
  the connections on which nothing has happened for the configured number of seconds, and
  returns the number of the ones that stay.
\<close>

theorem timeouts_exact:
  assumes "engine_env adm E fds pf" and "eng_ok fds adm cap {} e"
    and "callback_timeout_target e = None" and "watch_timeout_cb e = None"
  shows "\<exists>n e'. process_dirty_and_timeouts pf E e = Inr (n, e') \<and> eng_ok fds adm cap {} e'
    \<and> (\<forall>s. s \<in> dom (smap_find (lvl4_sms e')) \<longleftrightarrow>
         (\<exists>l. smap_find (lvl4_sms e) s = Some l \<and> timestamp (kernel E) (world e) - sm_ts l < int (unat (timeout e))))
    \<and> n = length (lvl4_sms e')"
  using assms by (rule engine_env.timeouts_spec)

theorem timeouts_exact_witness:
  "\<exists>n e'. process_dirty_and_timeouts (2 ^ 30) (net_env (\<lambda>ip. [])) (one_conn (Abs_ready_set sample_set) 9) = Inr (n, e')
    \<and> eng_ok net_fds (\<lambda>f n. True) 100 {} e' \<and> dom (smap_find (lvl4_sms e')) = {} \<and> n = length (lvl4_sms e')"
proof -
  have z: "sm_ts (set_valid True (lvl4_sm_new 0) :: unit sip_fn lvl4_sm) = 0"
    by (simp add: set_valid_def lvl4_sm_new_def lvl4_sm.defs state_machine.defs state_machine_new_def)
  from timeouts_exact [OF net_engine_env [where answers = "\<lambda>ip. []"] one_conn_ok one_conn_find(2,3),
      of "Abs_ready_set sample_set" 9]
  obtain n e' where e': "process_dirty_and_timeouts (2 ^ 30) (net_env (\<lambda>ip. [])) (one_conn (Abs_ready_set sample_set) 9) = Inr (n, e')"
    "eng_ok net_fds (\<lambda>f n. True) 100 {} e'" "n = length (lvl4_sms e')"
    "\<And>s. s \<in> dom (smap_find (lvl4_sms e')) \<longleftrightarrow> (\<exists>l. (if s = 3 then Some (set_valid True (lvl4_sm_new 0 :: unit sip_fn lvl4_sm)) else None)
      = Some l \<and> int 9 - sm_ts l < int (unat (5 :: u32)))"
    unfolding one_conn_find by blast
  have "s \<notin> dom (smap_find (lvl4_sms e'))" for s unfolding e'(4) by (auto simp: z split: if_splits)
  then have "dom (smap_find (lvl4_sms e')) = {}" by blast
  with e'(1-3) show ?thesis by blast
qed

section \<open>Limits on how often something happens\<close>

text \<open>
  \<open>should_save_state\<close> and \<open>should_call_status_display\<close> share a pattern: an action is due when
  enough time has passed since the last one, and being due resets the time. The locale states the
  pattern; \<open>fired\<close> collects the times at which the action is due along a sequence of worlds.
\<close>

fun fired :: "('w \<Rightarrow> 's \<Rightarrow> bool \<times> 's) \<Rightarrow> ('w \<Rightarrow> int) \<Rightarrow> 'w list \<Rightarrow> 's \<Rightarrow> int list" where
  "fired step now [] s = []"
| "fired step now (w # ws) s =
     (case step w s of (due, s') \<Rightarrow> if due then now w # fired step now ws s' else fired step now ws s')"

locale rate_limited =
  fixes step :: "'w \<Rightarrow> 's \<Rightarrow> bool \<times> 's" and now :: "'w \<Rightarrow> int" and last :: "'s \<Rightarrow> int"
    and interval :: int and ok :: "'s \<Rightarrow> bool"
  assumes interval: "0 \<le> interval"
    and due: "ok s \<Longrightarrow> step w s = (True, s') \<Longrightarrow> last s + interval \<le> now w \<and> last s' = now w \<and> ok s'"
    and not_due: "ok s \<Longrightarrow> step w s = (False, s') \<Longrightarrow> now w < last s + interval \<and> last s' = last s \<and> ok s'"
begin

lemma fired_spaced:
  "ok s \<Longrightarrow> sorted_wrt (\<lambda>a b. a + interval \<le> b) (last s # fired step now ws s)"
proof (induction ws arbitrary: s)
  case (Cons w ws)
  obtain d s' where d: "step w s = (d, s')" by fastforce
  show ?case
  proof (cases d)
    case True
    with d due [OF Cons.prems] have s': "last s + interval \<le> now w" "last s' = now w" "ok s'" by auto
    have "last s + interval \<le> t" if "t \<in> set (fired step now ws s')" for t
      using Cons.IH [OF s'(3)] that s'(1,2) interval by fastforce
    with Cons.IH [OF s'(3)] s' d True show ?thesis by auto
  next
    case False
    with d not_due [OF Cons.prems] have "last s' = last s" "ok s'" by auto
    with Cons.IH [of s'] d False show ?thesis by simp
  qed
qed simp

end

definition save_check ::
  "('f, 'pl, 'w) env \<Rightarrow> 'w \<Rightarrow> ('f, 'pl, 'w) engine \<Rightarrow> bool \<times> ('f, 'pl, 'w) engine" where
  "save_check E w e = (case should_save_state E (e\<lparr>world := w\<rparr>) of Inl err \<Rightarrow> (False, e) | Inr r \<Rightarrow> r)"

definition status_check ::
  "('f, 'pl, 'w) env \<Rightarrow> 'w \<Rightarrow> ('f, 'pl, 'w) engine \<Rightarrow> bool \<times> ('f, 'pl, 'w) engine" where
  "status_check E w e = should_call_status_display E (e\<lparr>world := w\<rparr>)"

interpretation save: rate_limited "save_check E" "os_time (kernel E)" "\<lambda>e. the (last_save e)" "int secs"
    "\<lambda>e. time_autosave e = int secs \<and> 0 < secs \<and> file_autosave e \<noteq> [] \<and> last_save e \<noteq> None" for E secs
  by unfold_locales (auto simp: save_check_def should_save_state_def Let_def split: if_splits)

interpretation status: rate_limited "status_check E" "os_time (kernel E)" last_time_status_display "int secs"
    "\<lambda>e. int (unat (timeout_status_display e)) = int secs \<and> 0 < secs \<and> callback_status e \<noteq> None" for E secs
  by unfold_locales (auto simp: status_check_def should_call_status_display_def timestamp_def Let_def unat_eq_zero split: if_splits)

text \<open>
  C24. Automatic saves are at least the configured number of seconds apart, however often the
  main loop asks, and so are the calls of the status callback; the first of each comes at least
  that long after the time it is counted from.
\<close>

theorem saves_and_reports_spaced:
  assumes "0 < secs" and "file \<noteq> []" and "0 < period"
  shows "sorted_wrt (\<lambda>a b. a + int (unat secs) \<le> b)
      (0 # fired (save_check E) (os_time (kernel E)) ws (auto_save_state (Some file) secs e))
    \<and> sorted_wrt (\<lambda>a b. a + int (unat period) \<le> b)
      (last_time_status_display e
         # fired (status_check E) (os_time (kernel E)) ws (set_status_display_callback (Some f) period e))"
proof -
  have "0 < unat secs" "0 < unat period" using assms(1,3) by (simp_all add: unat_gt_0 word_gt_0)
  with assms(2) save.fired_spaced [of "auto_save_state (Some file) secs e" "unat secs" E ws]
    status.fired_spaced [of "set_status_display_callback (Some f) period e" "unat period" E ws]
  show ?thesis by (simp add: auto_save_state_def set_status_display_callback_def)
qed

theorem saves_and_reports_spaced_witness:
  "sorted_wrt (\<lambda>a b. a + int (unat (5 :: u32)) \<le> b)
      (0 # fired (save_check (net_env (\<lambda>ip. []))) (os_time (kernel (net_env (\<lambda>ip. []))))
             [quiet_net (Abs_ready_set sample_set), (quiet_net (Abs_ready_set sample_set))\<lparr>net_clock := 7\<rparr>] (auto_save_state (Some ''state'') 5 (sip_engine 2 (quiet_net (Abs_ready_set sample_set)))))
    \<and> sorted_wrt (\<lambda>a b. a + int (unat (3 :: u32)) \<le> b)
      (last_time_status_display (sip_engine 2 (quiet_net (Abs_ready_set sample_set)) :: (unit sip_fn, unit, ready_set net) engine)
         # fired (status_check (net_env (\<lambda>ip. []))) (os_time (kernel (net_env (\<lambda>ip. []))))
             [quiet_net (Abs_ready_set sample_set), (quiet_net (Abs_ready_set sample_set))\<lparr>net_clock := 7\<rparr>]
             (set_status_display_callback (Some (Sip_User ())) 3 (sip_engine 2 (quiet_net (Abs_ready_set sample_set)))))"
  by (rule saves_and_reports_spaced) simp_all

section \<open>Where the bookkeeping breaks\<close>

text \<open>
  C37. \<open>reconnect\<close> when the new descriptor differs from the old one: the entries of the old,
  closed descriptor stay in both maps, so that one more connection is on the books while the
  number of free sockets is what it was before.
\<close>

theorem reconnect_keeps_stale_entry:
  assumes "smap_ok (lvl4_sms e)" and "smap_ok (sockets_targets e)"
    and "smap_find (lvl4_sms e) s = Some l" and "smap_find (sockets_targets e) s = Some t"
    and "os_socket (kernel E) (port_socket_type E (tport t)) (port_socket_proto E (tport t))
           (os_close (kernel E) s (os_epoll_del (kernel E) s (world e))) = ((s', err), w')"
    and "s' \<noteq> s" and "s' \<noteq> -1" and "smap_find (lvl4_sms e) s' = None" and "unat (avail_socks e) + 1 < 2 ^ 32"
  shows "\<exists>e'. reconnect E s t l e = Inr e' \<and> smap_find (lvl4_sms e') s = Some l
    \<and> smap_find (sockets_targets e') s = Some t \<and> smap_find (lvl4_sms e') s' \<noteq> None
    \<and> length (lvl4_sms e') = length (lvl4_sms e) + 1 \<and> avail_socks e' = avail_socks e"
proof -
  have av: "avail_socks e + 1 > 0" using assms(9) by (simp add: word_less_nat_alt unat_word_ariths)
  show ?thesis using assms(1-8) av
    by (auto simp: reconnect_def create_socket_def new_socket_def remove_connected_socket_def add_connecting_socket_def
        Let_def get_lvl4_sm_def new_lvl4_sm_def put_lvl4_sm_def smap_put_find smap_insert_find smap_insert_ok smap_put_ok
        smap_length_put smap_length_insert split: prod.splits)
qed

text \<open>A kernel that hands out a descriptor of its choice.\<close>

definition fixed_fd_env :: "int \<Rightarrow> (unit sip_fn, unit, ready_set net) env" where
  "fixed_fd_env fd = (net_env (\<lambda>ip. []))\<lparr>kernel := (net_kernel (\<lambda>ip. []))\<lparr>os_socket := \<lambda>_ _ w. ((fd, 24), w)\<rparr>\<rparr>"

theorem reconnect_keeps_stale_entry_witness:
  "\<exists>e'. reconnect (fixed_fd_env 7) 3 (Target 1 (Port 80 0)) (set_valid True (lvl4_sm_new 0)) (one_conn (Abs_ready_set sample_set) 0) = Inr e'
    \<and> smap_find (lvl4_sms e') 3 = Some (set_valid True (lvl4_sm_new 0))
    \<and> smap_find (sockets_targets e') 3 = Some (Target 1 (Port 80 0)) \<and> smap_find (lvl4_sms e') 7 \<noteq> None
    \<and> length (lvl4_sms e') = length (lvl4_sms (one_conn (Abs_ready_set sample_set) 0)) + 1 \<and> avail_socks e' = avail_socks (one_conn (Abs_ready_set sample_set) 0)"
  by (rule reconnect_keeps_stale_entry [where err = 24 and
        w' = "os_close (kernel (fixed_fd_env 7)) 3 (os_epoll_del (kernel (fixed_fd_env 7)) 3 (world (one_conn (Abs_ready_set sample_set) 0)))"])
    (simp_all add: one_conn_def smap_ok_def fixed_fd_env_def)

text \<open>
  When \<open>socket()\<close> fails, the engine aborts: \<open>process_free_socks\<close> reports the failed target
  through \<open>socket_finished\<close> with descriptor -1, for which there is no target, and the assertion of
  \<open>target_from_socket\<close> fails.
\<close>

theorem socket_failure_aborts:
  assumes "ts_next_target E (world e) = Inr (Some t, w1)" and "\<not> is_end t" and "avail_socks e > 0"
    and "os_socket (kernel E) (port_socket_type E (tport t)) (port_socket_proto E (tport t)) w1 = ((-1, err), w2)"
    and "smap_find (sockets_targets e) (-1) = None" and "0 < lf"
  shows "process_free_socks lf E e = Inl Assertion_failed"
proof -
  obtain i where i: "unat (avail_socks e) = Suc i" using assms(3) by (metis gr0_conv_Suc unat_gt_0 word_gt_0)
  obtain n where n: "lf = Suc n" using assms(6) gr0_conv_Suc by blast
  have "launch_one (Suc n) E e = Inl Assertion_failed"
    using assms(1-5)
    by (simp add: create_socket_def new_socket_def socket_finished_def target_from_socket_def EBADF_def EINPROGRESS_def Let_def)
  then show ?thesis by (simp add: process_free_socks_def i n)
qed

theorem socket_failure_aborts_witness:
  "process_free_socks 9 (fixed_fd_env (-1)) (sip_engine 2 (quiet_net (Abs_ready_set sample_set))) = Inl Assertion_failed"
proof (rule socket_failure_aborts)
  let ?t = "Target 1 (Port 80 0)"
  have n: "simple_next_target 0 sample_set = Inr (?t, sample_set\<lparr>sts_it := it_next (1, 80) (sts_targets sample_set)\<rparr>)"
    by (simp add: simple_next_target_def sample_set_def)
  then have "ready_next (Abs_ready_set sample_set) =
      Inr (Some ?t, Abs_ready_set (sample_set\<lparr>sts_it := it_next (1, 80) (sts_targets sample_set)\<rparr>))"
    by (simp add: ready_next_def sample_rep)
  then show "ts_next_target (fixed_fd_env (-1)) (world (sip_engine 2 (quiet_net (Abs_ready_set sample_set)))) =
      Inr (Some ?t, (quiet_net (Abs_ready_set sample_set))\<lparr>net_targets :=
        Abs_ready_set (sample_set\<lparr>sts_it := it_next (1, 80) (sts_targets sample_set)\<rparr>)\<rparr>)"
    by (simp add: fixed_fd_env_def net_env_def net_env_with_def sip_engine_fresh quiet_net_def)
qed (simp_all add: fixed_fd_env_def sip_engine_def async_engine_new_def set_lvl4_finish_callback_def
    set_lvl4_connected_callback_def is_end_def)

text \<open>
  \<open>ensure_available_sockets\<close> raises the number of free sockets to the requested one, cut to 32
  bits, and never lowers it otherwise; nothing else changes.
\<close>

theorem ensure_available:
  "unat (avail_socks (ensure_available_sockets n e)) =
     (if unat (avail_socks e) < unat n then unat n mod 2 ^ 32 else unat (avail_socks e))
   \<and> ensure_available_sockets n e = e\<lparr>avail_socks := avail_socks (ensure_available_sockets n e)\<rparr>"
proof -
  have "unat (ucast (avail_socks e) :: u64) = unat (avail_socks e)"
  proof -
    have "unat (avail_socks e) < 2 ^ 64"
      using unsigned_less [of "avail_socks e", where 'a = nat] by (rule order.strict_trans) simp
    then show ?thesis by (simp add: unsigned_ucast_eq take_bit_nat_eq_self [of "unat (avail_socks e)"] del: unsigned_less)
  qed
  moreover have "unat (ucast n :: u32) = unat n mod 2 ^ 32"
    by (simp add: unsigned_ucast_eq unsigned_take_bit_eq take_bit_eq_mod)
  ultimately show ?thesis
    by (simp add: ensure_available_sockets_def word_less_nat_alt)
qed

section \<open>The scan may end too early\<close>

text \<open>
  A network that never reports an event; ten seconds pass in each wait. The target set is the
  plain \<open>SimpleTargetSet\<close> with three targets.
\<close>

definition plain_next :: "simple_set \<Rightarrow> (target option \<times> simple_set) res" where
  "plain_next s = bind_res (simple_next_target 0 s) (\<lambda>(t, s'). Inr (Some t, s'))"

definition silent_env :: "(unit sip_fn, unit, simple_set net) env" where
  "silent_env = (net_env_with unit_ports plain_next simple_init ready_finished (\<lambda>t c. c) (\<lambda>ip. []))
     \<lparr>kernel := (net_kernel (\<lambda>ip. []))\<lparr>os_epoll_wait := \<lambda>n w. (Some [], w\<lparr>net_clock := net_clock w + 10\<rparr>)\<rparr>\<rparr>"

definition three_targets :: "(u32 \<times> u32) iterator \<Rightarrow> simple_set" where
  "three_targets it =
     \<lparr>sts_targets = [((1, 80), Target 1 (Port 80 0)), ((2, 80), Target 2 (Port 80 0)), ((3, 80), Target 3 (Port 80 0))],
      sts_it = it\<rparr>"

lemma three_next:
  "plain_next (three_targets (At (1, 80))) = Inr (Some (Target 1 (Port 80 0)), three_targets (At (2, 80)))"
  "plain_next (three_targets (At (2, 80))) = Inr (Some (Target 2 (Port 80 0)), three_targets (At (3, 80)))"
  "plain_next (three_targets (At (3, 80))) = Inr (Some (Target 3 (Port 80 0)), three_targets At_end)"
  "plain_next (three_targets At_end) = Inr (Some (Target 0xFFFFFFFF (Port 0xFFFF 0)), three_targets At_end)"
  by (simp_all add: plain_next_def three_targets_def simple_next_target_def it_next_def smap_find_def word_le_nat_alt
      less_eq_prod_def target_end_def)

lemma silent_sel:
  "ts_next_target silent_env w = bind_res (plain_next (net_targets w)) (\<lambda>(t, s). Inr (t, w\<lparr>net_targets := s\<rparr>))"
  "os_socket (kernel silent_env) ty pr = net_socket" "os_connect (kernel silent_env) = net_connect (\<lambda>ip. [])"
  "os_close (kernel silent_env) = net_close" "os_epoll_add (kernel silent_env) = net_epoll_add"
  "os_epoll_del (kernel silent_env) = net_epoll_del" "os_epoll_create (kernel silent_env) w = w"
  "os_time (kernel silent_env) w = int (net_clock w)"
  "os_epoll_wait (kernel silent_env) n w = (Some [], w\<lparr>net_clock := net_clock w + 10\<rparr>)"
  "port_ops silent_env = unit_ports" "ts_init_host_sm silent_env t c = c"
  "ts_target_finished silent_env t (h, w) = Inr (True, h, w)"
  "call_finish silent_env f t b err w = Inr (w\<lparr>net_done := net_done w @ [(t, err)]\<rparr>)"
  by (cases c, simp_all add: silent_env_def net_env_with_def net_kernel_def ready_finished_def simple_target_finished_def)

lemma silent_finished:
  assumes "smap_find (sockets_targets e) s = Some t" and "smap_find (lvl4_sms e) s = Some l" and "smap_ok (lvl4_sms e)"
    and "smap_find (hosts_sms e) (ipv4 t) = Some h" and "smap_ok (hosts_sms e)" and "callback_finish e = Some f"
  shows "socket_finished silent_env s err e = Inr (e\<lparr>ndone := ndone e + 1,
     world := net_close s (net_epoll_del s (net_epoll_del s ((world e)\<lparr>net_done := net_done (world e) @ [(t, err)]\<rparr>))),
     hosts_sms := smap_erase (ipv4 t) (hosts_sms e), lvl4_sms := smap_erase s (lvl4_sms e),
     avail_socks := avail_socks e + 1, sockets_targets := smap_erase s (sockets_targets e)\<rparr>)"
  using assms
  by (simp add: socket_finished_def target_from_socket_def get_lvl4_sm_def call_callback_finish_def silent_sel
      put_lvl4_sm_def get_host_sm_def put_host_sm_def del_host_sm_def Let_def free_socket_def remove_connected_socket_def
      remove_connecting_socket_def del_lvl4_sm_def smap_erase_put)

lemma launch_sockets_numeral: "launch_sockets lf E (numeral k) e = launch_sockets lf E (Suc (pred_numeral k)) e"
  by (simp only: numeral_eq_Suc)

lemma bind_res_weak: "m = m' \<Longrightarrow> bind_res m f = bind_res m' f"
  by simp

lemmas run_defs = three_next sip_engine_def quiet_net_def set_lvl4_finish_callback_def set_lvl4_connected_callback_def
  async_engine_new_def create_socket_def new_socket_def net_socket_def Let_def net_connect_def net_get_def net_set_def
  EINPROGRESS_def new_lvl4_sm_def put_lvl4_sm_def get_host_sm_def put_host_sm_def add_connecting_socket_def
  net_epoll_add_def is_end_def port_value_def smap_find_def timestamp_def host_sm_new_def lvl4_sm_new_def set_valid_def
  set_on_connect_def update_ts_def state_machine_new_def lvl4_sm.defs host_sm.defs state_machine.defs process_events_def
  process_dirty_and_timeouts_def should_process_buffer_def timeout_of_target_def has_watch_timedout_def net_close_def
  net_epoll_del_def


section \<open>Immediate failure with an IPV4TargetSet\<close>

text \<open>
  A network in which \<open>connect\<close> fails at once (113 is \<open>EHOSTUNREACH\<close>), and the target set of one
  address and one port.
\<close>

type_synonym one_host = "(u32 list, port list, u32 list, port list \<times> nat, unit) ipv4_set"

definition unreachable_env :: "(unit sip_fn, port list, one_host net) env" where
  "unreachable_env =
     (net_env_with list_ports (\<lambda>s. case ipv4_next_target 0 list_leeloo s of (t, s') \<Rightarrow> Inr (Some t, s'))
        (ipv4_init list_leeloo) (ipv4_target_finished list_ports list_leeloo) (ipv4_init_host_sm list_leeloo) (\<lambda>ip. []))
     \<lparr>kernel := (net_kernel (\<lambda>ip. []))\<lparr>os_connect := \<lambda>_ _ w. ((-1, 113), w)\<rparr>\<rparr>"


section \<open>Going on after a restart\<close>

text \<open>
  The engine on an \<open>IPV4TargetSet\<close> that is a part of the world: \<open>get\<close> and \<open>put\<close> read and replace it,
  \<open>fs\<close> reads the files. An exception of \<open>restore_state\<close> leaves the engine.
\<close>

definition restores_set ::
  "('f, 'pl, 'w) env \<Rightarrow> ('il, 'ql, 'v, 'p, 'g, 'x) archives \<Rightarrow> ('il, 'ql, 'v, 'p, 'g) leeloo \<Rightarrow> ('w \<Rightarrow> 'x files)
     \<Rightarrow> ('w \<Rightarrow> ('il, 'ql, 'v, 'p, 'g) ipv4_set) \<Rightarrow> ('w \<Rightarrow> ('il, 'ql, 'v, 'p, 'g) ipv4_set \<Rightarrow> 'w) \<Rightarrow> bool"
where
  "restores_set E A G fs get put \<longleftrightarrow>
     (\<forall>w s. get (put w s) = s) \<and> (\<forall>w. ts_init E w = Inr (put w (ipv4_init G (get w))))
     \<and> (\<forall>name w. ts_restore_state E name w =
          (case restore_state_file (ipv4_restore_state A G) (fs w) name (get w) of
             (None, s) \<Rightarrow> Inr (put w s) | (Some err, s) \<Rightarrow> Inl err))"

text \<open>
  C33. A restored scan can only be continued with \<open>launch_shrd\<close>, which does not initialise the set:
  the scan then takes the targets the saved set had left. \<open>launch\<close> initialises the set and starts
  over with every combination of an address and a port, those done before the save included.
\<close>

theorem launch_restarts_restored_scan:
  assumes laws: "list_laws G addrs ports" and perm: "permuting G addrs ports vl pl"
    and arch: "archive_laws A G addrs ports vl pl resume" and set: "restores_set E A G fs get put"
    and w: "writable file" and saved: "save_state_file writable (ipv4_save_state A) file s fs0 = (None, fs (world e))"
    and ne: "ports (ports_list s) \<noteq> []" and res: "resume (addrs (ips_list s)) (rand_v4 s) = ip # ips"
  shows "\<exists>e1 e2. (\<forall>sf pf lf idx count.
        bind_res (restore_state E file e) (launch sf pf lf E) = do_async_scan sf pf lf E e1
      \<and> bind_res (restore_state E file e) (launch_shrd sf pf lf E idx count) = do_async_scan sf pf lf E e2)
    \<and> (\<exists>n ts s'. take_targets (ipv4_source u G) n (get (world e1)) = Inr (ts, s') \<and> distinct ts
      \<and> set ts = {Target i p | i p. i \<in> set (addrs (ips_list s)) \<and> p \<in> set (ports (ports_list s))}
      \<and> is_end (fst (ipv4_next_target u G s')))
    \<and> (\<exists>n ts s'. take_targets (ipv4_source u G) n (get (world e2)) = Inr (ts, s')
      \<and> mset ts = mset (map (Target ip) (pl (ports_list s) (rand_port s)) @ product_targets ips (ports (ports_list s)))
      \<and> is_end (fst (ipv4_next_target u G s')))"
proof -
  from restore_after_save [OF laws arch, of writable "file", OF w, of s fs0 "get (world e)"] saved obtain s2 where s2:
    "restore_state_file (ipv4_restore_state A G) (fs (world e)) file (get (world e)) = (None, s2)"
    "addrs (ips_list s2) = addrs (ips_list s)" "ports (ports_list s2) = ports (ports_list s)"
    "vl (ips_list s2) (rand_v4 s2) = ip # ips" "pl (ports_list s2) (rand_port s2) = pl (ports_list s) (rand_port s)"
    using res by auto
  let ?e2 = "e\<lparr>world := put (world e) s2\<rparr>"
  let ?e1 = "e\<lparr>world := put (put (world e) s2) (ipv4_init G s2)\<rparr>"
  have "restore_state E file e = Inr ?e2" using set s2(1) by (simp add: restores_set_def restore_state_def)
  moreover have "init_scan E ?e2 = Inr ?e1" using set by (simp add: restores_set_def init_scan_def)
  moreover have "get (world ?e1) = ipv4_init G s2" "get (world ?e2) = s2" using set by (simp_all add: restores_set_def)
  ultimately show ?thesis
    using ipv4_init_covers [OF laws perm, of s2 u] ipv4_walk [OF perm s2(4,3) ne, of u] ne s2
    by (intro exI [of _ ?e1] exI [of _ ?e2]) (simp add: launch_def launch_shrd_def left_after_def, blast)
qed

definition state_files :: "piece files" where
  "state_files = snd (save_state_file (\<lambda>f. True) (ipv4_save_state list_archives) ''state'' one_drawn (\<lambda>f. None))"

definition restart_env :: "(unit sip_fn, port list, one_host net) env" where
  "restart_env = unreachable_env\<lparr>ts_restore_state := \<lambda>name w.
     case restore_state_file (ipv4_restore_state list_archives list_leeloo) state_files name (net_targets w) of
       (None, s) \<Rightarrow> Inr (w\<lparr>net_targets := s\<rparr>) | (Some err, s) \<Rightarrow> Inl err\<rparr>"

lemma restart_env_restores:
  "restores_set restart_env list_archives list_leeloo (\<lambda>w. state_files) net_targets (\<lambda>w s. w\<lparr>net_targets := s\<rparr>)"
  by (simp add: restores_set_def restart_env_def unreachable_env_def net_env_with_def)

lemma state_files_saved:
  "save_state_file (\<lambda>f. True) (ipv4_save_state list_archives) ''state'' one_drawn (\<lambda>f. None) = (None, state_files)"
  by (simp add: state_files_def save_state_file_def ipv4_save_state_def then_do_def finally_do_def list_archives_def
      put_piece_def)

theorem launch_restarts_restored_scan_witness:
  "\<exists>e1 e2. (\<forall>sf pf lf idx count.
        bind_res (restore_state restart_env ''state'' (async_engine_new 1 5 (quiet_net two_ports))) (launch sf pf lf restart_env)
          = do_async_scan sf pf lf restart_env e1
      \<and> bind_res (restore_state restart_env ''state'' (async_engine_new 1 5 (quiet_net two_ports)))
          (launch_shrd sf pf lf restart_env idx count) = do_async_scan sf pf lf restart_env e2)
    \<and> (\<exists>n ts s'. take_targets (ipv4_source 0 list_leeloo) n (net_targets (world e1)) = Inr (ts, s') \<and> distinct ts
      \<and> set ts = {Target i p | i p. i \<in> set [7] \<and> p \<in> set [Port 80 0, Port 443 0]}
      \<and> is_end (fst (ipv4_next_target 0 list_leeloo s')))
    \<and> (\<exists>n ts s'. take_targets (ipv4_source 0 list_leeloo) n (net_targets (world e2)) = Inr (ts, s')
      \<and> mset ts = {# Target 7 (Port 443 0) #} \<and> is_end (fst (ipv4_next_target 0 list_leeloo s')))"
  using launch_restarts_restored_scan [OF list_leeloo_laws list_archives_laws restart_env_restores _ state_files_saved,
      where ip = 7 and ips = "[]" and e = "async_engine_new 1 5 (quiet_net two_ports)" and u = 0]
  by (simp add: one_drawn_simps)

end
