(* ===== verification/IPV4_Scan.thy ===== *)
theory IPV4_Scan
  imports Engine_Theorems
begin

text \<open>
  The whole program on the product of addresses and ports: the engine over an \<open>IPV4TargetSet\<close>, the SIP
  scanner, and the network of \<open>Scripted_Net\<close>. The set provides the interface \<open>scan_source\<close>, so that the
  general theorems on the engine apply.
\<close>

section \<open>Generators of any order\<close>

text \<open>
  Lists as lists, and generators that walk through their list sorted by an arbitrary key, another one
  at every initialisation: every order in which the addresses and, for each address, the ports can
  be drawn is the order of some \<open>kv\<close> and \<open>kp\<close>.
\<close>

definition keyed_leeloo ::
  "(nat \<Rightarrow> u32 \<Rightarrow> nat) \<Rightarrow> (nat \<Rightarrow> port \<Rightarrow> nat) \<Rightarrow> (u32 list, port list, u32 list, port list \<times> nat, nat) leeloo" where
  "keyed_leeloo kv kp =
     \<lparr>il_aggregate = remdups, il_create_index_cache = (\<lambda>_ l. l), ql_aggregate = remdups,
      ql_create_index_cache = (\<lambda>_ l. l), v4_new = [], v4_init = (\<lambda>l g. (sort_key (kv g) l, Suc g)), v4_end = (\<lambda>v. v = []),
      v4_next = tl, v4_get_current = (\<lambda>_ v. hd v), v4_get_current_step = (\<lambda>v. of_nat (length v)),
      v4_step_done = (\<lambda>_ v. v), rp_new = ([], 0), rp_init = (\<lambda>l g. ((sort_key (kp g) l, length l), Suc g)),
      rp_end = (\<lambda>p. fst p = []), rp_draw = (\<lambda>_ p. (hd (fst p), tl (fst p), snd p)),
      rp_size_original = (\<lambda>p. of_nat (snd p))\<rparr>"

type_synonym keyed_set = "(u32 list, port list, u32 list, port list \<times> nat, nat) ipv4_set"

text \<open>The targets of the addresses to come, and those of a set, in the order they will be drawn.\<close>

fun later :: "(nat \<Rightarrow> port \<Rightarrow> nat) \<Rightarrow> port list \<Rightarrow> u32 list \<Rightarrow> nat \<Rightarrow> target list" where
  "later kp ps [] g = []"
| "later kp ps (i # is) g = map (Target i) (sort_key (kp g) ps) @ later kp ps is (Suc g)"

definition keyed_todo :: "(nat \<Rightarrow> port \<Rightarrow> nat) \<Rightarrow> keyed_set \<Rightarrow> target list" where
  "keyed_todo kp s =
     (case rand_v4 s of [] \<Rightarrow> []
      | i # is \<Rightarrow> map (Target i) (fst (rand_port s)) @ later kp (ports_list s) is (mt_rand_ports s))"

lemma mset_later: "mset (later kp ps is g) = mset (product_targets is ps)"
  by (induction "is" arbitrary: g) (simp_all add: mset_map)

section \<open>The set as a source of targets\<close>

text \<open>
  A set with at least one port whose addresses do not include \<open>255.255.255.255\<close>, which with port
  \<open>65535\<close> would be the end of the targets.
\<close>

definition ipv4_ready :: "keyed_set \<Rightarrow> bool" where
  "ipv4_ready s \<longleftrightarrow> ports_list s \<noteq> [] \<and> 0xFFFFFFFF \<notin> set (ips_list s) \<union> set (rand_v4 s)"

typedef ready_ipv4 = "{s. ipv4_ready s}"
  by (intro exI [of _ "ipv4_new (keyed_leeloo (\<lambda>_ _. 0) (\<lambda>_ _. 0)) [] [Port 80 0] 0 0"])
    (simp add: ipv4_ready_def ipv4_new_def keyed_leeloo_def)

type_synonym keys = "(nat \<Rightarrow> u32 \<Rightarrow> nat) \<times> (nat \<Rightarrow> port \<Rightarrow> nat)"

abbreviation leeloo_of :: "keys \<Rightarrow> (u32 list, port list, u32 list, port list \<times> nat, nat) leeloo" where
  "leeloo_of k \<equiv> keyed_leeloo (fst k) (snd k)"

definition ready_ipv4_next :: "keys \<Rightarrow> ready_ipv4 \<Rightarrow> (target option \<times> ready_ipv4) res" where
  "ready_ipv4_next k s = (case ipv4_next_target 0 (leeloo_of k) (Rep_ready_ipv4 s) of (t, s') \<Rightarrow> Inr (Some t, Abs_ready_ipv4 s'))"

definition ready_ipv4_init :: "keys \<Rightarrow> ready_ipv4 \<Rightarrow> ready_ipv4" where
  "ready_ipv4_init k s = Abs_ready_ipv4 (ipv4_init (leeloo_of k) (Rep_ready_ipv4 s))"

text \<open>An index of a host that was never set has some value, here \<open>j\<close>.\<close>

definition some_index :: "u32 \<Rightarrow> ('f, 'pl) host_sm \<Rightarrow> ('f, 'pl) host_sm" where
  "some_index j h = (case rand_idx_ip h of None \<Rightarrow> host_set_rand_idx_ip j h | Some i \<Rightarrow> h)"

definition ready_ipv4_finished ::
  "keys \<Rightarrow> u32 \<Rightarrow> target \<Rightarrow> ('f, port list) host_sm \<times> ready_ipv4 \<Rightarrow> (bool \<times> ('f, port list) host_sm \<times> ready_ipv4) res" where
  "ready_ipv4_finished k j t c =
     (case c of (h, s) \<Rightarrow> bind_res (ipv4_target_finished list_ports (leeloo_of k) t (some_index j h, Rep_ready_ipv4 s))
        (\<lambda>(d, h', s'). Inr (d, h', Abs_ready_ipv4 s')))"

definition ready_ipv4_init_host ::
  "keys \<Rightarrow> target \<Rightarrow> ('f, port list) host_sm \<times> ready_ipv4 \<Rightarrow> ('f, port list) host_sm \<times> ready_ipv4" where
  "ready_ipv4_init_host k t c =
     (case c of (h, s) \<Rightarrow> case ipv4_init_host_sm (leeloo_of k) t (h, Rep_ready_ipv4 s) of (h', s') \<Rightarrow> (h', Abs_ready_ipv4 s'))"

definition ready_ipv4_todo :: "keys \<Rightarrow> ready_ipv4 \<Rightarrow> target list" where
  "ready_ipv4_todo k s = keyed_todo (snd k) (Rep_ready_ipv4 s)"

lemma ready_ipv4_rep: "ipv4_ready r \<Longrightarrow> Rep_ready_ipv4 (Abs_ready_ipv4 r) = r"
  by (simp add: Abs_ready_ipv4_inverse)

lemma keyed_next:
  assumes "ipv4_ready s"
  shows "case ipv4_next_target 0 (keyed_leeloo kv kp) s of (t, s') \<Rightarrow> ipv4_ready s' \<and>
    (if is_end t then keyed_todo kp s = [] \<and> keyed_todo kp s' = [] else keyed_todo kp s = t # keyed_todo kp s')"
proof -
  obtain p ps where ports: "sort_key (kp (mt_rand_ports s)) (ports_list s) = p # ps"
    using assms by (cases "sort_key (kp (mt_rand_ports s)) (ports_list s)")
      (auto simp: ipv4_ready_def dest: arg_cong [of _ _ length])
  have "\<not> is_end (Target i q)" if "i \<in> set (rand_v4 s)" for i q
    using assms that by (auto simp: ipv4_ready_def is_end_def)
  then show ?thesis
    using assms ports
    by (cases "rand_v4 s"; cases "fst (rand_port s)"; cases "tl (rand_v4 s)")
      (auto simp: ipv4_next_target_def keyed_leeloo_def keyed_todo_def ipv4_ready_def is_end_target_end split: list.splits)
qed

lemma ipv4_finished_ready:
  fixes h :: "('f, port list) host_sm"
  shows "\<exists>d h'. ipv4_target_finished list_ports (keyed_leeloo kv kp) t (some_index j h, s) = Inr (d, h', s)"
proof -
  have "rand_idx_ip (host_port_done list_ports (tport t) (some_index j h)) \<noteq> None"
    by (auto simp: host_port_done_def some_index_def host_set_rand_idx_ip_def Let_def split: option.split)
  then show ?thesis
    by (auto simp: ipv4_target_finished_def host_rand_idx_ip_def keyed_leeloo_def Let_def)
qed

interpretation vs: scan_source "ready_ipv4_next k" "ready_ipv4_finished k j" "ready_ipv4_init_host k" "ready_ipv4_todo k" for k j
proof
  fix k s
  let ?r = "Rep_ready_ipv4 s"
  have r: "ipv4_ready ?r" using Rep_ready_ipv4 by simp
  obtain t r' where n: "ipv4_next_target 0 (leeloo_of k) ?r = (t, r')" by fastforce
  then show "\<exists>t s'. ready_ipv4_next k s = Inr (Some t, s') \<and>
      (if is_end t then ready_ipv4_todo k s = [] \<and> ready_ipv4_todo k s' = [] else ready_ipv4_todo k s = t # ready_ipv4_todo k s')"
    using keyed_next [OF r, where kv = "fst k" and kp = "snd k"]
    by (intro exI [of _ t] exI [of _ "Abs_ready_ipv4 r'"])
      (simp add: ready_ipv4_next_def ready_ipv4_todo_def ready_ipv4_rep split: if_splits)
next
  fix k t and h :: "(unit sip_fn, port list) host_sm" and s j
  show "\<exists>d h' s'. ready_ipv4_finished k j t (h, s) = Inr (d, h', s') \<and> ready_ipv4_todo k s' = ready_ipv4_todo k s"
    using ipv4_finished_ready [where kv = "fst k" and kp = "snd k" and t = t and j = j and h = h and s = "Rep_ready_ipv4 s"]
    by (auto simp: ready_ipv4_finished_def Rep_ready_ipv4_inverse)
next
  fix k t and h :: "(unit sip_fn, port list) host_sm" and s
  show "ready_ipv4_todo k (snd (ready_ipv4_init_host k t (h, s))) = ready_ipv4_todo k s"
    by (simp add: ready_ipv4_init_host_def ipv4_init_host_sm_def Rep_ready_ipv4_inverse)
qed

section \<open>A scan of a product\<close>

definition ipv4_env :: "keys \<Rightarrow> u32 \<Rightarrow> (u32 \<Rightarrow> u8 list) \<Rightarrow> (unit sip_fn, port list, ready_ipv4 net) env" where
  "ipv4_env k j = net_env_with list_ports (ready_ipv4_next k) (ready_ipv4_init k) (ready_ipv4_finished k j) (ready_ipv4_init_host k)"

interpretation il: live_env "\<lambda>f n. True" "ipv4_env k j answers" net_fds "2 ^ 30" "net_cnt (ready_ipv4_todo k)" 1 for k j answers
  unfolding ipv4_env_def by (rule vs.source_live_env)

interpretation ia: account_env "\<lambda>f n. True" "ipv4_env k j answers" net_fds "2 ^ 30" "net_todo (ready_ipv4_todo k)" net_fin for k j answers
  unfolding ipv4_env_def by (rule vs.source_account_env)

lemma ipv4_init_scan:
  "init_scan (ipv4_env k j answers) (sip_engine n (quiet_net s)) = Inr (sip_engine n (quiet_net (ready_ipv4_init k s)))"
  by (simp add: init_scan_def ipv4_env_def net_env_with_def sip_engine_def quiet_net_def async_engine_new_def
      set_lvl4_finish_callback_def set_lvl4_connected_callback_def)

text \<open>A new set with the given lists; the two numbers stand for the seeds.\<close>

definition new_product :: "keys \<Rightarrow> u32 list \<Rightarrow> port list \<Rightarrow> nat \<Rightarrow> nat \<Rightarrow> ready_ipv4" where
  "new_product k ips ps gi gp = Abs_ready_ipv4 (ipv4_new (leeloo_of k) ips ps gi gp)"

lemma new_product_todo:
  assumes "ps \<noteq> []" and "0xFFFFFFFF \<notin> set ips"
  shows "mset (ready_ipv4_todo k (ready_ipv4_init k (new_product k ips ps gi gp))) = mset (product_targets (remdups ips) (remdups ps))"
proof -
  let ?s = "ipv4_new (leeloo_of k) ips ps gi gp" and ?is = "sort_key (fst k gi) (remdups ips)"
  have "ipv4_ready ?s" "ipv4_ready (ipv4_init (leeloo_of k) ?s)"
    using assms by (auto simp: ipv4_ready_def ipv4_new_def ipv4_init_def keyed_leeloo_def Let_def)
  then have "mset (ready_ipv4_todo k (ready_ipv4_init k (new_product k ips ps gi gp))) = mset (product_targets ?is (remdups ps))"
    by (auto simp: ready_ipv4_todo_def ready_ipv4_init_def new_product_def ready_ipv4_rep ipv4_init_def ipv4_new_def keyed_leeloo_def
        Let_def keyed_todo_def mset_later mset_map split: list.split)
  also have "\<dots> = mset (product_targets (remdups ips) (remdups ps))" by (rule mset_product_targets) simp
  finally show ?thesis .
qed



end
