(* ===== verification/SSL.thy ===== *)
theory SSL
  imports Protocol_Base
begin

text \<open>
  The SSL scanner (\<open>protocols/ssl.h\<close>, \<open>protocols/ssl.cpp\<close>, \<open>protocols/ssl_structs.h\<close>): it sends a
  fixed client hello, reads the server hello and the certificate message, and hands the cipher and
  each certificate to the user. The packed structs are records with their bytes in memory order
  on the little-endian hosts the library targets. A closure of the scanner is a value of
  \<open>ssl_fn\<close>; \<open>this\<close>, captured by all of them, is the record \<open>ssl\<close>.
\<close>

section \<open>Structures\<close>

record tls =
  tls_msg_type :: u8
  tls_version :: "u8 \<times> u8"
  tls_length :: "u8 \<times> u8"

record handshake =
  hs_msg_type :: u8
  hs_length2 :: u8
  hs_length1 :: u8
  hs_length0 :: u8

record certificate =
  crt_length2 :: u8
  crt_length1 :: u8
  crt_length0 :: u8

record client_hello =
  ch_version :: "u8 \<times> u8"
  ch_gmt_unix_time :: "u8 \<times> u8 \<times> u8 \<times> u8"
  ch_random_bytes :: "u8 list"
  ch_session_id_length :: u8
  ch_cipher_length :: "u8 \<times> u8"
  ch_cipher_data :: "u16 list"
  ch_compression :: "u8 \<times> u8"
  ch_ext_length :: u16

text \<open>A \<open>uint16_t\<close> in memory.\<close>

definition le16 :: "u16 \<Rightarrow> u8 list" where
  "le16 x = [of_nat (unat x mod 256), of_nat (unat x div 256)]"

definition read_le16 :: "u8 list \<Rightarrow> u16" where
  "read_le16 bs = of_nat (unat (bs ! 0) + 256 * unat (bs ! 1))"

definition tls_bytes :: "tls \<Rightarrow> u8 list" where
  "tls_bytes t = [tls_msg_type t, fst (tls_version t), snd (tls_version t),
                  fst (tls_length t), snd (tls_length t)]"

definition handshake_bytes :: "handshake \<Rightarrow> u8 list" where
  "handshake_bytes h = [hs_msg_type h, hs_length2 h, hs_length1 h, hs_length0 h]"

definition client_hello_bytes :: "client_hello \<Rightarrow> u8 list" where
  "client_hello_bytes c =
     [fst (ch_version c), snd (ch_version c)]
     @ (case ch_gmt_unix_time c of (t0, t1, t2, t3) \<Rightarrow> [t0, t1, t2, t3])
     @ ch_random_bytes c
     @ [ch_session_id_length c, fst (ch_cipher_length c), snd (ch_cipher_length c)]
     @ concat (map le16 (ch_cipher_data c))
     @ [fst (ch_compression c), snd (ch_compression c)]
     @ le16 (ch_ext_length c)"

text \<open>The casts of a buffer pointer to a struct pointer.\<close>

definition tls_of :: "u8 list \<Rightarrow> tls" where
  "tls_of bs = \<lparr>tls_msg_type = bs ! 0, tls_version = (bs ! 1, bs ! 2), tls_length = (bs ! 3, bs ! 4)\<rparr>"

definition handshake_of :: "u8 list \<Rightarrow> handshake" where
  "handshake_of bs = \<lparr>hs_msg_type = bs ! 0, hs_length2 = bs ! 1, hs_length1 = bs ! 2, hs_length0 = bs ! 3\<rparr>"

definition certificate_of :: "u8 list \<Rightarrow> certificate" where
  "certificate_of bs = \<lparr>crt_length2 = bs ! 0, crt_length1 = bs ! 1, crt_length0 = bs ! 2\<rparr>"

definition get_length24 :: "u8 \<Rightarrow> u8 \<Rightarrow> u8 \<Rightarrow> u32" where
  "get_length24 l2 l1 l0 = push_bit 16 (ucast l2) OR push_bit 8 (ucast l1) OR ucast l0"

definition hs_get_length :: "handshake \<Rightarrow> u32" where
  "hs_get_length h = get_length24 (hs_length2 h) (hs_length1 h) (hs_length0 h)"

definition crt_get_length :: "certificate \<Rightarrow> u32" where
  "crt_get_length c = get_length24 (crt_length2 c) (crt_length1 c) (crt_length0 c)"

section \<open>The SSL object\<close>

record 'u ssl =
  ssl_client_hello :: "u8 list"
  on_certif :: "'u option"
  on_cipher :: "'u option"
  on_failure :: "'u option"

text \<open>The constructor, called at time \<open>now\<close>.\<close>

definition ssl_new :: "int \<Rightarrow> 'u ssl" where
  "ssl_new now =
     (let tls = \<lparr>tls_msg_type = 0x16, tls_version = (3, 0), tls_length = htons (4 + 61)\<rparr>;
          hs = \<lparr>hs_msg_type = 1, hs_length2 = 0, hs_length1 = 0, hs_length0 = 61\<rparr>;
          ch = \<lparr>ch_version = (3, 0), ch_gmt_unix_time = htonl (of_int now),
                ch_random_bytes = replicate 28 0xAA, ch_session_id_length = 0,
                ch_cipher_length = htons 20,
                ch_cipher_data = [0x0100, 0x0200, 0x3B00, 0x0400, 0x0500, 0x0A00, 0x2F00, 0x3500,
                                  0x3C00, 0x3D00],
                ch_compression = (1, 0), ch_ext_length = 0\<rparr>
      in \<lparr>ssl_client_hello = tls_bytes tls @ handshake_bytes hs @ client_hello_bytes ch,
          on_certif = None, on_cipher = None, on_failure = None\<rparr>)"

definition on_protocol_failure :: "'u option \<Rightarrow> 'u ssl \<Rightarrow> 'u ssl" where
  "on_protocol_failure f S = S\<lparr>on_failure := f\<rparr>"

definition set_on_cipher :: "'u option \<Rightarrow> 'u ssl \<Rightarrow> 'u ssl" where
  "set_on_cipher f S = S\<lparr>on_cipher := f\<rparr>"

definition set_on_certificate :: "'u option \<Rightarrow> 'u ssl \<Rightarrow> 'u ssl" where
  "set_on_certificate f S = S\<lparr>on_certif := f\<rparr>"

datatype ssl_stage = Handshake1 | Handshake2

datatype 'u ssl_fn =
    Ssl_Object "'u ssl"
  | Ssl_Tls_Header "'u ssl" ssl_stage
  | Ssl_Handshake "'u ssl" ssl_stage
  | Ssl_User 'u

record ('u, 'pl, 'w) ssl_user =
  lu_data :: "'u \<Rightarrow> connected_target \<Rightarrow> nat \<Rightarrow> u32 \<Rightarrow> ('u ssl_fn, 'pl, 'w) conn
                  \<Rightarrow> (bool \<times> ('u ssl_fn, 'pl, 'w) conn) res"
  lu_cipher :: "'u \<Rightarrow> connected_target \<Rightarrow> u16 \<Rightarrow> ('u ssl_fn, 'pl, 'w) conn
                  \<Rightarrow> (bool \<times> ('u ssl_fn, 'pl, 'w) conn) res"
  lu_connect :: "'u \<Rightarrow> connected_target \<Rightarrow> ('u ssl_fn, 'pl, 'w) conn
                  \<Rightarrow> (bool \<times> ('u ssl_fn, 'pl, 'w) conn) res"
  lu_python :: "'u \<Rightarrow> connected_target \<Rightarrow> u32 \<Rightarrow> ('u ssl_fn, 'pl, 'w) conn
                  \<Rightarrow> (process_code \<times> ('u ssl_fn, 'pl, 'w) conn) res"

section \<open>Handlers\<close>

definition ssl_fail ::
  "('u, 'pl, 'w) ssl_user \<Rightarrow> 'u ssl \<Rightarrow> connected_target \<Rightarrow> nat \<Rightarrow> u32 \<Rightarrow> ('u ssl_fn, 'pl, 'w) conn
     \<Rightarrow> (bool \<times> ('u ssl_fn, 'pl, 'w) conn) res"
where
  "ssl_fail U S ct off n c = call_cb False (on_failure S) (\<lambda>u. lu_data U u ct off n c) c"

definition ssl_set_trigger :: "u32 \<Rightarrow> 'u ssl_fn \<Rightarrow> ('u ssl_fn, 'pl, 'w) conn \<Rightarrow> ('u ssl_fn, 'pl, 'w) conn" where
  "ssl_set_trigger n f c = (case c of (l, h, w) \<Rightarrow> (set_trigger (Size_Data_Trigger (Some f) n) l, h, w))"

definition ssl_connect ::
  "'w os \<Rightarrow> 'u ssl \<Rightarrow> connected_target \<Rightarrow> ('u ssl_fn, 'pl, 'w) conn
     \<Rightarrow> (bool \<times> ('u ssl_fn, 'pl, 'w) conn) res"
where
  "ssl_connect K S ct c =
     (case c of (l, h, w) \<Rightarrow>
        let w1 = snd (ct_send K ct (ssl_client_hello S) w)
        in Inr (True, ssl_set_trigger 5 (Ssl_Tls_Header S Handshake1) (l, h, w1)))"

definition on_tls_header ::
  "('u, 'pl, 'w) ssl_user \<Rightarrow> 'u ssl \<Rightarrow> connected_target \<Rightarrow> nat \<Rightarrow> u32 \<Rightarrow> 'u ssl_fn
     \<Rightarrow> ('u ssl_fn, 'pl, 'w) conn \<Rightarrow> (bool \<times> ('u ssl_fn, 'pl, 'w) conn) res"
where
  "on_tls_header U S ct buf sz on_hs c =
     bind_res (buf_bytes buf 5 (l4_buf (fst c))) (\<lambda>bs.
       let tls = tls_of bs in
       if tls_msg_type tls \<noteq> 0x16 then ssl_fail U S ct buf sz c
       else Inr (True, ssl_set_trigger (ucast (case tls_length tls of (b0, b1) \<Rightarrow> ntohs b0 b1)) on_hs c))"

definition on_handshake1 ::
  "('u, 'pl, 'w) ssl_user \<Rightarrow> 'u ssl \<Rightarrow> connected_target \<Rightarrow> nat \<Rightarrow> u32
     \<Rightarrow> ('u ssl_fn, 'pl, 'w) conn \<Rightarrow> (bool \<times> ('u ssl_fn, 'pl, 'w) conn) res"
where
  "on_handshake1 U S ct buf sz c =
     (if sz < 4 then ssl_fail U S ct buf sz c
      else let sz = sz - 4 in
        bind_res (buf_bytes buf 4 (l4_buf (fst c))) (\<lambda>bs.
        let hs = handshake_of bs in
        if hs_msg_type hs \<noteq> 2 then ssl_fail U S ct buf sz c
        else if hs_get_length hs \<noteq> sz then ssl_fail U S ct buf sz c
        else let buf = buf + 4 in
          bind_res (buf_bytes (buf + unat (sz - 3)) 2 (l4_buf (fst c))) (\<lambda>cb.
          let cipher = read_le16 cb in
          bind_res (call_cb True (on_cipher S) (\<lambda>u. lu_cipher U u ct cipher c) c) (\<lambda>(r, c').
          if \<not> r then Inr (False, c')
          else Inr (True, ssl_set_trigger 5 (Ssl_Tls_Header S Handshake2) c')))))"

text \<open>The loop over the certificates; \<open>crts_len\<close> is a signed \<open>int\<close> and may become negative.\<close>

function certificates ::
  "('u, 'pl, 'w) ssl_user \<Rightarrow> 'u ssl \<Rightarrow> connected_target \<Rightarrow> nat \<Rightarrow> u32 \<Rightarrow> int
     \<Rightarrow> ('u ssl_fn, 'pl, 'w) conn \<Rightarrow> (bool \<times> ('u ssl_fn, 'pl, 'w) conn) res"
where
  "certificates U S ct buf sz crts_len c =
     (if crts_len \<le> 0 then Inr (False, c)
      else if crts_len < 3 then ssl_fail U S ct buf sz c
      else bind_res (buf_bytes buf 3 (l4_buf (fst c))) (\<lambda>bs.
        let crt_len = crt_get_length (certificate_of bs) in
        if crts_len < int (unat crt_len) then ssl_fail U S ct buf sz c
        else bind_res (call_cb True (on_certif S) (\<lambda>u. lu_data U u ct (buf + 3) crt_len c) c) (\<lambda>(r, c').
          if \<not> r then Inr (False, c')
          else certificates U S ct (buf + 3 + unat crt_len) sz (crts_len - 3 - int (unat crt_len)) c')))"
  by pat_completeness auto
termination
  by (relation "measure (\<lambda>(U, S, ct, buf, sz, crts_len, c). nat crts_len)") (auto intro: less_le_trans [of _ 0])

declare certificates.simps [simp del]

definition on_handshake2 ::
  "('u, 'pl, 'w) ssl_user \<Rightarrow> 'u ssl \<Rightarrow> connected_target \<Rightarrow> nat \<Rightarrow> u32
     \<Rightarrow> ('u ssl_fn, 'pl, 'w) conn \<Rightarrow> (bool \<times> ('u ssl_fn, 'pl, 'w) conn) res"
where
  "on_handshake2 U S ct buf sz c =
     (if sz < 4 then ssl_fail U S ct buf sz c
      else let sz = sz - 4 in
        bind_res (buf_bytes buf 4 (l4_buf (fst c))) (\<lambda>bs.
        let hs = handshake_of bs in
        if hs_msg_type hs \<noteq> 11 then ssl_fail U S ct buf sz c
        else if hs_get_length hs \<noteq> sz then ssl_fail U S ct buf sz c
        else let buf = buf + 4 in
          if sz < 3 then ssl_fail U S ct buf sz c
          else bind_res (buf_bytes buf 3 (l4_buf (fst c))) (\<lambda>bs.
            let crts_len = crt_get_length (certificate_of bs);
                sz = sz - 3;
                buf = buf + 3
            in if crts_len \<noteq> sz then ssl_fail U S ct buf sz c
               else certificates U S ct buf sz (int (unat crts_len)) c)))"

definition ssl_actions :: "'w os \<Rightarrow> ('u, 'pl, 'w) ssl_user \<Rightarrow> ('u ssl_fn, 'pl, 'w) actions" where
  "ssl_actions K U =
     \<lparr>act_data = (\<lambda>f ct off sz c.
        case f of
          Ssl_Object S \<Rightarrow> Inr (False, c)
        | Ssl_Tls_Header S st \<Rightarrow> on_tls_header U S ct off sz (Ssl_Handshake S st) c
        | Ssl_Handshake S Handshake1 \<Rightarrow> on_handshake1 U S ct off sz c
        | Ssl_Handshake S Handshake2 \<Rightarrow> on_handshake2 U S ct off sz c
        | Ssl_User u \<Rightarrow> lu_data U u ct off sz c),
      act_connect = (\<lambda>f ct c.
        case f of
          Ssl_Object S \<Rightarrow> ssl_connect K S ct c
        | Ssl_User u \<Rightarrow> lu_connect U u ct c
        | _ \<Rightarrow> Inr (False, c)),
      act_python = (\<lambda>f ct p c.
        case f of Ssl_User u \<Rightarrow> lu_python U u ct p c | _ \<Rightarrow> Inr (NoMoreToProcess, c))\<rparr>"

section \<open>Lengths\<close>

lemma unat_get_length24:
  "unat (get_length24 l2 l1 l0) = unat l2 * 65536 + unat l1 * 256 + unat l0"
proof -
  have "get_length24 l2 l1 l0 = push_bit 16 (ucast l2) + (push_bit 8 (ucast l1) + ucast l0)"
    unfolding get_length24_def
    by (subst disjunctive_add_eq_or [symmetric], rule bit_word_eqI, auto simp: bit_simps dest: bit_imp_le_length)+
  also have "\<dots> = of_nat (unat l2 * 65536 + unat l1 * 256 + unat l0)"
    by (simp add: push_bit_eq_mult unsigned_ucast_eq)
  finally have e: "get_length24 l2 l1 l0 = of_nat (unat l2 * 65536 + unat l1 * 256 + unat l0)" .
  have "unat l2 * 65536 + unat l1 * 256 + unat l0 < 4294967296"
    using unat_u8_less [of l2] unat_u8_less [of l1] unat_u8_less [of l0] by linarith
  then show ?thesis unfolding e by (rule unat_of_nat_u32)
qed

definition be16 :: "nat \<Rightarrow> u8 list" where
  "be16 n = [of_nat (n div 256), of_nat (n mod 256)]"

definition be24 :: "nat \<Rightarrow> u8 list" where
  "be24 n = [of_nat (n div 65536), of_nat (n div 256 mod 256), of_nat (n mod 256)]"

lemma length_be [simp]: "length (be16 n) = 2" "length (be24 n) = 3"
  by (simp_all add: be16_def be24_def)

lemma get_length24_be24:
  assumes "n < 2 ^ 24"
  shows "unat (get_length24 (be24 n ! 0) (be24 n ! 1) (be24 n ! 2)) = n"
proof -
  have "n div 65536 < 256" using assms by simp
  then have "unat (get_length24 (be24 n ! 0) (be24 n ! 1) (be24 n ! 2))
      = n div 65536 * 65536 + n div 256 mod 256 * 256 + n mod 256"
    by (simp add: unat_get_length24 be24_def unat_of_nat_u8)
  also have "\<dots> = n" using base256_digits [of n] assms
    by (simp add: mod_if [of "n div 65536" 256] \<open>n div 65536 < 256\<close>)
  finally show ?thesis .
qed

lemma ntohs_be16: "n < 65536 \<Longrightarrow> unat (ntohs (be16 n ! 0) (be16 n ! 1)) = n"
proof -
  assume "n < 65536"
  then have "n div 256 < 256" by simp
  then show ?thesis by (simp add: unat_ntohs be16_def unat_of_nat_u8)
qed

lemma read_le16_le16 [simp]: "read_le16 (le16 x) = x"
proof -
  have d: "unat x div 256 < 256" using unat_u16_less [of x] by (simp del: unat_u16_less)
  have "read_le16 (le16 x) = of_nat (unat x mod 256 + 256 * (unat x div 256))"
    unfolding read_le16_def le16_def using d by (simp add: unat_of_nat_u8 del: of_nat_add of_nat_mult)
  also have "unat x mod 256 + 256 * (unat x div 256) = unat x" by simp
  finally show ?thesis by simp
qed

lemma length_le16 [simp]: "length (le16 x) = 2"
  by (simp add: le16_def)

section \<open>Messages\<close>

text \<open>The wire format: a TLS record, a handshake message, a list of certificates.\<close>

definition tls_record :: "u8 list \<Rightarrow> u8 list" where
  "tls_record payload = [0x16, 3, 0] @ be16 (length payload) @ payload"

definition handshake_msg :: "u8 \<Rightarrow> u8 list \<Rightarrow> u8 list" where
  "handshake_msg ty body = [ty] @ be24 (length body) @ body"

fun cert_list :: "u8 list list \<Rightarrow> u8 list" where
  "cert_list [] = []"
| "cert_list (c # cs) = be24 (length c) @ c @ cert_list cs"

definition certificate_msg :: "u8 list list \<Rightarrow> u8 list" where
  "certificate_msg cs = handshake_msg 11 (be24 (length (cert_list cs)) @ cert_list cs)"


section \<open>Handlers on well-formed messages\<close>

definition ssl_observes ::
  "('u, 'pl, 'w) ssl_user \<Rightarrow> (u16 \<Rightarrow> 'w \<Rightarrow> 'w) \<Rightarrow> (u8 list \<Rightarrow> 'w \<Rightarrow> 'w) \<Rightarrow> bool"
where
  "ssl_observes U logc logd \<longleftrightarrow>
     (\<forall>u ct x l h w. lu_cipher U u ct x (l, h, w) = Inr (True, l, h, logc x w))
     \<and> (\<forall>u ct off n l h w. lu_data U u ct off n (l, h, w) =
          Inr (True, l, h, logd (take (unat n) (drop off (buf_contents (l4_buf l)))) w))"

lemma tls_header_record:
  assumes "buf_ok (l4_buf l)" and "buf_contents (l4_buf l) = tls_record payload @ rest"
    and "length payload < 65536"
  shows "\<exists>n. unat n = length payload \<and> on_tls_header U S ct 0 5 on_hs (l, h, w)
    = Inr (True, set_trigger (Size_Data_Trigger (Some on_hs) n) l, h, w)"
proof -
  have bs: "buf_bytes 0 5 (l4_buf l) = Inr ([0x16, 3, 0] @ be16 (length payload))"
    using assms(2) by (intro buf_bytes_at [OF assms(1), of "[]" _ "payload @ rest"]) (simp_all add: tls_record_def)
  let ?n = "ucast (ntohs (be16 (length payload) ! 0) (be16 (length payload) ! 1)) :: u32"
  have "unat ?n = length payload"
    using ntohs_be16 [OF assms(3)] assms(3) by (simp add: unsigned_ucast_eq take_bit_nat_eq_self)
  with bs show ?thesis
    by (intro exI [of _ ?n]) (simp add: on_tls_header_def tls_of_def ssl_set_trigger_def)
qed

lemma handshake_header:
  assumes "buf_ok (l4_buf l)" and "buf_contents (l4_buf l) = handshake_msg ty body @ rest"
    and "length body < 2 ^ 24"
  shows "\<exists>hs. buf_bytes 0 4 (l4_buf l) = Inr hs \<and> hs_msg_type (handshake_of hs) = ty
    \<and> unat (hs_get_length (handshake_of hs)) = length body"
  using buf_bytes_at [OF assms(1), of "[]" "ty # be24 (length body)" "body @ rest" 0 4] assms(2)
    get_length24_be24 [OF assms(3)]
  by (auto simp: handshake_msg_def handshake_of_def hs_get_length_def)

lemma handshake1_msg:
  assumes ok: "buf_ok (l4_buf l)"
    and c: "buf_contents (l4_buf l) = handshake_msg 2 (pre @ le16 x @ [cm]) @ rest"
    and n: "unat n = length pre + 7" and len: "length pre + 3 < 2 ^ 24"
    and obs: "ssl_observes U logc logd" and cb: "on_cipher S = Some u"
  shows "on_handshake1 U S ct 0 n (l, h, w) =
    Inr (True, set_trigger (Size_Data_Trigger (Some (Ssl_Tls_Header S Handshake2)) 5) l, h, logc x w)"
proof -
  obtain hs where hs: "buf_bytes 0 4 (l4_buf l) = Inr hs" "hs_msg_type (handshake_of hs) = 2"
    "unat (hs_get_length (handshake_of hs)) = length pre + 3"
    using handshake_header [OF ok c] len by auto
  have n4: "\<not> n < 4" "unat (n - 4) = length pre + 3" "unat (n - 4 - 3) = length pre"
    using n by (auto simp: word_less_nat_alt unat_sub word_le_nat_alt)
  then have "hs_get_length (handshake_of hs) = n - 4" using hs(3) by (simp add: word_unat_eq_iff)
  moreover have "buf_bytes (4 + unat (n - 4 - 3)) 2 (l4_buf l) = Inr (le16 x)"
    using n4 c by (intro buf_bytes_at [OF ok, of "2 # be24 (length pre + 3) @ pre" _ "cm # rest"])
      (simp_all add: handshake_msg_def)
  ultimately show ?thesis
    using hs n4 obs cb
    by (simp add: on_handshake1_def Let_def ssl_observes_def ssl_set_trigger_def)
qed

lemma certificates_list:
  assumes ok: "buf_ok (l4_buf l)" and obs: "ssl_observes U logc logd" and cb: "on_certif S = Some u"
  shows "buf_contents (l4_buf l) = pre @ cert_list cs @ rest \<Longrightarrow> \<forall>c\<in>set cs. length c < 2 ^ 24 \<Longrightarrow>
    certificates U S ct (length pre) sz (int (length (cert_list cs))) (l, h, w) = Inr (False, l, h, fold logd cs w)"
proof (induction cs arbitrary: pre w)
  case Nil
  then show ?case by (simp add: certificates.simps)
next
  case (Cons c cs)
  let ?pre = "pre @ be24 (length c) @ c"
  have bs: "buf_bytes (length pre) 3 (l4_buf l) = Inr (be24 (length c))"
    using Cons.prems(1) by (intro buf_bytes_at [OF ok, of pre _ "c @ cert_list cs @ rest"]) simp_all
  have len: "unat (crt_get_length (certificate_of (be24 (length c)))) = length c"
    using get_length24_be24 [of "length c"] Cons.prems(2)
    by (simp add: crt_get_length_def certificate_of_def)
  then have len': "uint (crt_get_length (certificate_of (be24 (length c)))) = int (length c)"
    using arg_cong [where f = int] by fastforce
  have "certificates U S ct (length ?pre) sz (int (length (cert_list cs))) (l, h, logd c w)
      = Inr (False, l, h, fold logd cs (logd c w))"
    using Cons.prems by (intro Cons.IH) simp_all
  with bs len len' obs cb Cons.prems(1) show ?case
    by (subst certificates.simps) (simp add: Let_def ssl_observes_def add.assoc)
qed

lemma handshake2_msg:
  assumes ok: "buf_ok (l4_buf l)" and c: "buf_contents (l4_buf l) = certificate_msg cs @ rest"
    and n: "unat n = length (certificate_msg cs)" and len: "length (cert_list cs) + 3 < 2 ^ 24"
    and obs: "ssl_observes U logc logd" and cb: "on_certif S = Some u"
    and cs: "\<forall>c\<in>set cs. length c < 2 ^ 24"
  shows "on_handshake2 U S ct 0 n (l, h, w) = Inr (False, l, h, fold logd cs w)"
proof -
  let ?k = "length (cert_list cs)"
  obtain hs where hs: "buf_bytes 0 4 (l4_buf l) = Inr hs" "hs_msg_type (handshake_of hs) = 11"
    "unat (hs_get_length (handshake_of hs)) = ?k + 3"
    using handshake_header [OF ok, of 11 "be24 ?k @ cert_list cs" rest] c len
    by (auto simp: certificate_msg_def add.commute)
  have un: "unat n = ?k + 7" using n by (simp add: certificate_msg_def handshake_msg_def)
  have n4: "\<not> n < 4" "unat (n - 4) = ?k + 3" "\<not> n - 4 < 3" "unat (n - 4 - 3) = ?k"
    using un by (auto simp: word_less_nat_alt unat_sub word_le_nat_alt)
  have l1: "hs_get_length (handshake_of hs) = n - 4" using hs(3) n4 by (simp add: word_unat_eq_iff)
  have bs: "buf_bytes 4 3 (l4_buf l) = Inr (be24 ?k)"
    using c by (intro buf_bytes_at [OF ok, of "11 # be24 (?k + 3)" _ "cert_list cs @ rest"])
      (simp_all add: certificate_msg_def handshake_msg_def add.commute)
  have k: "unat (crt_get_length (certificate_of (be24 ?k))) = ?k"
    using get_length24_be24 [of ?k] len by (simp add: crt_get_length_def certificate_of_def)
  then have l2: "crt_get_length (certificate_of (be24 ?k)) = n - 4 - 3" using n4 by (simp add: word_unat_eq_iff)
  have "certificates U S ct (length (11 # be24 (?k + 3) @ be24 ?k)) sz (int ?k) (l, h, w)
      = Inr (False, l, h, fold logd cs w)" for sz
    using certificates_list [OF ok obs cb, of "11 # be24 (?k + 3) @ be24 ?k" cs rest] c cs
    by (simp add: certificate_msg_def handshake_msg_def add.commute)
  with hs n4 l1 l2 k bs show ?thesis by (simp add: on_handshake2_def Let_def)
qed

lemma record_round:
  assumes t: "l4_trigger l = Size_Data_Trigger (Some (Ssl_Tls_Header S st)) 5" and ok: "buf_ok (l4_buf l)"
    and c: "buf_contents (l4_buf l) = tls_record m @ rest" and len: "length m < 65536"
  shows "\<exists>b n. buf_ok b \<and> buf_contents b = m @ rest \<and> unat n = length m
    \<and> (\<forall>fuel. process_loop (Suc fuel) (ssl_actions K U) ct p (l, h, w) = process_loop fuel (ssl_actions K U) ct 0
         ((set_trigger (Size_Data_Trigger (Some (Ssl_Handshake S st)) n) l)\<lparr>l4_buf := b\<rparr>, h, w))"
proof -
  obtain n where n: "unat n = length m" "act_data (ssl_actions K U) (Ssl_Tls_Header S st) ct 0 5 (l, h, w)
      = Inr (True, set_trigger (Size_Data_Trigger (Some (Ssl_Handshake S st)) n) l, h, w)"
    using tls_header_record [OF ok c len, of U S ct "Ssl_Handshake S st" h w] by (auto simp: ssl_actions_def)
  have c5: "buf_contents (l4_buf l) = (0x16 # 3 # 0 # be16 (length m)) @ m @ rest"
    using c by (simp add: tls_record_def)
  have "unat (5 :: u32) = length (0x16 # 3 # 0 # be16 (length m))" by simp
  from size_round [OF t ok c5 this n(2), of p] n(1) show ?thesis by (auto simp: set_trigger_def)
qed

lemma cert_in_list: "c \<in> set cs \<Longrightarrow> length c \<le> length (cert_list cs)"
  by (induction cs) auto

text \<open>
  C12. A complete exchange: whatever cipher a well-formed server hello announces and whatever
  certificates the certificate message carries, the scanner calls the cipher callback with that
  cipher and the certificate callback with each certificate in order, then ends the connection.
\<close>

theorem ssl_exchange:
  assumes obs: "ssl_observes U logc logd" and cbs: "on_cipher S = Some u" "on_certif S = Some v"
    and t: "l4_trigger l = Size_Data_Trigger (Some (Ssl_Tls_Header S Handshake1)) 5"
    and ok: "buf_ok (l4_buf l)"
    and c: "buf_contents (l4_buf l) =
      tls_record (handshake_msg 2 (pre @ le16 x @ [cm])) @ tls_record (certificate_msg cs) @ rest"
    and len: "length pre + 7 < 65536" "length (certificate_msg cs) < 65536"
  shows "\<exists>l'. process_buffer 4 (ssl_actions K U) ct (l, h, w) =
    Inr (False, l', h, fold logd cs (logc x w))"
proof -
  let ?A = "ssl_actions K U" and ?m1 = "handshake_msg 2 (pre @ le16 x @ [cm])" and ?m2 = "certificate_msg cs"
  have l1: "length ?m1 = length pre + 7" by (simp add: handshake_msg_def)
  have cs: "\<forall>c\<in>set cs. length c < 2 ^ 24" "length (cert_list cs) + 3 < 2 ^ 24"
    using len(2) cert_in_list [of _ cs] by (force simp: certificate_msg_def handshake_msg_def)+
  obtain b1 n1 where r1: "buf_ok b1" "buf_contents b1 = ?m1 @ tls_record ?m2 @ rest" "unat n1 = length ?m1"
    "\<And>fuel. process_loop (Suc fuel) ?A ct 0 (l, h, w) = process_loop fuel ?A ct 0
       ((set_trigger (Size_Data_Trigger (Some (Ssl_Handshake S Handshake1)) n1) l)\<lparr>l4_buf := b1\<rparr>, h, w)"
    using record_round [OF t ok c, where h = h and w = w and K = K and ct = ct and p = 0 and U = U] len(1) l1 by auto
  let ?l1 = "(set_trigger (Size_Data_Trigger (Some (Ssl_Handshake S Handshake1)) n1) l)\<lparr>l4_buf := b1\<rparr>"
  have a1: "act_data ?A (Ssl_Handshake S Handshake1) ct 0 n1 (?l1, h, w) =
      Inr (True, set_trigger (Size_Data_Trigger (Some (Ssl_Tls_Header S Handshake2)) 5) ?l1, h, logc x w)"
    using handshake1_msg [OF _ _ _ _ obs cbs(1), of ?l1 pre x cm _ n1 ct h w] r1 l1 len(1)
    by (simp add: ssl_actions_def)
  obtain b2 where b2: "buf_ok b2" "buf_contents b2 = tls_record ?m2 @ rest"
    "\<And>fuel. process_loop (Suc fuel) ?A ct 0 (?l1, h, w) = process_loop fuel ?A ct 0
       ((set_trigger (Size_Data_Trigger (Some (Ssl_Tls_Header S Handshake2)) 5) ?l1)\<lparr>l4_buf := b2\<rparr>, h, logc x w)"
    using size_round [OF _ _ _ r1(3) a1, of "tls_record ?m2 @ rest" 0] r1 by (auto simp: set_trigger_def)
  let ?l2 = "(set_trigger (Size_Data_Trigger (Some (Ssl_Tls_Header S Handshake2)) 5) ?l1)\<lparr>l4_buf := b2\<rparr>"
  obtain b3 n3 where r3: "buf_ok b3" "buf_contents b3 = ?m2 @ rest" "unat n3 = length ?m2"
    "\<And>fuel. process_loop (Suc fuel) ?A ct 0 (?l2, h, logc x w) = process_loop fuel ?A ct 0
       ((set_trigger (Size_Data_Trigger (Some (Ssl_Handshake S Handshake2)) n3) ?l2)\<lparr>l4_buf := b3\<rparr>, h, logc x w)"
    using record_round [of ?l2 S Handshake2 ?m2 rest K U ct 0 h "logc x w"] b2 len(2)
    by (auto simp: set_trigger_def)
  let ?l3 = "(set_trigger (Size_Data_Trigger (Some (Ssl_Handshake S Handshake2)) n3) ?l2)\<lparr>l4_buf := b3\<rparr>"
  have "act_data ?A (Ssl_Handshake S Handshake2) ct 0 n3 (?l3, h, logc x w)
      = Inr (False, ?l3, h, fold logd cs (logc x w))"
    using handshake2_msg [OF _ _ _ _ obs cbs(2), of ?l3 cs rest n3 ct h "logc x w"] r3 cs
    by (simp add: ssl_actions_def)
  then have "process_loop (Suc 0) ?A ct 0 (?l3, h, logc x w) = Inr (False, ?l3, h, fold logd cs (logc x w))"
    using r3 by (intro size_end [where frame = ?m2 and rest = rest]) (auto simp: set_trigger_def)
  with r1(4) b2(3) r3(4) show ?thesis
    by (auto simp: process_buffer_def numeral_eq_Suc simp del: process_loop.simps)
qed

text \<open>
  Callbacks that record what they are given, and where: the cipher, or the offset and the bytes of
  the region, as far as the buffer holds them.
\<close>

datatype ssl_log = Log_Cipher u16 | Log_Data nat u32 "u8 list"

definition ssl_logger :: "(unit, 'pl, ssl_log list) ssl_user" where
  "ssl_logger =
     \<lparr>lu_data = (\<lambda>u ct off n (l, h, w).
        Inr (True, l, h, w @ [Log_Data off n (take (unat n) (drop off (buf_contents (l4_buf l))))])),
      lu_cipher = (\<lambda>u ct x (l, h, w). Inr (True, l, h, w @ [Log_Cipher x])),
      lu_connect = (\<lambda>u ct c. Inr (False, c)),
      lu_python = (\<lambda>u ct p c. Inr (NoMoreToProcess, c))\<rparr>"

definition ssl_printer :: "(unit, 'pl, u8 list list) ssl_user" where
  "ssl_printer =
     \<lparr>lu_data = (\<lambda>u ct off n (l, h, w).
        Inr (True, l, h, w @ [take (unat n) (drop off (buf_contents (l4_buf l)))])),
      lu_cipher = (\<lambda>u ct x (l, h, w). Inr (True, l, h, w @ [le16 x])),
      lu_connect = (\<lambda>u ct c. Inr (False, c)),
      lu_python = (\<lambda>u ct p c. Inr (NoMoreToProcess, c))\<rparr>"

definition ssl_all :: "unit ssl" where
  "ssl_all = on_protocol_failure (Some ()) (set_on_cipher (Some ()) (set_on_certificate (Some ()) (ssl_new 0)))"

lemmas ssl_all_simps [simp] = ssl_all_def on_protocol_failure_def set_on_cipher_def set_on_certificate_def

theorem ssl_exchange_witness:
  "\<exists>l'. process_buffer 4 (ssl_actions no_os ssl_printer) (Connected_Target 3 (Target 1 (Port 443 0)))
     (logger_conn (Size_Data_Trigger (Some (Ssl_Tls_Header ssl_all Handshake1)) 5)
        ([0x16, 3, 0, 0, 7, 2, 0, 0, 3, 5, 0, 0] @ [0x16, 3, 0, 0, 13, 11, 0, 0, 9, 0, 0, 6, 0, 0, 3, 8, 9, 10]),
      host_sm_new unit_ports 0, []) =
     Inr (False, l', host_sm_new unit_ports 0, [[5, 0], [8, 9, 10]])"
  using ssl_exchange [of ssl_printer "\<lambda>x w. w @ [le16 x]" "\<lambda>d w. w @ [d]" ssl_all "()" "()"
      "logger_conn (Size_Data_Trigger (Some (Ssl_Tls_Header ssl_all Handshake1)) 5)
        ([0x16, 3, 0, 0, 7, 2, 0, 0, 3, 5, 0, 0] @ [0x16, 3, 0, 0, 13, 11, 0, 0, 9, 0, 0, 6, 0, 0, 3, 8, 9, 10])"
      "[]" 5 0 "[[8, 9, 10]]" "[]" no_os "Connected_Target 3 (Target 1 (Port 443 0))" "host_sm_new unit_ports 0" "[]"]
  by (simp add: ssl_observes_def ssl_printer_def logger_conn_simps tls_record_def handshake_msg_def
      certificate_msg_def be16_def be24_def le16_def)

section \<open>Hostile messages\<close>

text \<open>
  A server hello of fewer than three bytes passes the length checks of \<open>on_handshake1\<close>, and
  the read of the cipher at \<open>buf[size-3]\<close> then leaves the buffer: the index wraps around.
\<close>

theorem short_server_hello_faults:
  assumes ok: "buf_ok (l4_buf l)" and k: "k < 3" and n: "unat n = k + 4"
    and c: "buf_contents (l4_buf l) = handshake_msg 2 body @ rest" "length body = k"
  shows "on_handshake1 U S ct 0 n (l, h, w) = Inl Out_of_bounds"
proof -
  obtain hs where hs: "buf_bytes 0 4 (l4_buf l) = Inr hs" "hs_msg_type (handshake_of hs) = 2"
    "unat (hs_get_length (handshake_of hs)) = k"
    using handshake_header [OF ok c(1)] k c(2) by auto
  have n4: "\<not> n < 4" "unat (n - 4) = k" using n by (auto simp: word_less_nat_alt unat_sub word_le_nat_alt)
  then have eq: "hs_get_length (handshake_of hs) = n - 4" using hs(3) by (simp add: word_unat_eq_iff)
  have "n - 4 \<in> {0, 1, 2}" using n4(2) k by (auto simp: word_unat_eq_iff)
  then have wrap: "unat (n - 4 - 3) \<ge> 4294967293"
    by (auto simp: unsigned_minus_1_eq_mask mask_eq_exp_minus_1)
  obtain m where m: "buf_mem (l4_buf l) = Some m"
    using hs(1) by (auto simp: buf_bytes_def split: option.splits)
  with ok have "length m < 4294967296 - 3" by (auto simp: buf_ok_def)
  with m wrap have "buf_bytes (4 + unat (n - 4 - 3)) 2 (l4_buf l) = Inl Out_of_bounds"
    by (simp add: buf_bytes_def)
  with hs n4 eq show ?thesis by (simp add: on_handshake1_def Let_def)
qed

theorem short_server_hello_faults_witness:
  "on_handshake1 ssl_printer ssl_all (Connected_Target 3 (Target 1 (Port 443 0))) 0 4
     (logger_conn (Size_Data_Trigger (Some (Ssl_Handshake ssl_all Handshake1)) 4) [2, 0, 0, 0],
      host_sm_new unit_ports 0, []) = Inl Out_of_bounds"
  by (rule short_server_hello_faults [of _ 0 _ "[]" "[]"])
    (simp_all add: logger_conn_simps handshake_msg_def be24_def)

lemma certificates_logged:
  assumes ok: "buf_ok (l4_buf l)" and nofail: "on_failure S = None"
  shows "int off + len \<le> int (unat (buf_pos (l4_buf l))) \<Longrightarrow>
    \<exists>w'. certificates ssl_logger S ct off sz len (l, h, w) = Inr (False, l, h, w @ w')
      \<and> (\<forall>e\<in>set w'. \<exists>p n bs. e = Log_Data p n bs \<and> off + 3 \<le> p \<and> int (p + unat n) \<le> int off + len + 3)"
proof (induction "nat len" arbitrary: off len w rule: less_induct)
  case less
  consider (stop) "len \<le> 0" | (short) "0 < len" "len < 3" | (go) "3 \<le> len" by linarith
  then show ?case
  proof cases
    case go
    then have "off + 3 \<le> unat (buf_pos (l4_buf l))" using less.prems by linarith
    with ok have bs: "buf_bytes off 3 (l4_buf l) = Inr (take 3 (drop off (buf_contents (l4_buf l))))"
      by (rule buf_bytes_contents)
    define n where "n = crt_get_length (certificate_of (take 3 (drop off (buf_contents (l4_buf l)))))"
    define e where "e = map (\<lambda>u. Log_Data (off + 3) n (take (unat n) (drop (off + 3) (buf_contents (l4_buf l)))))
      (case on_certif S of None \<Rightarrow> [] | Some u \<Rightarrow> [u])"
    have cb: "call_cb True (on_certif S) (\<lambda>u. lu_data ssl_logger u ct (off + 3) n (l, h, w)) (l, h, w)
        = Inr (True, l, h, w @ e)"
      by (cases "on_certif S") (simp_all add: ssl_logger_def e_def)
    note step = certificates.simps [of ssl_logger S ct off sz len "(l, h, w)"]
    show ?thesis
    proof (cases "len < int (unat n)")
      case True
      with go bs nofail show ?thesis by (subst step) (simp add: n_def [symmetric] Let_def ssl_fail_def)
    next
      case False
      let ?off = "off + 3 + unat n" and ?len = "len - 3 - int (unat n)"
      have "nat ?len < nat len" "int ?off + ?len \<le> int (unat (buf_pos (l4_buf l)))"
        using go less.prems by (auto intro: less_le_trans [of _ 0])
      from less.hyps [OF this, of "w @ e"] obtain w' where
        IH: "certificates ssl_logger S ct ?off sz ?len (l, h, w @ e) = Inr (False, l, h, (w @ e) @ w')"
        "\<forall>e\<in>set w'. \<exists>p n bs. e = Log_Data p n bs \<and> ?off + 3 \<le> p \<and> int (p + unat n) \<le> int ?off + ?len + 3"
        by blast
      have "certificates ssl_logger S ct off sz len (l, h, w) = Inr (False, l, h, w @ (e @ w'))"
        using go bs cb False IH(1) by (subst step) (simp add: n_def [symmetric] Let_def)
      moreover have "\<exists>p n bs. x = Log_Data p n bs \<and> off + 3 \<le> p \<and> int (p + unat n) \<le> int off + len + 3"
        if "x \<in> set (e @ w')" for x
        using that IH(2) False by (auto simp: e_def split: option.splits)
      ultimately show ?thesis by blast
    qed
  qed (use nofail in \<open>simp_all add: certificates.simps ssl_fail_def\<close>)
qed



text \<open>
  The bound is reached: a list of three bytes that announces a certificate of three bytes makes
  the scanner hand the callback the three bytes behind the message, after which it ends.
\<close>

theorem certificate_overrun:
  assumes "buf_ok (l4_buf l)" and "buf_contents (l4_buf l) = pre @ [0, 0, 3] @ rest" and "off = length pre"
    and "on_certif S = Some u"
  shows "certificates U S ct off sz 3 (l, h, w) =
    bind_res (lu_data U u ct (off + 3) 3 (l, h, w)) (\<lambda>(r, c'). Inr (False, c'))"
proof -
  have bs: "buf_bytes off 3 (l4_buf l) = Inr [0, 0, 3]"
    by (rule buf_bytes_at [OF assms(1,2,3)]) simp
  have n: "crt_get_length (certificate_of [0, 0, 3]) = 3"
    by (simp add: crt_get_length_def certificate_of_def get_length24_def)
  have stop: "certificates U S ct p sz (- 3) c = Inr (False, c)" for p c
    by (subst certificates.simps) simp
  show ?thesis
    using bs assms(4) by (subst certificates.simps) (simp add: n stop Let_def split_def cong: if_cong)
qed

theorem certificate_overrun_witness:
  "certificates ssl_logger ssl_all (Connected_Target 3 (Target 1 (Port 443 0))) 0 3 3
     (logger_conn Data_Trigger [0, 0, 3], host_sm_new unit_ports 0, [])
   = Inr (False, logger_conn Data_Trigger [0, 0, 3], host_sm_new unit_ports 0, [Log_Data 3 3 []])"
  using certificate_overrun [of "logger_conn Data_Trigger [0, 0, 3]" "[]" "[]" 0 ssl_all "()" ssl_logger
      "Connected_Target 3 (Target 1 (Port 443 0))" 3 "host_sm_new unit_ports 0" "[]"]
  by (simp add: logger_conn_simps ssl_logger_def)

end
