(* ===== verification/SSH.thy ===== *)
theory SSH
  imports Protocol_Base
begin

text \<open>
  The SSH scanner (\<open>protocols/ssh.h\<close>, \<open>protocols/ssh.cpp\<close>): it answers the server's banner with a
  recorded key exchange and Diffie-Hellman packet, skips the server's key exchange packet and hands
  the host key in the reply to the user. The closures are a datatype with the captured variables as
  arguments; \<open>Ssh_Forward\<close> is the lambda that \<open>SSHAnswer\<close> installs around its \<open>next\<close> action.
\<close>

section \<open>Recorded packets\<close>

definition client_key_exchange :: "u8 list" where
  "client_key_exchange = concat
     [[0x00, 0x00, 0x05, 0xAC, 0x04, 0x14, 0x45, 0x17, 0x1E, 0xD1, 0x8D, 0x29, 0x3F, 0xC8, 0xCF, 0xD0],
      [0xE6, 0x00, 0x22, 0xE8, 0xE5, 0x2C, 0x00, 0x00, 0x00, 0x38, 0x65, 0x63, 0x64, 0x68, 0x2D, 0x73],
      [0x68, 0x61, 0x32, 0x2D, 0x6E, 0x69, 0x73, 0x74, 0x70, 0x32, 0x35, 0x36, 0x2C, 0x65, 0x63, 0x64],
      [0x68, 0x2D, 0x73, 0x68, 0x61, 0x32, 0x2D, 0x6E, 0x69, 0x73, 0x74, 0x70, 0x33, 0x38, 0x34, 0x2C],
      [0x65, 0x63, 0x64, 0x68, 0x2D, 0x73, 0x68, 0x61, 0x32, 0x2D, 0x6E, 0x69, 0x73, 0x74, 0x70, 0x35],
      [0x32, 0x31, 0x00, 0x00, 0x00, 0x07, 0x73, 0x73, 0x68, 0x2D, 0x72, 0x73, 0x61, 0x00, 0x00, 0x00],
      [0xE9, 0x61, 0x65, 0x73, 0x31, 0x32, 0x38, 0x2D, 0x63, 0x74, 0x72, 0x2C, 0x61, 0x65, 0x73, 0x31],
      [0x39, 0x32, 0x2D, 0x63, 0x74, 0x72, 0x2C, 0x61, 0x65, 0x73, 0x32, 0x35, 0x36, 0x2D, 0x63, 0x74],
      [0x72, 0x2C, 0x61, 0x72, 0x63, 0x66, 0x6F, 0x75, 0x72, 0x32, 0x35, 0x36, 0x2C, 0x61, 0x72, 0x63],
      [0x66, 0x6F, 0x75, 0x72, 0x31, 0x32, 0x38, 0x2C, 0x61, 0x65, 0x73, 0x31, 0x32, 0x38, 0x2D, 0x67],
      [0x63, 0x6D, 0x40, 0x6F, 0x70, 0x65, 0x6E, 0x73, 0x73, 0x68, 0x2E, 0x63, 0x6F, 0x6D, 0x2C, 0x61],
      [0x65, 0x73, 0x32, 0x35, 0x36, 0x2D, 0x67, 0x63, 0x6D, 0x40, 0x6F, 0x70, 0x65, 0x6E, 0x73, 0x73],
      [0x68, 0x2E, 0x63, 0x6F, 0x6D, 0x2C, 0x63, 0x68, 0x61, 0x63, 0x68, 0x61, 0x32, 0x30, 0x2D, 0x70],
      [0x6F, 0x6C, 0x79, 0x31, 0x33, 0x30, 0x35, 0x40, 0x6F, 0x70, 0x65, 0x6E, 0x73, 0x73, 0x68, 0x2E],
      [0x63, 0x6F, 0x6D, 0x2C, 0x61, 0x65, 0x73, 0x31, 0x32, 0x38, 0x2D, 0x63, 0x62, 0x63, 0x2C, 0x33],
      [0x64, 0x65, 0x73, 0x2D, 0x63, 0x62, 0x63, 0x2C, 0x62, 0x6C, 0x6F, 0x77, 0x66, 0x69, 0x73, 0x68],
      [0x2D, 0x63, 0x62, 0x63, 0x2C, 0x63, 0x61, 0x73, 0x74, 0x31, 0x32, 0x38, 0x2D, 0x63, 0x62, 0x63],
      [0x2C, 0x61, 0x65, 0x73, 0x31, 0x39, 0x32, 0x2D, 0x63, 0x62, 0x63, 0x2C, 0x61, 0x65, 0x73, 0x32],
      [0x35, 0x36, 0x2D, 0x63, 0x62, 0x63, 0x2C, 0x61, 0x72, 0x63, 0x66, 0x6F, 0x75, 0x72, 0x2C, 0x72],
      [0x69, 0x6A, 0x6E, 0x64, 0x61, 0x65, 0x6C, 0x2D, 0x63, 0x62, 0x63, 0x40, 0x6C, 0x79, 0x73, 0x61],
      [0x74, 0x6F, 0x72, 0x2E, 0x6C, 0x69, 0x75, 0x2E, 0x73, 0x65, 0x00, 0x00, 0x00, 0xE9, 0x61, 0x65],
      [0x73, 0x31, 0x32, 0x38, 0x2D, 0x63, 0x74, 0x72, 0x2C, 0x61, 0x65, 0x73, 0x31, 0x39, 0x32, 0x2D],
      [0x63, 0x74, 0x72, 0x2C, 0x61, 0x65, 0x73, 0x32, 0x35, 0x36, 0x2D, 0x63, 0x74, 0x72, 0x2C, 0x61],
      [0x72, 0x63, 0x66, 0x6F, 0x75, 0x72, 0x32, 0x35, 0x36, 0x2C, 0x61, 0x72, 0x63, 0x66, 0x6F, 0x75],
      [0x72, 0x31, 0x32, 0x38, 0x2C, 0x61, 0x65, 0x73, 0x31, 0x32, 0x38, 0x2D, 0x67, 0x63, 0x6D, 0x40],
      [0x6F, 0x70, 0x65, 0x6E, 0x73, 0x73, 0x68, 0x2E, 0x63, 0x6F, 0x6D, 0x2C, 0x61, 0x65, 0x73, 0x32],
      [0x35, 0x36, 0x2D, 0x67, 0x63, 0x6D, 0x40, 0x6F, 0x70, 0x65, 0x6E, 0x73, 0x73, 0x68, 0x2E, 0x63],
      [0x6F, 0x6D, 0x2C, 0x63, 0x68, 0x61, 0x63, 0x68, 0x61, 0x32, 0x30, 0x2D, 0x70, 0x6F, 0x6C, 0x79],
      [0x31, 0x33, 0x30, 0x35, 0x40, 0x6F, 0x70, 0x65, 0x6E, 0x73, 0x73, 0x68, 0x2E, 0x63, 0x6F, 0x6D],
      [0x2C, 0x61, 0x65, 0x73, 0x31, 0x32, 0x38, 0x2D, 0x63, 0x62, 0x63, 0x2C, 0x33, 0x64, 0x65, 0x73],
      [0x2D, 0x63, 0x62, 0x63, 0x2C, 0x62, 0x6C, 0x6F, 0x77, 0x66, 0x69, 0x73, 0x68, 0x2D, 0x63, 0x62],
      [0x63, 0x2C, 0x63, 0x61, 0x73, 0x74, 0x31, 0x32, 0x38, 0x2D, 0x63, 0x62, 0x63, 0x2C, 0x61, 0x65],
      [0x73, 0x31, 0x39, 0x32, 0x2D, 0x63, 0x62, 0x63, 0x2C, 0x61, 0x65, 0x73, 0x32, 0x35, 0x36, 0x2D],
      [0x63, 0x62, 0x63, 0x2C, 0x61, 0x72, 0x63, 0x66, 0x6F, 0x75, 0x72, 0x2C, 0x72, 0x69, 0x6A, 0x6E],
      [0x64, 0x61, 0x65, 0x6C, 0x2D, 0x63, 0x62, 0x63, 0x40, 0x6C, 0x79, 0x73, 0x61, 0x74, 0x6F, 0x72],
      [0x2E, 0x6C, 0x69, 0x75, 0x2E, 0x73, 0x65, 0x00, 0x00, 0x01, 0x92, 0x68, 0x6D, 0x61, 0x63, 0x2D],
      [0x6D, 0x64, 0x35, 0x2D, 0x65, 0x74, 0x6D, 0x40, 0x6F, 0x70, 0x65, 0x6E, 0x73, 0x73, 0x68, 0x2E],
      [0x63, 0x6F, 0x6D, 0x2C, 0x68, 0x6D, 0x61, 0x63, 0x2D, 0x73, 0x68, 0x61, 0x31, 0x2D, 0x65, 0x74],
      [0x6D, 0x40, 0x6F, 0x70, 0x65, 0x6E, 0x73, 0x73, 0x68, 0x2E, 0x63, 0x6F, 0x6D, 0x2C, 0x75, 0x6D],
      [0x61, 0x63, 0x2D, 0x36, 0x34, 0x2D, 0x65, 0x74, 0x6D, 0x40, 0x6F, 0x70, 0x65, 0x6E, 0x73, 0x73],
      [0x68, 0x2E, 0x63, 0x6F, 0x6D, 0x2C, 0x75, 0x6D, 0x61, 0x63, 0x2D, 0x31, 0x32, 0x38, 0x2D, 0x65],
      [0x74, 0x6D, 0x40, 0x6F, 0x70, 0x65, 0x6E, 0x73, 0x73, 0x68, 0x2E, 0x63, 0x6F, 0x6D, 0x2C, 0x68],
      [0x6D, 0x61, 0x63, 0x2D, 0x73, 0x68, 0x61, 0x32, 0x2D, 0x32, 0x35, 0x36, 0x2D, 0x65, 0x74, 0x6D],
      [0x40, 0x6F, 0x70, 0x65, 0x6E, 0x73, 0x73, 0x68, 0x2E, 0x63, 0x6F, 0x6D, 0x2C, 0x68, 0x6D, 0x61],
      [0x63, 0x2D, 0x73, 0x68, 0x61, 0x32, 0x2D, 0x35, 0x31, 0x32, 0x2D, 0x65, 0x74, 0x6D, 0x40, 0x6F],
      [0x70, 0x65, 0x6E, 0x73, 0x73, 0x68, 0x2E, 0x63, 0x6F, 0x6D, 0x2C, 0x68, 0x6D, 0x61, 0x63, 0x2D],
      [0x72, 0x69, 0x70, 0x65, 0x6D, 0x64, 0x31, 0x36, 0x30, 0x2D, 0x65, 0x74, 0x6D, 0x40, 0x6F, 0x70],
      [0x65, 0x6E, 0x73, 0x73, 0x68, 0x2E, 0x63, 0x6F, 0x6D, 0x2C, 0x68, 0x6D, 0x61, 0x63, 0x2D, 0x73],
      [0x68, 0x61, 0x31, 0x2D, 0x39, 0x36, 0x2D, 0x65, 0x74, 0x6D, 0x40, 0x6F, 0x70, 0x65, 0x6E, 0x73],
      [0x73, 0x68, 0x2E, 0x63, 0x6F, 0x6D, 0x2C, 0x68, 0x6D, 0x61, 0x63, 0x2D, 0x6D, 0x64, 0x35, 0x2D],
      [0x39, 0x36, 0x2D, 0x65, 0x74, 0x6D, 0x40, 0x6F, 0x70, 0x65, 0x6E, 0x73, 0x73, 0x68, 0x2E, 0x63],
      [0x6F, 0x6D, 0x2C, 0x68, 0x6D, 0x61, 0x63, 0x2D, 0x6D, 0x64, 0x35, 0x2C, 0x68, 0x6D, 0x61, 0x63],
      [0x2D, 0x73, 0x68, 0x61, 0x31, 0x2C, 0x75, 0x6D, 0x61, 0x63, 0x2D, 0x36, 0x34, 0x40, 0x6F, 0x70],
      [0x65, 0x6E, 0x73, 0x73, 0x68, 0x2E, 0x63, 0x6F, 0x6D, 0x2C, 0x75, 0x6D, 0x61, 0x63, 0x2D, 0x31],
      [0x32, 0x38, 0x40, 0x6F, 0x70, 0x65, 0x6E, 0x73, 0x73, 0x68, 0x2E, 0x63, 0x6F, 0x6D, 0x2C, 0x68],
      [0x6D, 0x61, 0x63, 0x2D, 0x73, 0x68, 0x61, 0x32, 0x2D, 0x32, 0x35, 0x36, 0x2C, 0x68, 0x6D, 0x61],
      [0x63, 0x2D, 0x73, 0x68, 0x61, 0x32, 0x2D, 0x35, 0x31, 0x32, 0x2C, 0x68, 0x6D, 0x61, 0x63, 0x2D],
      [0x72, 0x69, 0x70, 0x65, 0x6D, 0x64, 0x31, 0x36, 0x30, 0x2C, 0x68, 0x6D, 0x61, 0x63, 0x2D, 0x72],
      [0x69, 0x70, 0x65, 0x6D, 0x64, 0x31, 0x36, 0x30, 0x40, 0x6F, 0x70, 0x65, 0x6E, 0x73, 0x73, 0x68],
      [0x2E, 0x63, 0x6F, 0x6D, 0x2C, 0x68, 0x6D, 0x61, 0x63, 0x2D, 0x73, 0x68, 0x61, 0x31, 0x2D, 0x39],
      [0x36, 0x2C, 0x68, 0x6D, 0x61, 0x63, 0x2D, 0x6D, 0x64, 0x35, 0x2D, 0x39, 0x36, 0x00, 0x00, 0x01],
      [0x92, 0x68, 0x6D, 0x61, 0x63, 0x2D, 0x6D, 0x64, 0x35, 0x2D, 0x65, 0x74, 0x6D, 0x40, 0x6F, 0x70],
      [0x65, 0x6E, 0x73, 0x73, 0x68, 0x2E, 0x63, 0x6F, 0x6D, 0x2C, 0x68, 0x6D, 0x61, 0x63, 0x2D, 0x73],
      [0x68, 0x61, 0x31, 0x2D, 0x65, 0x74, 0x6D, 0x40, 0x6F, 0x70, 0x65, 0x6E, 0x73, 0x73, 0x68, 0x2E],
      [0x63, 0x6F, 0x6D, 0x2C, 0x75, 0x6D, 0x61, 0x63, 0x2D, 0x36, 0x34, 0x2D, 0x65, 0x74, 0x6D, 0x40],
      [0x6F, 0x70, 0x65, 0x6E, 0x73, 0x73, 0x68, 0x2E, 0x63, 0x6F, 0x6D, 0x2C, 0x75, 0x6D, 0x61, 0x63],
      [0x2D, 0x31, 0x32, 0x38, 0x2D, 0x65, 0x74, 0x6D, 0x40, 0x6F, 0x70, 0x65, 0x6E, 0x73, 0x73, 0x68],
      [0x2E, 0x63, 0x6F, 0x6D, 0x2C, 0x68, 0x6D, 0x61, 0x63, 0x2D, 0x73, 0x68, 0x61, 0x32, 0x2D, 0x32],
      [0x35, 0x36, 0x2D, 0x65, 0x74, 0x6D, 0x40, 0x6F, 0x70, 0x65, 0x6E, 0x73, 0x73, 0x68, 0x2E, 0x63],
      [0x6F, 0x6D, 0x2C, 0x68, 0x6D, 0x61, 0x63, 0x2D, 0x73, 0x68, 0x61, 0x32, 0x2D, 0x35, 0x31, 0x32],
      [0x2D, 0x65, 0x74, 0x6D, 0x40, 0x6F, 0x70, 0x65, 0x6E, 0x73, 0x73, 0x68, 0x2E, 0x63, 0x6F, 0x6D],
      [0x2C, 0x68, 0x6D, 0x61, 0x63, 0x2D, 0x72, 0x69, 0x70, 0x65, 0x6D, 0x64, 0x31, 0x36, 0x30, 0x2D],
      [0x65, 0x74, 0x6D, 0x40, 0x6F, 0x70, 0x65, 0x6E, 0x73, 0x73, 0x68, 0x2E, 0x63, 0x6F, 0x6D, 0x2C],
      [0x68, 0x6D, 0x61, 0x63, 0x2D, 0x73, 0x68, 0x61, 0x31, 0x2D, 0x39, 0x36, 0x2D, 0x65, 0x74, 0x6D],
      [0x40, 0x6F, 0x70, 0x65, 0x6E, 0x73, 0x73, 0x68, 0x2E, 0x63, 0x6F, 0x6D, 0x2C, 0x68, 0x6D, 0x61],
      [0x63, 0x2D, 0x6D, 0x64, 0x35, 0x2D, 0x39, 0x36, 0x2D, 0x65, 0x74, 0x6D, 0x40, 0x6F, 0x70, 0x65],
      [0x6E, 0x73, 0x73, 0x68, 0x2E, 0x63, 0x6F, 0x6D, 0x2C, 0x68, 0x6D, 0x61, 0x63, 0x2D, 0x6D, 0x64],
      [0x35, 0x2C, 0x68, 0x6D, 0x61, 0x63, 0x2D, 0x73, 0x68, 0x61, 0x31, 0x2C, 0x75, 0x6D, 0x61, 0x63],
      [0x2D, 0x36, 0x34, 0x40, 0x6F, 0x70, 0x65, 0x6E, 0x73, 0x73, 0x68, 0x2E, 0x63, 0x6F, 0x6D, 0x2C],
      [0x75, 0x6D, 0x61, 0x63, 0x2D, 0x31, 0x32, 0x38, 0x40, 0x6F, 0x70, 0x65, 0x6E, 0x73, 0x73, 0x68],
      [0x2E, 0x63, 0x6F, 0x6D, 0x2C, 0x68, 0x6D, 0x61, 0x63, 0x2D, 0x73, 0x68, 0x61, 0x32, 0x2D, 0x32],
      [0x35, 0x36, 0x2C, 0x68, 0x6D, 0x61, 0x63, 0x2D, 0x73, 0x68, 0x61, 0x32, 0x2D, 0x35, 0x31, 0x32],
      [0x2C, 0x68, 0x6D, 0x61, 0x63, 0x2D, 0x72, 0x69, 0x70, 0x65, 0x6D, 0x64, 0x31, 0x36, 0x30, 0x2C],
      [0x68, 0x6D, 0x61, 0x63, 0x2D, 0x72, 0x69, 0x70, 0x65, 0x6D, 0x64, 0x31, 0x36, 0x30, 0x40, 0x6F],
      [0x70, 0x65, 0x6E, 0x73, 0x73, 0x68, 0x2E, 0x63, 0x6F, 0x6D, 0x2C, 0x68, 0x6D, 0x61, 0x63, 0x2D],
      [0x73, 0x68, 0x61, 0x31, 0x2D, 0x39, 0x36, 0x2C, 0x68, 0x6D, 0x61, 0x63, 0x2D, 0x6D, 0x64, 0x35],
      [0x2D, 0x39, 0x36, 0x00, 0x00, 0x00, 0x1A, 0x7A, 0x6C, 0x69, 0x62, 0x40, 0x6F, 0x70, 0x65, 0x6E],
      [0x73, 0x73, 0x68, 0x2E, 0x63, 0x6F, 0x6D, 0x2C, 0x7A, 0x6C, 0x69, 0x62, 0x2C, 0x6E, 0x6F, 0x6E],
      [0x65, 0x00, 0x00, 0x00, 0x1A, 0x7A, 0x6C, 0x69, 0x62, 0x40, 0x6F, 0x70, 0x65, 0x6E, 0x73, 0x73],
      [0x68, 0x2E, 0x63, 0x6F, 0x6D, 0x2C, 0x7A, 0x6C, 0x69, 0x62, 0x2C, 0x6E, 0x6F, 0x6E, 0x65, 0x00],
      [0x00, 0x00, 0x00, 0x00, 0x00, 0x00, 0x00, 0x00, 0x00, 0x00, 0x00, 0x00, 0x00, 0x00, 0x00, 0x00]]"

definition client_dh :: "u8 list" where
  "client_dh = concat
     [[0x00, 0x00, 0x00, 0x4C, 0x05, 0x1E, 0x00, 0x00, 0x00, 0x41, 0x04, 0x4A, 0x57, 0x2B, 0x2F, 0xA8],
      [0x30, 0xD4, 0x02, 0x92, 0x5F, 0x3E, 0xE6, 0x9F, 0x1F, 0xE6, 0x69, 0x67, 0x20, 0x58, 0x38, 0x38],
      [0x76, 0xD9, 0xA8, 0x3E, 0x32, 0x6B, 0xAD, 0xED, 0xBC, 0xBF, 0x0D, 0x9C, 0xAE, 0xBC, 0xAE, 0xBB],
      [0xCE, 0xB6, 0x96, 0xD4, 0x03, 0xB1, 0x04, 0x00, 0xA7, 0x16, 0xA9, 0x5D, 0x75, 0x66, 0x44, 0x5B],
      [0x6B, 0x8F, 0x63, 0x67, 0x08, 0x06, 0x47, 0xB6, 0x9C, 0x69, 0x6A, 0x00, 0x00, 0x00, 0x00, 0x00]]"

section \<open>Closures\<close>

datatype 'u ssh_fn =
    Ssh_Object "'u option" "'u option"
  | Ssh_Banner "'u option" "'u option"
  | Ssh_Answer "'u ssh_fn option"
  | Ssh_Forward "'u ssh_fn"
  | Ssh_Key_Exchange "'u option" "'u option"
  | Ssh_Get_Certificate "'u option" "'u option"
  | Ssh_User 'u

record ('u, 'pl, 'w) ssh_user =
  hu_data :: "'u \<Rightarrow> connected_target \<Rightarrow> nat \<Rightarrow> u32 \<Rightarrow> ('u ssh_fn, 'pl, 'w) conn
                  \<Rightarrow> (bool \<times> ('u ssh_fn, 'pl, 'w) conn) res"
  hu_connect :: "'u \<Rightarrow> connected_target \<Rightarrow> ('u ssh_fn, 'pl, 'w) conn
                  \<Rightarrow> (bool \<times> ('u ssh_fn, 'pl, 'w) conn) res"
  hu_python :: "'u \<Rightarrow> connected_target \<Rightarrow> u32 \<Rightarrow> ('u ssh_fn, 'pl, 'w) conn
                  \<Rightarrow> (process_code \<times> ('u ssh_fn, 'pl, 'w) conn) res"

text \<open>The configuration of an \<open>SSH\<close> object.\<close>

definition on_certificate :: "'u option \<Rightarrow> 'u ssh_fn \<Rightarrow> 'u ssh_fn" where
  "on_certificate cb s = (case s of Ssh_Object _ cb_invalid \<Rightarrow> Ssh_Object cb cb_invalid | _ \<Rightarrow> s)"

definition on_invalid_answer :: "'u option \<Rightarrow> 'u ssh_fn \<Rightarrow> 'u ssh_fn" where
  "on_invalid_answer cb s = (case s of Ssh_Object cb_certif _ \<Rightarrow> Ssh_Object cb_certif cb | _ \<Rightarrow> s)"

section \<open>Handlers\<close>

definition ssh_invalid ::
  "('u, 'pl, 'w) ssh_user \<Rightarrow> 'u option \<Rightarrow> connected_target \<Rightarrow> nat \<Rightarrow> u32 \<Rightarrow> ('u ssh_fn, 'pl, 'w) conn
     \<Rightarrow> (bool \<times> ('u ssh_fn, 'pl, 'w) conn) res"
where
  "ssh_invalid U cb_invalid ct buf sz c = call_cb False cb_invalid (\<lambda>u. hu_data U u ct buf sz c) c"

text \<open>\<open>SSHAnswer::operator()\<close>: five bytes of a packet, its length and its padding length.\<close>

definition ssh_answer_length :: "u8 list \<Rightarrow> u32 option" where
  "ssh_answer_length bs =
     (let len = ntohl (bs ! 0) (bs ! 1) (bs ! 2) (bs ! 3);
          padding = bs ! 4;
          len = len + ucast padding
      in if len \<le> 7 then None else Some (len - 7))"

definition ssh_answer ::
  "'u ssh_fn option \<Rightarrow> nat \<Rightarrow> ('u ssh_fn, 'pl, 'w) conn \<Rightarrow> (bool \<times> ('u ssh_fn, 'pl, 'w) conn) res"
where
  "ssh_answer nxt buf c =
     (case nxt of
        None \<Rightarrow> Inr (False, c)
      | Some nx \<Rightarrow>
          (case c of (l, h, w) \<Rightarrow>
             bind_res (buf_bytes buf 5 (l4_buf l)) (\<lambda>bs.
               case ssh_answer_length bs of
                 None \<Rightarrow> Inr (False, c)
               | Some len \<Rightarrow>
                   Inr (True, set_trigger (Size_Data_Trigger (Some (Ssh_Forward nx)) len) l, h, w))))"

definition ssh_key_exchange ::
  "'u option \<Rightarrow> 'u option \<Rightarrow> ('u ssh_fn, 'pl, 'w) conn \<Rightarrow> (bool \<times> ('u ssh_fn, 'pl, 'w) conn) res"
where
  "ssh_key_exchange cb_certif cb_invalid c =
     (case c of (l, h, w) \<Rightarrow>
        Inr (True, set_trigger (Size_Data_Trigger
               (Some (Ssh_Answer (Some (Ssh_Get_Certificate cb_certif cb_invalid)))) 5) l, h, w))"

text \<open>\<open>SSHGetCertificate::operator()\<close>\<close>

definition ssh_get_certificate ::
  "('u, 'pl, 'w) ssh_user \<Rightarrow> 'u option \<Rightarrow> 'u option \<Rightarrow> connected_target \<Rightarrow> nat \<Rightarrow> u32
     \<Rightarrow> ('u ssh_fn, 'pl, 'w) conn \<Rightarrow> (bool \<times> ('u ssh_fn, 'pl, 'w) conn) res"
where
  "ssh_get_certificate U cb_certif cb_invalid ct buf sz c =
     (if sz < 1 then ssh_invalid U cb_invalid ct buf sz c
      else bind_res (buf_read buf (l4_buf (fst c))) (\<lambda>b0.
        if b0 \<noteq> 0x1f then ssh_invalid U cb_invalid ct buf sz c
        else let sz = sz - 1; buf = buf + 1 in
          if sz < 4 then ssh_invalid U cb_invalid ct buf sz c
          else let sz = sz - 4 in
            bind_res (buf_bytes buf 4 (l4_buf (fst c))) (\<lambda>bs.
            let len = ntohl (bs ! 0) (bs ! 1) (bs ! 2) (bs ! 3); buf = buf + 4 in
            if sz < len then ssh_invalid U cb_invalid ct buf sz c
            else call_cb False cb_certif (\<lambda>u. hu_data U u ct buf sz c) c)))"

text \<open>The lambda on the server's banner.\<close>

definition ssh_banner ::
  "'w os \<Rightarrow> ('u, 'pl, 'w) ssh_user \<Rightarrow> 'u option \<Rightarrow> 'u option \<Rightarrow> connected_target \<Rightarrow> nat \<Rightarrow> u32
     \<Rightarrow> ('u ssh_fn, 'pl, 'w) conn \<Rightarrow> (bool \<times> ('u ssh_fn, 'pl, 'w) conn) res"
where
  "ssh_banner K U cb_certif cb_invalid ct buf sz c =
     (if sz < 7 then ssh_invalid U cb_invalid ct buf sz c
      else bind_res (buf_memeq buf (bytes_of ''SSH-2.0'') (l4_buf (fst c))) (\<lambda>eq.
        if \<not> eq then ssh_invalid U cb_invalid ct buf sz c
        else case c of (l, h, w) \<Rightarrow>
          let w1 = snd (ct_send K ct client_key_exchange w);
              w2 = snd (ct_send K ct client_dh w1)
          in Inr (True, set_trigger (Size_Data_Trigger
                 (Some (Ssh_Answer (Some (Ssh_Key_Exchange cb_certif cb_invalid)))) 5) l, h, w2)))"

fun ssh_data ::
  "'w os \<Rightarrow> ('u, 'pl, 'w) ssh_user \<Rightarrow> 'u ssh_fn \<Rightarrow> connected_target \<Rightarrow> nat \<Rightarrow> u32
     \<Rightarrow> ('u ssh_fn, 'pl, 'w) conn \<Rightarrow> (bool \<times> ('u ssh_fn, 'pl, 'w) conn) res"
where
  "ssh_data K U (Ssh_Object cc ci) ct buf sz c = Inr (False, c)"
| "ssh_data K U (Ssh_Banner cc ci) ct buf sz c = ssh_banner K U cc ci ct buf sz c"
| "ssh_data K U (Ssh_Answer nxt) ct buf sz c = ssh_answer nxt buf c"
| "ssh_data K U (Ssh_Forward f) ct buf sz c = ssh_data K U f ct buf sz c"
| "ssh_data K U (Ssh_Key_Exchange cc ci) ct buf sz c = ssh_key_exchange cc ci c"
| "ssh_data K U (Ssh_Get_Certificate cc ci) ct buf sz c = ssh_get_certificate U cc ci ct buf sz c"
| "ssh_data K U (Ssh_User u) ct buf sz c = hu_data U u ct buf sz c"

definition ssh_connect ::
  "'w os \<Rightarrow> 'u option \<Rightarrow> 'u option \<Rightarrow> connected_target \<Rightarrow> ('u ssh_fn, 'pl, 'w) conn
     \<Rightarrow> (bool \<times> ('u ssh_fn, 'pl, 'w) conn) res"
where
  "ssh_connect K cb_certif cb_invalid ct c =
     (case c of (l, h, w) \<Rightarrow>
        let w1 = snd (ct_send K ct (bytes_of ''SSH-2.0-OpenSSH_6.6.1p1 my-little-poney'' @ [13, 10]) w)
        in Inr (True, set_trigger (Char_Data_Trigger (Some (Ssh_Banner cb_certif cb_invalid)) 10) l, h, w1))"

definition ssh_actions :: "'w os \<Rightarrow> ('u, 'pl, 'w) ssh_user \<Rightarrow> ('u ssh_fn, 'pl, 'w) actions" where
  "ssh_actions K U =
     \<lparr>act_data = (\<lambda>f ct off sz c. ssh_data K U f ct off sz c),
      act_connect = (\<lambda>f ct c.
        case f of
          Ssh_Object cb_certif cb_invalid \<Rightarrow> ssh_connect K cb_certif cb_invalid ct c
        | Ssh_User u \<Rightarrow> hu_connect U u ct c
        | _ \<Rightarrow> Inr (False, c)),
      act_python = (\<lambda>f ct p c.
        case f of Ssh_User u \<Rightarrow> hu_python U u ct p c | _ \<Rightarrow> Inr (NoMoreToProcess, c))\<rparr>"

section \<open>The recorded packets\<close>

text \<open>
  The wire format of RFC 4253: a packet is its length, the length of its padding, the payload and
  the padding; a key exchange message holds ten name lists, each behind its length.
\<close>

definition packet_ok :: "u8 list \<Rightarrow> u8 \<Rightarrow> nat \<Rightarrow> bool" where
  "packet_ok xs ty padding \<longleftrightarrow>
     6 + padding \<le> length xs \<and> unat (ntohl (xs ! 0) (xs ! 1) (xs ! 2) (xs ! 3)) + 4 = length xs
     \<and> unat (xs ! 4) = padding \<and> xs ! 5 = ty"

definition name_list_at :: "u8 list \<Rightarrow> nat \<Rightarrow> nat" where
  "name_list_at xs p = unat (ntohl (xs ! p) (xs ! (p + 1)) (xs ! (p + 2)) (xs ! (p + 3)))"

fun name_list_lengths :: "nat \<Rightarrow> u8 list \<Rightarrow> nat \<Rightarrow> nat list" where
  "name_list_lengths 0 xs p = []"
| "name_list_lengths (Suc n) xs p =
     name_list_at xs p # name_list_lengths n xs (p + 4 + name_list_at xs p)"

lemma name_list_lengths_numeral:
  "name_list_lengths (numeral v) xs p =
     name_list_at xs p # name_list_lengths (pred_numeral v) xs (p + 4 + name_list_at xs p)"
  by (simp add: numeral_eq_Suc)

text \<open>
  The recorded packets are well-formed: the key exchange packet is one packet of type 20 with
  four bytes of padding whose sixteen cookie bytes are followed by exactly ten name lists, then the
  flag and the reserved word. The Diffie-Hellman packet is one packet of type 30 with five bytes of
  padding.
\<close>

theorem recorded_packets:
  "packet_ok client_key_exchange 20 4 \<and> packet_ok client_dh 30 5
   \<and> name_list_lengths 10 client_key_exchange 22 = [56, 7, 233, 233, 402, 402, 26, 26, 0, 0]
   \<and> 22 + sum_list (map (\<lambda>k. 4 + k) (name_list_lengths 10 client_key_exchange 22)) + (1 + 4) + 4
      = length client_key_exchange"
proof -
  have heads: "map (name_list_at client_key_exchange) [22, 82, 93, 330, 567, 973, 1379, 1409, 1439, 1443]
      = [56, 7, 233, 233, 402, 402, 26, 26, 0, 0]"
    by (simp add: name_list_at_def client_key_exchange_def ntohl_def)
  have lengths: "name_list_lengths 10 client_key_exchange 22 = [56, 7, 233, 233, 402, 402, 26, 26, 0, 0]"
    using heads by (simp add: name_list_lengths_numeral)
  have "packet_ok client_key_exchange 20 4" "packet_ok client_dh 30 5" "length client_key_exchange = 1456"
    by (simp_all add: packet_ok_def client_key_exchange_def client_dh_def ntohl_def)
  with lengths show ?thesis by simp
qed

section \<open>Packet lengths\<close>

lemma answer_length_sum:
  assumes "unat (ntohl (bs ! 0) (bs ! 1) (bs ! 2) (bs ! 3)) + unat (bs ! 4) < 2 ^ 32"
    and "7 < unat (ntohl (bs ! 0) (bs ! 1) (bs ! 2) (bs ! 3)) + unat (bs ! 4)"
  shows "\<exists>n. ssh_answer_length bs = Some n
    \<and> unat n = unat (ntohl (bs ! 0) (bs ! 1) (bs ! 2) (bs ! 3)) + unat (bs ! 4) - 7"
proof -
  let ?L = "ntohl (bs ! 0) (bs ! 1) (bs ! 2) (bs ! 3)" and ?P = "ucast (bs ! 4) :: u32"
  have p: "unat ?P = unat (bs ! 4)"
    using unat_u8_less [of "bs ! 4"] by (simp add: unsigned_ucast_eq take_bit_nat_eq_self del: unat_u8_less)
  have "unat (?L + ?P) = unat ?L + unat (bs ! 4)" using assms(1) p by (simp add: unat_word_ariths)
  then have "\<not> ?L + ?P \<le> 7" "unat (?L + ?P - 7) = unat ?L + unat (bs ! 4) - 7"
    using assms(2) by (auto simp: word_le_nat_alt unat_sub)
  then show ?thesis by (simp add: ssh_answer_length_def Let_def)
qed

text \<open>
  How many bytes the scanner waits for behind the five bytes of a packet's header: the packet
  length plus the padding length minus 7, and so the rest of the packet, which is the packet length
  minus 1, exactly when the packet has six bytes of padding.
\<close>

theorem answer_length_padding:
  assumes "unat (ntohl (bs ! 0) (bs ! 1) (bs ! 2) (bs ! 3)) + unat (bs ! 4) < 2 ^ 32"
    and "7 < unat (ntohl (bs ! 0) (bs ! 1) (bs ! 2) (bs ! 3)) + unat (bs ! 4)"
  shows "\<exists>n. ssh_answer_length bs = Some n
    \<and> unat n = unat (ntohl (bs ! 0) (bs ! 1) (bs ! 2) (bs ! 3)) + unat (bs ! 4) - 7
    \<and> (unat n = unat (ntohl (bs ! 0) (bs ! 1) (bs ! 2) (bs ! 3)) - 1 \<longleftrightarrow> bs ! 4 = 6)"
  using answer_length_sum [OF assms] assms(2) by (auto simp: word_unat_eq_iff [of "bs ! 4"])

theorem answer_length_padding_witness:
  "\<exists>n. ssh_answer_length [0, 0, 1, 0, 6] = Some n \<and> unat n = 255 \<and> (unat n = 256 - 1 \<longleftrightarrow> (6 :: u8) = 6)"
  using answer_length_padding [of "[0, 0, 1, 0, 6]"] by (simp add: ntohl_def)

lemma answer_length_pos: "ssh_answer_length bs = Some n \<Longrightarrow> n \<noteq> 0"
  by (auto simp: ssh_answer_length_def Let_def split: if_splits)

section \<open>Safety\<close>

lemma length_ssh_20 [simp]: "length (bytes_of ''SSH-2.0'') = 7" "bytes_of ''SSH-2.0'' \<noteq> []"
  by (simp_all add: bytes_of_def)

text \<open>
  What each closure accepts: \<open>SSHAnswer\<close> reads five bytes, and forwards what follows to a closure
  that takes any number.
\<close>

definition ssh_any_size :: "'u ssh_fn \<Rightarrow> bool" where
  "ssh_any_size f = (case f of Ssh_Answer g \<Rightarrow> False | Ssh_Forward g \<Rightarrow> False | _ \<Rightarrow> True)"

definition ssh_adm :: "'u ssh_fn \<Rightarrow> u32 \<Rightarrow> bool" where
  "ssh_adm f n =
     (case f of
        Ssh_Answer nxt \<Rightarrow> 5 \<le> n \<and> (case nxt of None \<Rightarrow> True | Some g \<Rightarrow> ssh_any_size g)
      | Ssh_Forward g \<Rightarrow> ssh_any_size g
      | _ \<Rightarrow> True)"

lemma ssh_adm_Banner [simp]: "ssh_adm (Ssh_Banner cc ci) = (\<lambda>n. True)"
  by (rule ext) (simp add: ssh_adm_def)

locale ssh_user_ok =
  fixes U :: "('u, 'pl, 'w) ssh_user"
  assumes data_ok: "l4_ok ssh_adm l \<Longrightarrow> off + unat n \<le> unat (buf_pos (l4_buf l)) \<Longrightarrow>
        returns_ok ssh_adm l (hu_data U u ct off n (l, h, w))"
begin

lemma call_data_ok:
  assumes "l4_ok ssh_adm l" and "off + unat n \<le> unat (buf_pos (l4_buf l))"
  shows "returns_ok ssh_adm l (call_cb d cb (\<lambda>u. hu_data U u ct off n (l, h, w)) (l, h, w))"
  using assms by (intro call_cb_returns_ok data_ok)

lemma answer_ok:
  assumes "l4_ok ssh_adm l" and "5 \<le> unat (buf_pos (l4_buf l))"
    and "case nxt of None \<Rightarrow> True | Some g \<Rightarrow> ssh_any_size g"
  shows "returns_ok ssh_adm l (ssh_answer nxt 0 (l, h, w))"
  using assms buf_bytes_contents [of "l4_buf l" 0 5] answer_length_pos
  by (auto simp: ssh_answer_def returns_ok_def l4_ok_def set_trigger_def progressing_def ssh_adm_def
      split: option.splits)

lemma get_certificate_ok:
  assumes ok: "l4_ok ssh_adm l" and n: "unat n \<le> unat (buf_pos (l4_buf l))"
  shows "returns_ok ssh_adm l (ssh_get_certificate U cc ci ct 0 n (l, h, w))"
proof (cases "n < 1")
  case True
  then show ?thesis using call_data_ok [OF ok, of 0 n] n
    by (simp add: ssh_get_certificate_def ssh_invalid_def)
next
  case False
  then have n1: "1 \<le> n" "unat (n - 1) = unat n - 1" "0 < unat n"
    by (auto simp: word_le_nat_alt word_less_nat_alt unat_sub)
  have bok: "buf_ok (l4_buf l)" using ok by (simp add: l4_ok_def)
  have rd: "buf_read 0 (l4_buf l) = Inr (buf_contents (l4_buf l) ! 0)"
    using bok n n1(3) by (intro buf_read_contents) linarith+
  note inv = call_data_ok [OF ok]
  show ?thesis
  proof (cases "n - 1 < 4")
    case True
    with False rd inv [of 0 n] inv [of 1 "n - 1"] n n1 show ?thesis
      by (simp add: ssh_get_certificate_def ssh_invalid_def Let_def)
  next
    case big: False
    then have n4: "unat (n - 1 - 4) = unat n - 5" "5 \<le> unat n"
      using n1 by (auto simp: word_less_nat_alt word_le_nat_alt unat_sub)
    then have bs: "buf_bytes 1 4 (l4_buf l) = Inr (take 4 (drop 1 (buf_contents (l4_buf l))))"
      using bok n by (intro buf_bytes_contents) linarith+
    have "5 + unat (n - 1 - 4) \<le> unat (buf_pos (l4_buf l))" using n4 n by linarith
    with inv [of 0 n] inv [of 5 "n - 1 - 4"] False big rd bs n show ?thesis
      by (simp add: ssh_get_certificate_def ssh_invalid_def Let_def)
  qed
qed

lemma banner_ok:
  assumes ok: "l4_ok ssh_adm l" and n: "unat n \<le> unat (buf_pos (l4_buf l))"
  shows "returns_ok ssh_adm l (ssh_banner K U cc ci ct 0 n (l, h, w))"
proof (cases "n < 7")
  case True
  then show ?thesis using call_data_ok [OF ok, of 0 n] n by (simp add: ssh_banner_def ssh_invalid_def)
next
  case False
  then have "7 \<le> unat n" by (simp add: word_less_nat_alt)
  with n ok have "buf_memeq 0 (bytes_of ''SSH-2.0'') (l4_buf l)
      = Inr (take 7 (buf_contents (l4_buf l)) = bytes_of ''SSH-2.0'')"
    using memeq_contents [of "l4_buf l" 0 "bytes_of ''SSH-2.0''"] by (simp add: l4_ok_def)
  with False n ok call_data_ok [OF ok, of 0 n] show ?thesis
    by (auto simp: ssh_banner_def ssh_invalid_def Let_def returns_ok_def l4_ok_def set_trigger_def
        progressing_def ssh_adm_def ssh_any_size_def)
qed

lemma any_size_ok:
  assumes "ssh_any_size f" and "l4_ok ssh_adm l" and "unat n \<le> unat (buf_pos (l4_buf l))"
  shows "returns_ok ssh_adm l (ssh_data K U f ct 0 n (l, h, w))"
  using assms
  by (cases f) (auto simp: ssh_any_size_def ssh_key_exchange_def returns_ok_def l4_ok_def
      set_trigger_def progressing_def ssh_adm_def
      intro: banner_ok [unfolded l4_ok_def returns_ok_def] get_certificate_ok [unfolded l4_ok_def returns_ok_def]
        data_ok [unfolded l4_ok_def returns_ok_def])

lemma data_safe:
  assumes "l4_ok ssh_adm l" and "ssh_adm f n" and "unat n \<le> unat (buf_pos (l4_buf l))"
  shows "returns_ok ssh_adm l (ssh_data K U f ct 0 n (l, h, w))"
proof (cases f)
  case (Ssh_Answer nxt)
  with assms show ?thesis by (auto simp: ssh_adm_def word_le_nat_alt intro!: answer_ok)
next
  case (Ssh_Forward g)
  with assms show ?thesis by (simp add: ssh_adm_def any_size_ok)
qed (use assms any_size_ok [of f l n K ct h w] in \<open>simp_all add: ssh_any_size_def\<close>)

end

sublocale ssh_user_ok \<subseteq> trigger_client ssh_adm "ssh_actions K U" for K
  by unfold_locales (simp add: ssh_actions_def data_safe)

context ssh_user_ok
begin

lemma scan_returns:
  assumes "l4_ok ssh_adm l" and "unat (buf_pos (l4_buf l)) < fuel"
  shows "\<exists>r l' h' w'. process_buffer fuel (ssh_actions K U) ct (l, h, w) = Inr (r, l', h', w')
    \<and> buf_ok (l4_buf l') \<and> (r \<longrightarrow> l4_ok ssh_adm l')"
  unfolding process_buffer_def using assms by (rule loop_returns)

end

text \<open>
  C17. Whatever bytes an SSH server sends, processing them ends without a fault within one round per
  byte: every read lies inside the received data and every trigger installed waits for at least one
  byte, if the user's callbacks return in order.
\<close>

theorem ssh_safe:
  assumes "ssh_user_ok U" and "l4_ok ssh_adm l" and "unat (buf_pos (l4_buf l)) < fuel"
  shows "\<exists>r l' h' w'. process_buffer fuel (ssh_actions K U) ct (l, h, w) = Inr (r, l', h', w')
    \<and> buf_ok (l4_buf l') \<and> (r \<longrightarrow> l4_ok ssh_adm l')"
  using assms by (rule ssh_user_ok.scan_returns)

text \<open>
  The callback of \<open>tests/ssh.cpp\<close>: print the bytes and end the connection. The world holds the
  bytes sent and the bytes printed.
\<close>

definition ssh_print :: "(unit, 'pl, u8 list \<times> u8 list) ssh_user" where
  "ssh_print =
     \<lparr>hu_data = (\<lambda>u ct off n (l, h, (sent, out)).
        Inr (False, l, h, (sent, out @ take (unat n) (drop off (buf_contents (l4_buf l)))))),
      hu_connect = (\<lambda>u ct c. Inr (False, c)),
      hu_python = (\<lambda>u ct p c. Inr (NoMoreToProcess, c))\<rparr>"

definition sending_os :: "(u8 list \<times> u8 list) os" where
  "sending_os = no_os\<lparr>os_write := \<lambda>s bs (sent, out). (int (length bs), (sent @ bs, out))\<rparr>"

interpretation hp: ssh_user_ok ssh_print
  by unfold_locales (auto simp: ssh_print_def returns_ok_Inr)

theorem ssh_safe_witness:
  "\<exists>r l' h' w'. process_buffer 19 (ssh_actions sending_os ssh_print) (Connected_Target 3 (Target 1 (Port 22 0)))
      (logger_conn (Char_Data_Trigger (Some (Ssh_Banner (Some ()) None)) 10)
         (bytes_of ''SSH-2.0'' @ [10, 0, 0, 0, 3, 6, 20]), host_sm_new unit_ports 0, ([], []))
      = Inr (r, l', h', w')
    \<and> buf_ok (l4_buf l') \<and> (r \<longrightarrow> l4_ok ssh_adm l')"
  by (rule ssh_safe [OF hp.ssh_user_ok_axioms])
    (simp_all add: l4_ok_def progressing_def ssh_adm_def logger_conn_simps bytes_of_def)

section \<open>A complete exchange\<close>

text \<open>A callback that records the bytes it is given and ends the connection.\<close>

definition ssh_observes :: "('u, 'pl, 'w) ssh_user \<Rightarrow> (u8 list \<Rightarrow> 'w \<Rightarrow> 'w) \<Rightarrow> bool" where
  "ssh_observes U log \<longleftrightarrow>
     (\<forall>u ct off n l h w. hu_data U u ct off n (l, h, w) =
        Inr (False, l, h, log (take (unat n) (drop off (buf_contents (l4_buf l)))) w))"

definition be32 :: "nat \<Rightarrow> u8 list" where
  "be32 n = (case htonl (of_nat n) of (b0, b1, b2, b3) \<Rightarrow> [b0, b1, b2, b3])"

lemma length_be32 [simp]: "length (be32 n) = 4"
  by (simp add: be32_def htonl_def)

lemma ntohl_be32: "n < 2 ^ 32 \<Longrightarrow>
    unat (ntohl (be32 n ! 0) (be32 n ! Suc 0) (be32 n ! 2) (be32 n ! 3)) = n"
  using ntohl_htonl [of "of_nat n :: u32"] unat_of_nat_u32 [of n]
  by (cases "htonl (of_nat n)") (simp add: be32_def)

definition ssh_packet :: "u8 list \<Rightarrow> u8 list \<Rightarrow> u8 list" where
  "ssh_packet payload padding =
     be32 (1 + length payload + length padding) @ [of_nat (length padding)] @ payload @ padding"

lemma answer_length_packet:
  assumes "length pad = 6" and "length p + 13 < 2 ^ 32"
  shows "\<exists>n. ssh_answer_length (be32 (1 + length p + length pad) @ [of_nat (length pad)]) = Some n
    \<and> unat n = length p + 6"
proof -
  let ?bs = "be32 (1 + length p + length pad) @ [of_nat (length pad) :: u8]"
  have e: "unat (ntohl (?bs ! 0) (?bs ! 1) (?bs ! 2) (?bs ! 3)) = length p + 7" "unat (?bs ! 4) = 6"
    using ntohl_be32 [of "1 + length p + length pad"] assms by (simp_all add: nth_append)
  show ?thesis using answer_length_sum [of ?bs] assms(2) e by auto
qed

lemma answer_round:
  assumes t: "l4_trigger l = Size_Data_Trigger (Some (Ssh_Answer (Some g))) 5" and ok: "buf_ok (l4_buf l)"
    and c: "buf_contents (l4_buf l) = ssh_packet p pad @ rest"
    and len: "length pad = 6" "length p + 13 < 2 ^ 32"
  shows "\<exists>b n. buf_ok b \<and> buf_contents b = p @ pad @ rest \<and> unat n = length p + 6
    \<and> (\<forall>fuel. process_loop (Suc fuel) (ssh_actions K U) ct 0 (l, h, w) = process_loop fuel (ssh_actions K U) ct 0
         ((set_trigger (Size_Data_Trigger (Some (Ssh_Forward g)) n) l)\<lparr>l4_buf := b\<rparr>, h, w))"
proof -
  let ?hd = "be32 (1 + length p + length pad) @ [of_nat (length pad) :: u8]"
  obtain n where n: "ssh_answer_length ?hd = Some n" "unat n = length p + 6"
    using answer_length_packet [OF len] by blast
  have c5: "buf_contents (l4_buf l) = ?hd @ p @ pad @ rest" using c by (simp add: ssh_packet_def)
  then have "buf_bytes 0 5 (l4_buf l) = Inr ?hd"
    by (intro buf_bytes_at [OF ok, of "[]" _ "p @ pad @ rest"]) simp_all
  with n have "act_data (ssh_actions K U) (Ssh_Answer (Some g)) ct 0 5 (l, h, w)
      = Inr (True, set_trigger (Size_Data_Trigger (Some (Ssh_Forward g)) n) l, h, w)"
    by (simp add: ssh_actions_def ssh_answer_def)
  from size_round [OF t ok c5 _ this, of 0] n(2) show ?thesis by (auto simp: set_trigger_def)
qed

lemma get_certificate_reply:
  assumes ok: "buf_ok (l4_buf l)" and c: "buf_contents (l4_buf l) = (0x1f # be32 (length cert) @ cert @ r) @ rest"
    and n: "unat n = 5 + length cert + length r" and len: "length cert < 2 ^ 32"
    and obs: "ssh_observes U log"
  shows "ssh_get_certificate U (Some u) ci ct 0 n (l, h, w) = Inr (False, l, h, log (cert @ r) w)"
proof -
  have n1: "\<not> n < 1" "unat (n - 1) = 4 + length cert + length r" "\<not> n - 1 < 4"
    "unat (n - 1 - 4) = length cert + length r"
    using n by (auto simp: word_less_nat_alt word_le_nat_alt unat_sub)
  have rd: "buf_read 0 (l4_buf l) = Inr 0x1f"
    using buf_read_at [OF ok, of "[]"] c by simp
  have bs: "buf_bytes 1 4 (l4_buf l) = Inr (be32 (length cert))"
    using c by (intro buf_bytes_at [OF ok, of "[0x1f]" _ "cert @ r @ rest"]) simp_all
  have le: "\<not> n - 1 - 4 < ntohl (be32 (length cert) ! 0) (be32 (length cert) ! Suc 0)
      (be32 (length cert) ! 2) (be32 (length cert) ! 3)"
    using ntohl_be32 [OF len] n1(4) by (simp add: word_less_nat_alt)
  from n1 rd bs le obs c show ?thesis
    by (simp add: ssh_get_certificate_def Let_def ssh_observes_def)
qed

lemma banner_accepted:
  assumes "buf_ok (l4_buf l)" and "buf_contents (l4_buf l) = banner @ rest"
    and "take 7 banner = bytes_of ''SSH-2.0''" and "length banner < 2 ^ 30"
  shows "ssh_banner K U cc ci ct 0 (of_nat (length banner)) (l, h, w) =
    Inr (True, set_trigger (Size_Data_Trigger (Some (Ssh_Answer (Some (Ssh_Key_Exchange cc ci)))) 5) l, h,
         snd (ct_send K ct client_dh (snd (ct_send K ct client_key_exchange w))))"
proof -
  have b: "banner = bytes_of ''SSH-2.0'' @ drop 7 banner" using assms(3) by (metis append_take_drop_id)
  then have len: "7 \<le> length banner" by (metis le_add1 length_append length_ssh_20(1))
  have "buf_memeq 0 (bytes_of ''SSH-2.0'') (l4_buf l)
      = Inr (take 7 (buf_contents (l4_buf l)) = bytes_of ''SSH-2.0'')"
    using memeq_contents [OF assms(1), of 0 "bytes_of ''SSH-2.0''"] length_buf_contents [OF assms(1)] assms(2) len
    by simp
  moreover have "take 7 (buf_contents (l4_buf l)) = bytes_of ''SSH-2.0''" using assms(2,3) len by simp
  moreover have "\<not> (of_nat (length banner) :: u32) < 7"
    using len unat_of_nat_u32 [of "length banner"] assms(4) by (simp add: word_less_nat_alt)
  ultimately show ?thesis by (simp add: ssh_banner_def Let_def)
qed

text \<open>
  C13. A complete exchange with a server whose packets have six bytes of padding: after the banner
  the two recorded packets are sent, the server's key exchange packet is skipped, and the
  certificate callback is given the host key, followed by everything else in the reply packet.
\<close>

theorem ssh_exchange:
  assumes obs: "ssh_observes U log"
    and t: "l4_trigger l = Char_Data_Trigger (Some (Ssh_Banner (Some u) ci)) 10" and ok: "buf_ok (l4_buf l)"
    and c: "buf_contents (l4_buf l) = banner @ 10 # ssh_packet kex pad1
      @ ssh_packet (0x1f # be32 (length cert) @ cert @ sig) pad2 @ rest"
    and banner: "take 7 banner = bytes_of ''SSH-2.0''" "10 \<notin> set banner"
    and pads: "length pad1 = 6" "length pad2 = 6"
  shows "\<exists>l'. process_buffer 5 (ssh_actions K U) ct (l, h, w) = Inr (False, l', h,
    log (cert @ sig @ pad2) (snd (ct_send K ct client_dh (snd (ct_send K ct client_key_exchange w)))))"
proof -
  let ?A = "ssh_actions K U" and ?reply = "0x1f # be32 (length cert) @ cert @ sig"
    and ?kx = "Ssh_Key_Exchange (Some u) ci" and ?gc = "Ssh_Get_Certificate (Some u) ci"
  let ?w = "snd (ct_send K ct client_dh (snd (ct_send K ct client_key_exchange w)))"
  have small: "length banner < 2 ^ 30" "length kex + 13 < 2 ^ 32" "length ?reply + 13 < 2 ^ 32"
    using c length_buf_contents [OF ok] buf_ok_pos_less [OF ok] by (simp_all add: ssh_packet_def)
  let ?l1 = "set_trigger (Size_Data_Trigger (Some (Ssh_Answer (Some ?kx))) 5) l"
  have "act_data ?A (Ssh_Banner (Some u) ci) ct 0 (of_nat (length banner)) (l, h, w) = Inr (True, ?l1, h, ?w)"
    using banner_accepted [OF ok c banner(1)] small(1) by (simp add: ssh_actions_def)
  from char_round [OF t ok c banner(2) refl this] obtain b1 where r1: "buf_ok b1"
    "buf_contents b1 = ssh_packet kex pad1 @ ssh_packet ?reply pad2 @ rest"
    "\<And>fuel. process_loop (Suc fuel) ?A ct 0 (l, h, w) = process_loop fuel ?A ct 0 (?l1\<lparr>l4_buf := b1\<rparr>, h, ?w)"
    by (auto simp: set_trigger_def)
  obtain b2 n2 where r2: "buf_ok b2" "buf_contents b2 = (kex @ pad1) @ ssh_packet ?reply pad2 @ rest"
    "unat n2 = length kex + 6"
    "\<And>fuel. process_loop (Suc fuel) ?A ct 0 (?l1\<lparr>l4_buf := b1\<rparr>, h, ?w) = process_loop fuel ?A ct 0
       ((set_trigger (Size_Data_Trigger (Some (Ssh_Forward ?kx)) n2) ?l1)\<lparr>l4_buf := b2\<rparr>, h, ?w)"
    using answer_round [of "?l1\<lparr>l4_buf := b1\<rparr>" ?kx kex pad1 _ K U ct h ?w] r1 pads(1) small(2)
    by (auto simp: set_trigger_def)
  let ?l2 = "(set_trigger (Size_Data_Trigger (Some (Ssh_Forward ?kx)) n2) ?l1)\<lparr>l4_buf := b2\<rparr>"
  let ?l3 = "set_trigger (Size_Data_Trigger (Some (Ssh_Answer (Some ?gc))) 5) ?l2"
  have "act_data ?A (Ssh_Forward ?kx) ct 0 n2 (?l2, h, ?w) = Inr (True, ?l3, h, ?w)"
    by (simp add: ssh_actions_def ssh_key_exchange_def)
  from size_round [OF _ _ _ _ this, of "kex @ pad1" "ssh_packet ?reply pad2 @ rest" 0] r2(1-3) pads(1) obtain b3 where r3: "buf_ok b3"
    "buf_contents b3 = ssh_packet ?reply pad2 @ rest"
    "\<And>fuel. process_loop (Suc fuel) ?A ct 0 (?l2, h, ?w) = process_loop fuel ?A ct 0 (?l3\<lparr>l4_buf := b3\<rparr>, h, ?w)"
    by (auto simp: set_trigger_def)
  obtain b4 n4 where r4: "buf_ok b4" "buf_contents b4 = (0x1f # be32 (length cert) @ cert @ sig @ pad2) @ rest"
    "unat n4 = length ?reply + 6"
    "\<And>fuel. process_loop (Suc fuel) ?A ct 0 (?l3\<lparr>l4_buf := b3\<rparr>, h, ?w) = process_loop fuel ?A ct 0
       ((set_trigger (Size_Data_Trigger (Some (Ssh_Forward ?gc)) n4) ?l3)\<lparr>l4_buf := b4\<rparr>, h, ?w)"
    using answer_round [of "?l3\<lparr>l4_buf := b3\<rparr>" ?gc ?reply pad2 _ K U ct h ?w] r3 pads(2) small(3)
    by (auto simp: set_trigger_def)
  let ?l4 = "(set_trigger (Size_Data_Trigger (Some (Ssh_Forward ?gc)) n4) ?l3)\<lparr>l4_buf := b4\<rparr>"
  have "act_data ?A (Ssh_Forward ?gc) ct 0 n4 (?l4, h, ?w) = Inr (False, ?l4, h, log (cert @ sig @ pad2) ?w)"
    using get_certificate_reply [of ?l4 cert "sig @ pad2" rest n4 U log u ci ct h ?w] r4 pads(2) small(3) obs
    by (simp add: ssh_actions_def)
  from size_end [OF _ _ _ _ this, of "0x1f # be32 (length cert) @ cert @ sig @ pad2" rest "0" "0"] r4 pads(2)
  have "process_loop (Suc 0) ?A ct 0 (?l4, h, ?w) = Inr (False, ?l4, h, log (cert @ sig @ pad2) ?w)"
    by (simp add: set_trigger_def)
  with r1(3) r2(4) r3(3) r4(4) show ?thesis
    by (auto simp: process_buffer_def numeral_eq_Suc simp del: process_loop.simps)
qed

lemma ssh_print_observes: "ssh_observes ssh_print (\<lambda>bs w. (fst w, snd w @ bs))"
  by (simp add: ssh_observes_def ssh_print_def split_def)

theorem ssh_exchange_witness:
  "\<exists>l'. process_buffer 5 (ssh_actions sending_os ssh_print) (Connected_Target 3 (Target 1 (Port 22 0)))
      (logger_conn (Char_Data_Trigger (Some (Ssh_Banner (Some ()) None)) 10)
         (bytes_of ''SSH-2.0'' @ [10, 0, 0, 0, 8, 6, 20, 0, 0, 0, 0, 0, 0]
           @ [0, 0, 0, 15, 6, 0x1f, 0, 0, 0, 2, 65, 66, 67, 0, 0, 0, 0, 0, 0]),
       host_sm_new unit_ports 0, ([], []))
    = Inr (False, l', host_sm_new unit_ports 0,
        (client_key_exchange @ client_dh, [65, 66, 67, 0, 0, 0, 0, 0, 0]))"
proof -
  let ?l = "logger_conn (Char_Data_Trigger (Some (Ssh_Banner (Some ()) None)) 10)
         (bytes_of ''SSH-2.0'' @ [10, 0, 0, 0, 8, 6, 20, 0, 0, 0, 0, 0, 0]
           @ [0, 0, 0, 15, 6, 0x1f, 0, 0, 0, 2, 65, 66, 67, 0, 0, 0, 0, 0, 0])"
  have "buf_ok (l4_buf ?l)" "l4_trigger ?l = Char_Data_Trigger (Some (Ssh_Banner (Some ()) None)) 10"
    by (simp_all add: logger_conn_simps bytes_of_def)
  moreover have "buf_contents (l4_buf ?l) = bytes_of ''SSH-2.0'' @ 10 # ssh_packet [20] [0, 0, 0, 0, 0, 0]
      @ ssh_packet (0x1f # be32 (length [65, 66 :: u8]) @ [65, 66] @ [67]) [0, 0, 0, 0, 0, 0] @ []"
    by (simp add: logger_conn_simps bytes_of_def ssh_packet_def be32_def htonl_def)
  ultimately show ?thesis
    using ssh_exchange [OF ssh_print_observes, of ?l "()" None "bytes_of ''SSH-2.0''" "[20]" "[0, 0, 0, 0, 0, 0]"
        "[65, 66]" "[67]" "[0, 0, 0, 0, 0, 0]" "[]" sending_os "Connected_Target 3 (Target 1 (Port 22 0))"
        "host_sm_new unit_ports 0" "([], [])"]
    by (simp add: ct_send_def sending_os_def bytes_of_def)
qed

end
