(* ===== verification/Target_File.thy ===== *)
theory Target_File
  imports Protocol_Base Target_Set
begin

text \<open>
  Targets read from a file descriptor (\<open>target_file.h\<close>, \<open>target_file.cpp\<close>), one address per line,
  and the per-target storage of user data (\<open>lvl4_properties_storage.h\<close>). The address parser of
  \<open>leeloo\<close> is the argument \<open>ipv4toi\<close>. \<open>next_target\<close> throws \<open>NextTargetWouldBlock\<close> when there is
  no complete line yet: the target is then \<open>None\<close>.
\<close>

section \<open>TargetAsyncFile\<close>

record target_file =
  tf_buf :: lvl4_buffer
  tf_fd :: int
  tf_def_port :: port

definition target_file_new :: "int \<Rightarrow> port \<Rightarrow> target_file" where
  "target_file_new fd p = \<lparr>tf_buf = buf_new, tf_fd = fd, tf_def_port = p\<rparr>"

text \<open>\<open>TargetStdin\<close> reads the descriptor 0.\<close>

definition target_stdin_new :: "port \<Rightarrow> target_file" where
  "target_stdin_new p = target_file_new 0 p"

text \<open>
  The system calls that the engine does not make: \<open>select\<close> on the standard input, \<open>FIONREAD\<close> with its
  failure, and reading and setting the flags of a descriptor with \<open>fcntl\<close>, whose results are used
  unchecked.
\<close>

record 'w file_os =
  fo_select_stdin :: "'w \<Rightarrow> int \<times> 'w"
  fo_fionread :: "int \<Rightarrow> 'w \<Rightarrow> int option \<times> 'w"
  fo_getfl :: "int \<Rightarrow> 'w \<Rightarrow> int \<times> 'w"
  fo_setfl :: "int \<Rightarrow> int \<Rightarrow> 'w \<Rightarrow> 'w"

definition O_NONBLOCK :: int where "O_NONBLOCK = 2048"

definition file_init :: "'w file_os \<Rightarrow> target_file \<Rightarrow> 'w \<Rightarrow> 'w" where
  "file_init F f w =
     (case fo_getfl F (tf_fd f) w of (flags, w1) \<Rightarrow> fo_setfl F (tf_fd f) (flags OR O_NONBLOCK) w1)"

definition file_init_shrd :: "u32 \<Rightarrow> u32 \<Rightarrow> target_file \<Rightarrow> target_file" where
  "file_init_shrd shrd_idx shrd_count f = f"

text \<open>A file keeps no state: the four members that save and restore do nothing.\<close>

definition file_save_state :: "target_file \<Rightarrow> 's \<Rightarrow> 's" where
  "file_save_state f os = os"

definition file_restore_state :: "'s \<Rightarrow> target_file \<Rightarrow> target_file" where
  "file_restore_state is f = f"

definition next_target_in_buf ::
  "u16 \<Rightarrow> (u8 list \<Rightarrow> u32 option) \<Rightarrow> target_file \<Rightarrow> (target \<times> target_file) res"
where
  "next_target_in_buf unsupported ipv4toi f =
     bind_res (buf_memchr 0 10 (unat (buf_pos (tf_buf f))) (tf_buf f)) (\<lambda>newline.
       case newline of
         None \<Rightarrow> Inr (target_end unsupported, f)
       | Some n \<Rightarrow>
           bind_res (buf_bytes 0 n (tf_buf f)) (\<lambda>line.
           bind_res (buf_pop_by (of_nat (n + 1)) (tf_buf f)) (\<lambda>b.
             let f1 = f\<lparr>tf_buf := b\<rparr>
             in case ipv4toi line of
                  None \<Rightarrow> Inr (target_end unsupported, f1)
                | Some ip \<Rightarrow> Inr (Target ip (tf_def_port f1), f1))))"

definition file_read_more ::
  "u16 \<Rightarrow> (u8 list \<Rightarrow> u32 option) \<Rightarrow> 'w os \<Rightarrow> 'w file_os \<Rightarrow> target_file \<Rightarrow> 'w
     \<Rightarrow> (target option \<times> target_file \<times> 'w) res"
where
  "file_read_more unsupported ipv4toi K F f w =
     (let e = target_end unsupported; (sel, w1) = fo_select_stdin F w in
      if sel = -1 then Inr (Some e, f, w1)
      else if sel = 0 then Inr (None, f, w1)
      else let (navail, w2) = fo_fionread F (tf_fd f) w1 in
        case navail of
          None \<Rightarrow> Inr (Some e, f, w2)
        | Some n \<Rightarrow>
            if n = 0 then Inr (Some e, f, w2)
            else let (p, b1) = buf_grow_by (os_junk K w2) (of_int n) (tf_buf f);
                     (nread, w3) = os_read K (tf_fd f) (of_int n) w2;
                     f1 = f\<lparr>tf_buf := b1\<rparr>
                 in case nread of
                      None \<Rightarrow> Inr (Some e, f1, w3)
                    | Some bytes \<Rightarrow>
                        if bytes = [] then Inr (Some e, f1, w3)
                        else bind_res (buf_write p bytes b1) (\<lambda>b2.
                          bind_res (next_target_in_buf unsupported ipv4toi (f1\<lparr>tf_buf := b2\<rparr>)) (\<lambda>(ret, f2).
                            if target_eq ret e then Inr (None, f2, w3) else Inr (Some ret, f2, w3))))"

definition file_next_target ::
  "u16 \<Rightarrow> (u8 list \<Rightarrow> u32 option) \<Rightarrow> 'w os \<Rightarrow> 'w file_os \<Rightarrow> target_file \<Rightarrow> 'w
     \<Rightarrow> (target option \<times> target_file \<times> 'w) res"
where
  "file_next_target unsupported ipv4toi K F f w =
     (if unat (buf_pos (tf_buf f)) > 0
      then bind_res (next_target_in_buf unsupported ipv4toi f) (\<lambda>(ret, f1).
             if target_neq ret (target_end unsupported) then Inr (Some ret, f1, w)
             else file_read_more unsupported ipv4toi K F f1 w)
      else file_read_more unsupported ipv4toi K F f w)"

definition file_target_finished :: "target \<Rightarrow> ('f, 'pl) host_sm \<Rightarrow> bool \<times> ('f, 'pl) host_sm" where
  "file_target_finished t h = (True, h)"

text \<open>
  After \<open>init\<close> the descriptor is non-blocking and its other flags are as before, if setting flags is
  what reading them sees.
\<close>

lemma file_init_flags:
  assumes "fo_getfl F (tf_fd f) w = (flags, w1)" and "\<And>v. fst (fo_getfl F (tf_fd f) (fo_setfl F (tf_fd f) v w1)) = v"
  shows "bit (fst (fo_getfl F (tf_fd f) (file_init F f w))) n \<longleftrightarrow> n = 11 \<or> bit flags n"
proof -
  have "(2048 :: int) = 2 ^ 11" by simp
  then have "bit (2048 :: int) n \<longleftrightarrow> n = 11" by (simp only: bit_exp_iff) simp
  with assms show ?thesis by (auto simp: file_init_def O_NONBLOCK_def bit_or_iff)
qed

section \<open>Lines\<close>

lemma in_buf_line:
  assumes ok: "buf_ok (tf_buf f)" and c: "buf_contents (tf_buf f) = line @ 10 # rest" and nl: "10 \<notin> set line"
  shows "\<exists>b. buf_ok b \<and> buf_contents b = rest
    \<and> next_target_in_buf u ipv4toi f =
        Inr (case ipv4toi line of None \<Rightarrow> target_end u | Some ip \<Rightarrow> Target ip (tf_def_port f), f\<lparr>tf_buf := b\<rparr>)"
proof -
  have pos: "unat (buf_pos (tf_buf f)) = length line + 1 + length rest"
    using length_buf_contents [OF ok] c by simp
  have mc: "buf_memchr 0 10 (unat (buf_pos (tf_buf f))) (tf_buf f) = Inr (Some (length line))"
    using memchr_contents [OF ok, of 0 "unat (buf_pos (tf_buf f))" 10] pos c nl by (simp add: find_byte_append)
  have line: "buf_bytes 0 (length line) (tf_buf f) = Inr line"
    using buf_bytes_at [OF ok, of "[]" line "10 # rest"] c by simp
  have u: "unat (of_nat (length line + 1) :: u32) = length line + 1"
    using pos buf_ok_pos_less [OF ok] by (intro unat_of_nat_u32) simp
  then have "of_nat (length line + 1) \<le> buf_pos (tf_buf f)" using pos by (simp add: word_le_nat_alt del: of_nat_add)
  from buf_pop_by_spec [OF ok this] obtain b where
    "buf_pop_by (of_nat (length line + 1)) (tf_buf f) = Inr b" "buf_ok b" "buf_contents b = rest"
    using u c by auto
  with mc line show ?thesis
    by (intro exI [of _ b]) (simp add: next_target_in_buf_def del: of_nat_add split: option.split)
qed

text \<open>The source's calls, repeated: the targets of \<open>n\<close> successful calls.\<close>

fun file_take ::
  "u16 \<Rightarrow> (u8 list \<Rightarrow> u32 option) \<Rightarrow> 'w os \<Rightarrow> 'w file_os \<Rightarrow> nat \<Rightarrow> target_file \<Rightarrow> 'w
     \<Rightarrow> (target option list \<times> target_file \<times> 'w) res"
where
  "file_take u p K F 0 f w = Inr ([], f, w)"
| "file_take u p K F (Suc n) f w =
     bind_res (file_next_target u p K F f w) (\<lambda>(t, f1, w1).
     bind_res (file_take u p K F n f1 w1) (\<lambda>(ts, f2, w2). Inr (t # ts, f2, w2)))"

lemma file_next_line:
  assumes "buf_ok (tf_buf f)" and "buf_contents (tf_buf f) = line @ 10 # rest" and "10 \<notin> set line"
    and "p line = Some ip" and "ip \<noteq> 0xFFFFFFFF"
  shows "\<exists>b. buf_ok b \<and> buf_contents b = rest
    \<and> file_next_target u p K F f w = Inr (Some (Target ip (tf_def_port f)), f\<lparr>tf_buf := b\<rparr>, w)"
proof -
  have "0 < unat (buf_pos (tf_buf f))" using length_buf_contents [OF assms(1)] assms(2) by simp
  with in_buf_line [OF assms(1-3), of u p] assms(4,5) show ?thesis
    by (auto simp: file_next_target_def target_neq_def target_end_def)
qed


definition line_file :: "u8 list \<Rightarrow> target_file" where
  "line_file xs = \<lparr>tf_buf = l4_buf (logger_conn (Data_Trigger :: unit trigger) xs), tf_fd = 0, tf_def_port = Port 80 0\<rparr>"

definition no_file_os :: "'w file_os" where
  "no_file_os = \<lparr>fo_select_stdin = (\<lambda>w. (1, w)), fo_fionread = (\<lambda>_ w. (Some 0, w)), fo_getfl = (\<lambda>_ w. (0, w)),
     fo_setfl = (\<lambda>_ _ w. w)\<rparr>"

definition digit_parser :: "u8 list \<Rightarrow> u32 option" where
  "digit_parser xs = (case xs of [d] \<Rightarrow> if 48 \<le> d \<and> d \<le> 57 then Some (ucast (d - 48)) else None | _ \<Rightarrow> None)"


text \<open>
  A line that is not an address makes \<open>next_target\<close> look for more input although further lines
  are in the buffer; at the end of the file it then reports the end of the targets with the valid
  lines behind the bad one still unread.
\<close>

theorem file_bad_line_hides_rest:
  assumes "buf_ok (tf_buf f)" and "buf_contents (tf_buf f) = line @ 10 # rest" and "10 \<notin> set line"
    and "p line = None" and "fo_select_stdin F w = (1, w1)" and "fo_fionread F (tf_fd f) w1 = (Some 0, w2)"
  shows "\<exists>b. buf_contents b = rest \<and>
    file_next_target u p K F f w = Inr (Some (target_end u), f\<lparr>tf_buf := b\<rparr>, w2)"
proof -
  have "0 < unat (buf_pos (tf_buf f))" using length_buf_contents [OF assms(1)] assms(2) by simp
  with in_buf_line [OF assms(1-3), of u p] assms(4-6) show ?thesis
    by (auto simp: file_next_target_def file_read_more_def target_neq_def Let_def)
qed

theorem file_bad_line_hides_rest_witness:
  "\<exists>b. buf_contents b = [50, 10] \<and>
    file_next_target 0 digit_parser (no_os :: unit os) no_file_os (line_file [65, 10, 50, 10]) () =
      Inr (Some (target_end 0), (line_file [65, 10, 50, 10])\<lparr>tf_buf := b\<rparr>, ())"
  using file_bad_line_hides_rest [of "line_file [65, 10, 50, 10]" "[65]" "[50, 10]" digit_parser no_file_os
      "()" "()" "()" 0 no_os]
  by (simp add: line_file_def logger_conn_simps digit_parser_def no_file_os_def)

section \<open>Lvl4PropertiesStorage\<close>

text \<open>
  A map from targets to user data, ordered by \<open>operator<\<close>; \<open>mk\<close> makes the data of a new target.
  \<open>properties_of\<close> returns a reference: the model returns the data and the storage, and a write
  through the reference is \<open>storage_write\<close>.
\<close>

type_synonym 'd storage = "(u32 \<times> u32, 'd) smap"

definition storage_new :: "'d storage" where
  "storage_new = []"

definition properties_of :: "(port \<Rightarrow> u32) \<Rightarrow> (unit \<Rightarrow> 'd) \<Rightarrow> target \<Rightarrow> 'd storage \<Rightarrow> 'd \<times> 'd storage" where
  "properties_of as_u32 mk t m =
     (case smap_find m (target_key as_u32 t) of
        Some d \<Rightarrow> (d, m)
      | None \<Rightarrow> (mk (), smap_insert (target_key as_u32 t) (mk ()) m))"

definition storage_write :: "(port \<Rightarrow> u32) \<Rightarrow> target \<Rightarrow> 'd \<Rightarrow> 'd storage \<Rightarrow> 'd storage" where
  "storage_write as_u32 t d m = smap_put (target_key as_u32 t) d m"

definition storage_remove :: "(port \<Rightarrow> u32) \<Rightarrow> target \<Rightarrow> 'd storage \<Rightarrow> 'd storage" where
  "storage_remove as_u32 t m =
     (case smap_find m (target_key as_u32 t) of None \<Rightarrow> m | Some _ \<Rightarrow> smap_erase (target_key as_u32 t) m)"

text \<open>
  The storage keeps one value per target: a read after a write gives the value written, other
  targets are not affected, a removed or new target gets a freshly made value, and reading twice
  gives the same value.
\<close>

theorem storage_laws:
  assumes "smap_ok m" and "inj as_u32"
  shows "fst (properties_of as_u32 mk t (storage_write as_u32 t d m)) = d
    \<and> (t' \<noteq> t \<longrightarrow> fst (properties_of as_u32 mk t' (storage_write as_u32 t d m)) = fst (properties_of as_u32 mk t' m))
    \<and> fst (properties_of as_u32 mk t (storage_remove as_u32 t m)) = mk ()
    \<and> (t' \<noteq> t \<longrightarrow> fst (properties_of as_u32 mk t' (storage_remove as_u32 t m)) = fst (properties_of as_u32 mk t' m))
    \<and> fst (properties_of as_u32 mk t (snd (properties_of as_u32 mk t m))) = fst (properties_of as_u32 mk t m)
    \<and> smap_ok (snd (properties_of as_u32 mk t m)) \<and> smap_ok (storage_write as_u32 t d m)
    \<and> smap_ok (storage_remove as_u32 t m)"
proof -
  have "t' \<noteq> t \<Longrightarrow> target_key as_u32 t' \<noteq> target_key as_u32 t" using target_key_inj [OF assms(2)] by metis
  with assms(1) show ?thesis
    by (auto simp: properties_of_def storage_write_def storage_remove_def smap_simps split: option.split)
qed

theorem storage_laws_witness:
  "fst (properties_of port_pack (\<lambda>_. 0 :: nat) (Target 1 (Port 80 0)) (storage_write port_pack (Target 1 (Port 80 0)) 5 [])) = 5"
  using storage_laws [of "[] :: nat storage" port_pack "\<lambda>_. 0" "Target 1 (Port 80 0)" 5] port_pack_inj by simp

end
