(* ===== verification/Python_Bindings.thy ===== *)
theory Python_Bindings
  imports SIP SSL SSH Target_File Scripted_Net
begin

text \<open>
  The Python bindings (\<open>bindings/python/pynodescan.cpp\<close>) and the trigger they serve
  (\<open>PythonDataTrigger::process_buffer\<close> of \<open>data_triggers.cpp\<close>). Every wrapper stores a lambda that
  holds a Python object \<open>f\<close>; the lambdas are the constructors of \<open>py_fn\<close>, and running one is a
  definition below. The interpreter and the converters of \<open>boost::python\<close> are not part of the
  repository: they are the record \<open>python\<close>, a parameter. A Python exception, raised by the called
  object or by a conversion, leaves the C++ code as \<open>error_already_set\<close>; nothing in the library
  catches it. \<open>Python_Module\<close> has the module definition.
\<close>

section \<open>The interpreter\<close>

text \<open>
  An argument of a Python call. \<open>Arg_Lvl4SM\<close>, \<open>Arg_HostSM\<close> and \<open>Arg_Lvl4Buffer\<close> are the references
  made by \<open>boost::ref\<close> to the state the call is given; \<open>Arg_HostSM_value\<close> is the same object passed by
  value.
\<close>

datatype py_arg =
    Arg_ConnectedTarget connected_target
  | Arg_Target target
  | Arg_Lvl4SM
  | Arg_HostSM
  | Arg_HostSM_value
  | Arg_Lvl4Buffer
  | Arg_Memory "u8 list"
  | Arg_Str "u8 list"
  | Arg_Int int

text \<open>
  \<open>py_call\<close> calls an object with access to a connection, \<open>py_plain_call\<close> with access to the world only;
  the result \<open>None\<close> is a raised exception. \<open>py_converts\<close> says whether an argument has a converter to
  Python, \<open>py_attr\<close> looks up an attribute, and \<open>py_bool\<close>, \<open>py_u32\<close>, \<open>py_code\<close> and \<open>py_target\<close> are
  \<open>extract\<close>.
\<close>

record ('o, 'f, 'pl, 'w) python =
  py_call :: "'o \<Rightarrow> py_arg list \<Rightarrow> ('f, 'pl, 'w) conn \<Rightarrow> 'o option \<times> ('f, 'pl, 'w) conn"
  py_plain_call :: "'o \<Rightarrow> py_arg list \<Rightarrow> 'w \<Rightarrow> 'o option \<times> 'w"
  py_converts :: "py_arg \<Rightarrow> bool"
  py_attr :: "'o \<Rightarrow> string \<Rightarrow> 'o option"
  py_bool :: "'o \<Rightarrow> bool option"
  py_u32 :: "'o \<Rightarrow> u32 option"
  py_code :: "'o \<Rightarrow> process_code option"
  py_target :: "'o \<Rightarrow> target option"

definition raised :: "'o option \<times> 's \<Rightarrow> ('o \<times> 's) res" where
  "raised r = (case r of (None, s) \<Rightarrow> Inl Python_exception | (Some v, s) \<Rightarrow> Inr (v, s))"

definition py_extract :: "('o \<Rightarrow> 'a option) \<Rightarrow> ('o \<times> 's) res \<Rightarrow> ('a \<times> 's) res" where
  "py_extract ex r =
     bind_res r (\<lambda>(v, s). case ex v of None \<Rightarrow> Inl Python_exception | Some x \<Rightarrow> Inr (x, s))"

definition call_object ::
  "('o, 'f, 'pl, 'w) python \<Rightarrow> 'o \<Rightarrow> py_arg list \<Rightarrow> ('f, 'pl, 'w) conn \<Rightarrow> ('o \<times> ('f, 'pl, 'w) conn) res" where
  "call_object P f args c =
     (if list_all (py_converts P) args then raised (py_call P f args c) else Inl Python_exception)"

definition call_plain ::
  "('o, 'f, 'pl, 'w) python \<Rightarrow> 'o \<Rightarrow> py_arg list \<Rightarrow> 'w \<Rightarrow> ('o \<times> 'w) res" where
  "call_plain P f args w =
     (if list_all (py_converts P) args then raised (py_plain_call P f args w) else Inl Python_exception)"

section \<open>Running the wrapped callbacks\<close>

text \<open>
  A view of memory: a null pointer becomes the empty view. The view is filled with the bytes it
  shows at the time of the call; one that leaves the block is a fault.
\<close>

definition object_from_ro_mem :: "nat \<Rightarrow> nat \<Rightarrow> lvl4_buffer \<Rightarrow> py_arg res" where
  "object_from_ro_mem off n b =
     (case buf_mem b of
        None \<Rightarrow> Inr (Arg_Memory [])
      | Some _ \<Rightarrow> bind_res (buf_bytes off n b) (\<lambda>bs. Inr (Arg_Memory bs)))"

definition py_connect_callback ::
  "('o, 'f, 'pl, 'w) python \<Rightarrow> 'o \<Rightarrow> connected_target \<Rightarrow> ('f, 'pl, 'w) conn
     \<Rightarrow> (bool \<times> ('f, 'pl, 'w) conn) res" where
  "py_connect_callback P f ct c =
     py_extract (py_bool P) (call_object P f [Arg_ConnectedTarget ct, Arg_Lvl4SM, Arg_HostSM] c)"

definition py_data_callback ::
  "('o, 'f, 'pl, 'w) python \<Rightarrow> 'o \<Rightarrow> connected_target \<Rightarrow> nat \<Rightarrow> u32 \<Rightarrow> ('f, 'pl, 'w) conn
     \<Rightarrow> (bool \<times> ('f, 'pl, 'w) conn) res" where
  "py_data_callback P f ct off n c =
     bind_res (object_from_ro_mem off (unat n) (l4_buf (fst c))) (\<lambda>mem.
       py_extract (py_bool P) (call_object P f [Arg_ConnectedTarget ct, Arg_Lvl4SM, Arg_HostSM, mem] c))"

definition py_cipher_callback ::
  "('o, 'f, 'pl, 'w) python \<Rightarrow> 'o \<Rightarrow> connected_target \<Rightarrow> u16 \<Rightarrow> ('f, 'pl, 'w) conn
     \<Rightarrow> (bool \<times> ('f, 'pl, 'w) conn) res" where
  "py_cipher_callback P f ct cipher c =
     py_extract (py_bool P)
       (call_object P f [Arg_ConnectedTarget ct, Arg_Lvl4SM, Arg_HostSM, Arg_Int (uint cipher)] c)"

definition py_header_callback ::
  "('o, 'f, 'pl, 'w) python \<Rightarrow> 'o \<Rightarrow> connected_target \<Rightarrow> u8 list \<Rightarrow> u8 list \<Rightarrow> ('f, 'pl, 'w) conn
     \<Rightarrow> (bool \<times> ('f, 'pl, 'w) conn) res" where
  "py_header_callback P f ct key val c =
     py_extract (py_bool P)
       (call_object P f [Arg_ConnectedTarget ct, Arg_Lvl4SM, Arg_HostSM, Arg_Str key, Arg_Str val] c)"

definition py_process_buffer ::
  "('o, 'f, 'pl, 'w) python \<Rightarrow> 'o \<Rightarrow> connected_target \<Rightarrow> u32 \<Rightarrow> ('f, 'pl, 'w) conn
     \<Rightarrow> (process_code \<times> ('f, 'pl, 'w) conn) res" where
  "py_process_buffer P obj ct prev_pos c =
     (case py_attr P obj ''process_buffer'' of
        None \<Rightarrow> Inl Python_exception
      | Some g \<Rightarrow> py_extract (py_code P)
          (call_object P g [Arg_ConnectedTarget ct, Arg_Lvl4SM, Arg_HostSM, Arg_Lvl4Buffer, Arg_Int (uint prev_pos)] c))"

definition py_finish_callback ::
  "('o, 'f, 'pl, 'w) python \<Rightarrow> 'o \<Rightarrow> target \<Rightarrow> lvl4_buffer \<Rightarrow> int \<Rightarrow> 'w \<Rightarrow> (bool \<times> 'w) res" where
  "py_finish_callback P f t buf code w =
     bind_res (object_from_ro_mem 0 (unat (buf_pos buf)) buf) (\<lambda>mem.
       py_extract (py_bool P) (call_plain P f [Arg_Target t, mem, Arg_Int code] w))"

definition py_status_callback :: "('o, 'f, 'pl, 'w) python \<Rightarrow> 'o \<Rightarrow> u32 \<Rightarrow> u32 \<Rightarrow> 'w \<Rightarrow> 'w res" where
  "py_status_callback P f launched fin w =
     bind_res (call_plain P f [Arg_Int (uint launched), Arg_Int (uint fin)] w) (\<lambda>(v, w'). Inr w')"

definition py_watch_callback :: "('o, 'f, 'pl, 'w) python \<Rightarrow> 'o \<Rightarrow> connected_target \<Rightarrow> 'w \<Rightarrow> (bool \<times> 'w) res" where
  "py_watch_callback P f ct w = py_extract (py_bool P) (call_plain P f [Arg_ConnectedTarget ct] w)"

definition py_timeout_callback :: "('o, 'f, 'pl, 'w) python \<Rightarrow> 'o \<Rightarrow> target \<Rightarrow> 'w \<Rightarrow> (u32 \<times> 'w) res" where
  "py_timeout_callback P f t w = py_extract (py_u32 P) (call_plain P f [Arg_Target t] w)"

section \<open>Registering callbacks\<close>

datatype 'o py_fn =
    Py_Connected 'o
  | Py_Data 'o
  | Py_Trigger 'o
  | Py_Finish 'o
  | Py_Status 'o
  | Py_Watch 'o
  | Py_Timeout 'o

definition py_actions :: "('o, 'o py_fn, 'pl, 'w) python \<Rightarrow> ('o py_fn, 'pl, 'w) actions" where
  "py_actions P =
     \<lparr>act_data = (\<lambda>f ct off n c. case f of Py_Data g \<Rightarrow> py_data_callback P g ct off n c | _ \<Rightarrow> Inl Bad_function_call),
      act_connect = (\<lambda>f ct c. case f of Py_Connected g \<Rightarrow> py_connect_callback P g ct c | _ \<Rightarrow> Inl Bad_function_call),
      act_python = (\<lambda>f ct p c. case f of Py_Trigger g \<Rightarrow> py_process_buffer P g ct p c | _ \<Rightarrow> Inl Bad_function_call)\<rparr>"

text \<open>
  The environment of an engine whose callbacks were registered from Python: each of them runs its
  wrapper, and what the wrapper throws leaves the engine.
\<close>

definition py_callbacks ::
  "('o, 'o py_fn, 'pl, 'w) python \<Rightarrow> ('o py_fn, 'pl, 'w) env \<Rightarrow> ('o py_fn, 'pl, 'w) env" where
  "py_callbacks P E =
     E\<lparr>actions_of := py_actions P,
       call_finish := (\<lambda>f t b err w. case f of
           Py_Finish g \<Rightarrow> bind_res (py_finish_callback P g t b err w) (\<lambda>(_, w'). Inr w')
         | _ \<Rightarrow> Inl Bad_function_call),
       call_status := (\<lambda>f nl nd w. case f of Py_Status g \<Rightarrow> py_status_callback P g nl nd w | _ \<Rightarrow> Inl Bad_function_call),
       call_watch_timeout := (\<lambda>f ct w. case f of Py_Watch g \<Rightarrow> py_watch_callback P g ct w | _ \<Rightarrow> Inl Bad_function_call),
       call_timeout_target := (\<lambda>f t w. case f of Py_Timeout g \<Rightarrow> py_timeout_callback P g t w | _ \<Rightarrow> Inl Bad_function_call)\<rparr>"

definition async_engine_set_lvl4_connected_callback ::
  "'o \<Rightarrow> ('o py_fn, 'pl, 'w) engine \<Rightarrow> ('o py_fn, 'pl, 'w) engine" where
  "async_engine_set_lvl4_connected_callback f e = set_lvl4_connected_callback (Some (Py_Connected f)) e"

definition async_engine_set_lvl4_finish_callback ::
  "'o \<Rightarrow> ('o py_fn, 'pl, 'w) engine \<Rightarrow> ('o py_fn, 'pl, 'w) engine" where
  "async_engine_set_lvl4_finish_callback f e = set_lvl4_finish_callback (Some (Py_Finish f)) e"

definition async_engine_set_status_display_callback ::
  "'o \<Rightarrow> u32 \<Rightarrow> ('o py_fn, 'pl, 'w) engine \<Rightarrow> ('o py_fn, 'pl, 'w) engine" where
  "async_engine_set_status_display_callback f t e = set_status_display_callback (Some (Py_Status f)) t e"

definition async_engine_set_watch_timeout ::
  "'o \<Rightarrow> u32 \<Rightarrow> ('o py_fn, 'pl, 'w) engine \<Rightarrow> ('o py_fn, 'pl, 'w) engine" where
  "async_engine_set_watch_timeout f t e = set_watch_timeout (Some (Py_Watch f)) t e"

definition async_engine_set_timeout_of_target ::
  "'o \<Rightarrow> ('o py_fn, 'pl, 'w) engine \<Rightarrow> ('o py_fn, 'pl, 'w) engine" where
  "async_engine_set_timeout_of_target f e = set_timeout_of_target (Some (Py_Timeout f)) e"

text \<open>A string that is not one character long is refused with a \<open>ValueError\<close>.\<close>

definition lvl4sm_set_char_data_trigger ::
  "u8 list \<Rightarrow> 'o \<Rightarrow> 'o py_fn lvl4_sm \<Rightarrow> 'o py_fn lvl4_sm res" where
  "lvl4sm_set_char_data_trigger s f l =
     (if length s \<noteq> 1 then Inl Python_exception
      else Inr (set_trigger (Char_Data_Trigger (Some (Py_Data f)) (hd s)) l))"

text \<open>The size is a \<open>size_t\<close>; the trigger's constructor takes 32 bits.\<close>

definition lvl4sm_set_size_data_trigger :: "u64 \<Rightarrow> 'o \<Rightarrow> 'o py_fn lvl4_sm \<Rightarrow> 'o py_fn lvl4_sm" where
  "lvl4sm_set_size_data_trigger n f l = set_trigger (Size_Data_Trigger (Some (Py_Data f)) (ucast n)) l"

definition lvl4sm_set_on_connect :: "'o \<Rightarrow> 'o py_fn lvl4_sm \<Rightarrow> 'o py_fn lvl4_sm" where
  "lvl4sm_set_on_connect f l = set_on_connect (Some (Py_Connected f)) l"

definition lvl4sm_set_python_data_trigger :: "'o \<Rightarrow> 'o py_fn lvl4_sm \<Rightarrow> 'o py_fn lvl4_sm" where
  "lvl4sm_set_python_data_trigger obj l = set_trigger (Python_Data_Trigger (Py_Trigger obj)) l"

definition connected_target_send :: "'w os \<Rightarrow> connected_target \<Rightarrow> u8 list \<Rightarrow> 'w \<Rightarrow> 'w" where
  "connected_target_send K ct s w = snd (ct_send K ct s w)"

definition lvl4buffer_data :: "lvl4_buffer \<Rightarrow> py_arg res" where
  "lvl4buffer_data b = object_from_ro_mem 0 (unat (buf_pos b)) b"

section \<open>Protocol scanners with Python callbacks\<close>

definition ssl_on_certificate :: "'o \<Rightarrow> 'o ssl \<Rightarrow> 'o ssl" where
  "ssl_on_certificate f S = set_on_certificate (Some f) S"

definition ssl_on_cipher :: "'o \<Rightarrow> 'o ssl \<Rightarrow> 'o ssl" where
  "ssl_on_cipher f S = set_on_cipher (Some f) S"

definition ssl_on_protocol_failure :: "'o \<Rightarrow> 'o ssl \<Rightarrow> 'o ssl" where
  "ssl_on_protocol_failure f S = on_protocol_failure (Some f) S"

definition ssh_on_invalid_answer :: "'o \<Rightarrow> 'o ssh_fn \<Rightarrow> 'o ssh_fn" where
  "ssh_on_invalid_answer f s = on_invalid_answer (Some f) s"

definition ssh_on_certificate :: "'o \<Rightarrow> 'o ssh_fn \<Rightarrow> 'o ssh_fn" where
  "ssh_on_certificate f s = on_certificate (Some f) s"

definition sip_on_header :: "'o \<Rightarrow> 'o sip_fn \<Rightarrow> 'o sip_fn" where
  "sip_on_header f s = on_header (Some f) s"

definition sip_on_invalid_header :: "'o \<Rightarrow> 'o sip_fn \<Rightarrow> 'o sip_fn" where
  "sip_on_invalid_header f s = on_invalid_header (Some f) s"

definition py_ssl_user :: "('o, 'o ssl_fn, 'pl, 'w) python \<Rightarrow> ('o, 'pl, 'w) ssl_user" where
  "py_ssl_user P =
     \<lparr>lu_data = py_data_callback P, lu_cipher = py_cipher_callback P, lu_connect = py_connect_callback P,
      lu_python = py_process_buffer P\<rparr>"

definition py_ssh_user :: "('o, 'o ssh_fn, 'pl, 'w) python \<Rightarrow> ('o, 'pl, 'w) ssh_user" where
  "py_ssh_user P =
     \<lparr>hu_data = py_data_callback P, hu_connect = py_connect_callback P, hu_python = py_process_buffer P\<rparr>"

definition py_sip_user :: "('o, 'o sip_fn, 'pl, 'w) python \<Rightarrow> ('o, 'pl, 'w) sip_user" where
  "py_sip_user P =
     \<lparr>su_header = py_header_callback P, su_data = py_data_callback P, su_connect = py_connect_callback P,
      su_python = py_process_buffer P\<rparr>"

section \<open>Target sets and properties written in Python\<close>

text \<open>
  \<open>NSTargetSetWrap\<close>: every member calls the override of that name. An override that is missing is
  the object \<open>None\<close>, whose call raises. The two stream versions of saving and restoring do nothing.
\<close>

definition call_override ::
  "('o, 'f, 'pl, 'w) python \<Rightarrow> 'o \<Rightarrow> string \<Rightarrow> py_arg list \<Rightarrow> 'w \<Rightarrow> ('o \<times> 'w) res" where
  "call_override P self name args w =
     (case py_attr P self name of None \<Rightarrow> Inl Python_exception | Some g \<Rightarrow> call_plain P g args w)"

definition wrap_init :: "('o, 'f, 'pl, 'w) python \<Rightarrow> 'o \<Rightarrow> 'w \<Rightarrow> 'w res" where
  "wrap_init P self w = bind_res (call_override P self ''init'' [] w) (\<lambda>(v, w'). Inr w')"

definition wrap_init_shrd :: "('o, 'f, 'pl, 'w) python \<Rightarrow> 'o \<Rightarrow> u32 \<Rightarrow> u32 \<Rightarrow> 'w \<Rightarrow> 'w res" where
  "wrap_init_shrd P self shrd_idx shrd_count w =
     bind_res (call_override P self ''init_shrd'' [Arg_Int (uint shrd_idx), Arg_Int (uint shrd_count)] w) (\<lambda>(v, w'). Inr w')"

definition wrap_save_state :: "('o, 'f, 'pl, 'w) python \<Rightarrow> 'o \<Rightarrow> u8 list \<Rightarrow> 'w \<Rightarrow> 'w res" where
  "wrap_save_state P self file w =
     bind_res (call_override P self ''save_state'' [Arg_Str file] w) (\<lambda>(v, w'). Inr w')"

definition wrap_restore_state :: "('o, 'f, 'pl, 'w) python \<Rightarrow> 'o \<Rightarrow> u8 list \<Rightarrow> 'w \<Rightarrow> 'w res" where
  "wrap_restore_state P self file w =
     bind_res (call_override P self ''restore_state'' [Arg_Str file] w) (\<lambda>(v, w'). Inr w')"

definition wrap_save_state_stream :: "'w \<Rightarrow> 'w" where
  "wrap_save_state_stream w = w"

definition wrap_restore_state_stream :: "'w \<Rightarrow> 'w" where
  "wrap_restore_state_stream w = w"

definition wrap_next_target :: "('o, 'f, 'pl, 'w) python \<Rightarrow> 'o \<Rightarrow> 'w \<Rightarrow> (target option \<times> 'w) res" where
  "wrap_next_target P self w =
     bind_res (py_extract (py_target P) (call_override P self ''next_target'' [] w)) (\<lambda>(t, w'). Inr (Some t, w'))"

text \<open>\<open>target_finished\<close> passes the host without \<open>boost::ref\<close>, by value.\<close>

definition wrap_target_finished ::
  "('o, 'f, 'pl, 'w) python \<Rightarrow> 'o \<Rightarrow> target \<Rightarrow> ('f, 'pl) host_sm \<times> 'w \<Rightarrow> (bool \<times> ('f, 'pl) host_sm \<times> 'w) res" where
  "wrap_target_finished P self t c =
     (case c of (h, w) \<Rightarrow>
        bind_res (py_extract (py_bool P) (call_override P self ''target_finished'' [Arg_Target t, Arg_HostSM_value] w))
          (\<lambda>(r, w'). Inr (r, h, w')))"

text \<open>
  The storage of Python objects per target. A new target gets the object that a call of the type
  given to the constructor makes.
\<close>

definition python_properties_init :: "'o \<Rightarrow> 'o \<times> 'o storage" where
  "python_properties_init ty = (ty, storage_new)"

definition python_properties_storage_get ::
  "('o, 'f, 'pl, 'w) python \<Rightarrow> (port \<Rightarrow> u32) \<Rightarrow> 'o \<Rightarrow> connected_target \<Rightarrow> 'o storage \<times> 'w \<Rightarrow> ('o \<times> 'o storage \<times> 'w) res" where
  "python_properties_storage_get P as_u32 ty ct c =
     (case c of (m, w) \<Rightarrow>
        (case smap_find m (target_key as_u32 (ct_target ct)) of
           Some d \<Rightarrow> Inr (d, m, w)
         | None \<Rightarrow> bind_res (call_plain P ty [] w) (\<lambda>(v, w').
             case properties_of as_u32 (\<lambda>_. v) (ct_target ct) m of (d, m') \<Rightarrow> Inr (d, m', w'))))"

text \<open>Assigning goes through the same look-up: a new target's object is made and then replaced.\<close>

definition python_properties_storage_set ::
  "('o, 'f, 'pl, 'w) python \<Rightarrow> (port \<Rightarrow> u32) \<Rightarrow> 'o \<Rightarrow> target \<Rightarrow> 'o \<Rightarrow> 'o storage \<times> 'w \<Rightarrow> ('o storage \<times> 'w) res" where
  "python_properties_storage_set P as_u32 ty t v c =
     bind_res (python_properties_storage_get P as_u32 ty (Connected_Target 0 t) c)
       (\<lambda>(d, m, w). Inr (storage_write as_u32 t v m, w))"

definition python_properties_storage_remove ::
  "(port \<Rightarrow> u32) \<Rightarrow> connected_target \<Rightarrow> 'o storage \<Rightarrow> 'o storage" where
  "python_properties_storage_remove as_u32 ct m = storage_remove as_u32 (ct_target ct) m"

definition target_hash :: "(port \<Rightarrow> u32) \<Rightarrow> target \<Rightarrow> u64" where
  "target_hash as_u32 t = ucast (ipv4 t) OR push_bit 32 (ucast (as_u32 (tport t)))"

section \<open>Properties\<close>

lemma object_from_ro_mem_contents:
  assumes "buf_ok b" and "off + n \<le> unat (buf_pos b)"
  shows "object_from_ro_mem off n b = Inr (Arg_Memory (take n (drop off (buf_contents b))))"
proof (cases "buf_mem b")
  case None
  then show ?thesis by (simp add: object_from_ro_mem_def buf_contents_def)
next
  case (Some m)
  then show ?thesis by (simp add: object_from_ro_mem_def buf_bytes_contents [OF assms])
qed

text \<open>A Python function that records the bytes it is shown, returns \<open>True\<close> and changes nothing else.\<close>

definition py_observes :: "('o, 'f, 'pl, 'w) python \<Rightarrow> 'o \<Rightarrow> (u8 list \<Rightarrow> 'w \<Rightarrow> 'w) \<Rightarrow> bool" where
  "py_observes P f log \<longleftrightarrow>
     (\<forall>ct bs l h w. list_all (py_converts P) [Arg_ConnectedTarget ct, Arg_Lvl4SM, Arg_HostSM, Arg_Memory bs] \<and>
        (\<exists>v. py_call P f [Arg_ConnectedTarget ct, Arg_Lvl4SM, Arg_HostSM, Arg_Memory bs] (l, h, w) =
             (Some v, l, h, log bs w) \<and> py_bool P v = Some True))"

lemma py_data_observed:
  assumes "py_observes P f log" and "buf_ok (l4_buf l)" and "off + unat n \<le> unat (buf_pos (l4_buf l))"
  shows "py_data_callback P f ct off n (l, h, w) =
    Inr (True, l, h, log (take (unat n) (drop off (buf_contents (l4_buf l)))) w)"
proof -
  let ?bs = "take (unat n) (drop off (buf_contents (l4_buf l)))"
  obtain v where "py_call P f [Arg_ConnectedTarget ct, Arg_Lvl4SM, Arg_HostSM, Arg_Memory ?bs] (l, h, w)
      = (Some v, l, h, log ?bs w)" "py_bool P v = Some True"
    "list_all (py_converts P) [Arg_ConnectedTarget ct, Arg_Lvl4SM, Arg_HostSM, Arg_Memory ?bs]"
    using assms(1) unfolding py_observes_def by meson
  then show ?thesis
    by (simp add: py_data_callback_def object_from_ro_mem_contents [OF assms(2,3)] call_object_def
        raised_def py_extract_def)
qed

lemma py_actions_observe: "py_observes P f log \<Longrightarrow> observes (py_actions P) (Py_Data f) log"
  by (simp add: observes_def py_actions_def py_data_observed)

text \<open>
  A Python world for the witnesses: one object, whose calls record the bytes they are shown and
  return \<open>True\<close>. Everything but a host passed by value converts.
\<close>

definition py_recorder :: "(unit, unit py_fn, unit, u8 list list) python" where
  "py_recorder =
     \<lparr>py_call = (\<lambda>f args (l, h, w). (Some (), l, h, case args of [_, _, _, Arg_Memory bs] \<Rightarrow> w @ [bs] | _ \<Rightarrow> w)),
      py_plain_call = (\<lambda>f args w. (Some (), w)), py_converts = (\<lambda>a. a \<noteq> Arg_HostSM_value),
      py_attr = (\<lambda>self name. Some ()), py_bool = (\<lambda>_. Some True), py_u32 = (\<lambda>_. None), py_code = (\<lambda>_. None),
      py_target = (\<lambda>_. None)\<rparr>"

lemma py_recorder_observes: "py_observes py_recorder () (\<lambda>bs w. w @ [bs])"
  by (simp add: py_observes_def py_recorder_def)



text \<open>
  A Python exception raised by a connect callback, or by the conversion of what it returns, ends
  the whole scan: the round in which the connection becomes ready does not return, whatever the
  other connections are doing.
\<close>

theorem python_exception_ends_scan:
  assumes "actions_of E = py_actions P" and "smap_find (lvl4_sms e) s = Some l"
    and "func_connect l = Some (Py_Connected f)" and "smap_find (sockets_targets e) s = Some t"
    and "os_epoll_wait (kernel E) MAX_EVENTS (world e) = (Some ((s, EPOLLOUT) # evs), w1)"
    and "os_so_error (kernel E) s w1 = (0, w2)"
    and "\<forall>c. case py_call P f [Arg_ConnectedTarget (Connected_Target s t), Arg_Lvl4SM, Arg_HostSM] c of
           (None, c') \<Rightarrow> True | (Some v, c') \<Rightarrow> py_bool P v = None"
  shows "scan_loop (Suc n) pf lf E e = Inl Python_exception"
proof -
  have "py_connect_callback P f (Connected_Target s t) c = Inl Python_exception" for c
    using assms(7) [rule_format, of c]
    by (auto simp: py_connect_callback_def call_object_def raised_def py_extract_def split: option.splits prod.splits)
  then have "process_connecting_ready E s (e\<lparr>world := w1\<rparr>) = Inl Python_exception"
    using assms(1-4,6)
    by (auto simp: process_connecting_ready_def get_lvl4_sm_def target_from_socket_def get_host_sm_def
        on_connect_def py_actions_def Let_def split: option.split)
  then show ?thesis using assms(5)
    by (simp add: scan_round_def process_events_def process_event_def EPOLLOUT_def)
qed

text \<open>
  A size that is a multiple of \<open>2^32\<close> makes a trigger of size 0, and with it a loop that never ends.
\<close>

theorem python_size_trigger_wraps:
  assumes "py_observes P f log" and "buf_ok (l4_buf l)" and "ucast n = (0 :: u32)"
  shows "process_buffer fuel (py_actions P) ct (lvl4sm_set_size_data_trigger n f l, h, w) = Inl Out_of_fuel"
proof (rule zero_size_loop)
  let ?l = "lvl4sm_set_size_data_trigger n f l"
  show "l4_trigger ?l = Size_Data_Trigger (Some (Py_Data f)) 0" and ok: "buf_ok (l4_buf ?l)"
    using assms(2,3) by (simp_all add: lvl4sm_set_size_data_trigger_def set_trigger_def)
  show "\<exists>w'. act_data (py_actions P) (Py_Data f) ct 0 0 (?l, h, w) = Inr (True, ?l, h, w')" for w
    using py_actions_observe [OF assms(1)] ok by (auto simp: observes_def)
qed

text \<open>An interpreter whose connect callback raises, and an engine with one connection that is ready.\<close>

definition py_raiser :: "(unit, unit py_fn, unit, unit net) python" where
  "py_raiser =
     \<lparr>py_call = (\<lambda>f args c. (None, c)), py_plain_call = (\<lambda>f args w. (Some (), w)),
      py_converts = (\<lambda>a. a \<noteq> Arg_HostSM_value), py_attr = (\<lambda>self name. Some ()), py_bool = (\<lambda>_. Some True),
      py_u32 = (\<lambda>_. None), py_code = (\<lambda>_. None), py_target = (\<lambda>_. Some (Target 1 (Port 80 0)))\<rparr>"

definition py_set_env :: "(unit py_fn, unit, unit net) env" where
  "py_set_env =
     \<lparr>kernel = net_kernel (\<lambda>ip. []), actions_of = py_actions py_raiser, port_ops = unit_ports,
      port_socket_type = (\<lambda>p. 1), port_socket_proto = (\<lambda>p. 6), protocol_from_socket_type = (\<lambda>ty pr. 6),
      ts_init = wrap_init py_raiser (), ts_next_target = wrap_next_target py_raiser (),
      ts_target_finished = wrap_target_finished py_raiser (), ts_init_host_sm = (\<lambda>t c. c),
      ts_save_state = (\<lambda>file. wrap_save_state py_raiser () (bytes_of file)),
      ts_restore_state = (\<lambda>file. wrap_restore_state py_raiser () (bytes_of file)), call_finish = (\<lambda>f t b err w. Inr w),
      call_status = (\<lambda>f n d w. Inr w), call_watch_timeout = (\<lambda>f ct w. Inr (True, w)),
      call_timeout_target = (\<lambda>f t w. Inr (5, w))\<rparr>"

definition py_env :: "(unit py_fn, unit, unit net) env" where
  "py_env = py_callbacks py_raiser py_set_env"

definition py_engine :: "(unit py_fn, unit, unit net) engine" where
  "py_engine =
     (async_engine_set_lvl4_connected_callback () (async_engine_new 2 5
        \<lparr>net_clock = 0, net_table = [(3, Some EPOLLOUT, 0, [])], net_sent = [], net_log = [], net_done = [],
         net_targets = ()\<rparr>))
     \<lparr>lvl4_sms := [(3, lvl4sm_set_on_connect () (lvl4_sm_new 0))], sockets_targets := [(3, Target 1 (Port 80 0))],
      avail_socks := 1\<rparr>"

lemma py_engine_maps:
  "smap_find (lvl4_sms py_engine) 3 = Some (lvl4sm_set_on_connect () (lvl4_sm_new 0))"
  "smap_find (sockets_targets py_engine) 3 = Some (Target 1 (Port 80 0))"
  by (simp_all add: py_engine_def)

theorem python_exception_ends_scan_witness: "scan_loop (Suc 8) 9 9 py_env py_engine = Inl Python_exception"
  by (rule python_exception_ends_scan [of py_env py_raiser py_engine 3 _ "()" "Target 1 (Port 80 0)" "[]"
        "(world py_engine)\<lparr>net_clock := 1\<rparr>"])
    (simp_all add: py_engine_maps, simp_all add: py_env_def py_set_env_def py_callbacks_def py_raiser_def py_engine_def net_kernel_def
      net_epoll_wait_def net_ready_def net_get_def MAX_EVENTS_def lvl4sm_set_on_connect_def set_on_connect_def
      async_engine_set_lvl4_connected_callback_def set_lvl4_connected_callback_def async_engine_new_def)

text \<open>
  Equal targets, and only those, have equal hashes: the two 32-bit halves of the hash are the address
  and the packed port.
\<close>

theorem target_hash_eq:
  assumes "inj as_u32"
  shows "target_hash as_u32 a = target_hash as_u32 b \<longleftrightarrow> target_eq a b"
proof -
  have low: "ucast (target_hash as_u32 t) = ipv4 t" for t
    by (rule bit_word_eqI) (simp add: target_hash_def bit_simps)
  have high: "ucast (drop_bit 32 (target_hash as_u32 t)) = as_u32 (tport t)" for t
    by (rule bit_word_eqI) (auto simp: target_hash_def bit_simps dest: bit_imp_le_length)
  have "target_key as_u32 a = target_key as_u32 b" if "target_hash as_u32 a = target_hash as_u32 b"
    using low [of a] low [of b] high [of a] high [of b] that by (simp add: target_key_def)
  then show ?thesis using target_key_inj [OF assms, of a b]
    by (auto simp: target_eq_iff target_hash_def)
qed

theorem target_hash_eq_witness:
  "target_hash port_pack (Target 1 (Port 80 6)) \<noteq> target_hash port_pack (Target 1 (Port 80 17))"
  using target_hash_eq [OF port_pack_inj, of "Target 1 (Port 80 6)" "Target 1 (Port 80 17)"] by (simp add: target_eq_def)

text \<open>
  The storage keeps the objects: what was set for a target is read back without a call of the type,
  and removing it makes the next read call the type again.
\<close>

theorem python_storage_set_get:
  assumes "smap_ok m" and "python_properties_storage_set P as_u32 ty t v (m, w) = Inr (m', w')"
  shows "python_properties_storage_get P as_u32 ty (Connected_Target s t) (m', w') = Inr (v, m', w')
    \<and> smap_find (python_properties_storage_remove as_u32 (Connected_Target s t) m') (target_key as_u32 t) = None"
  using assms
  by (auto simp: python_properties_storage_set_def python_properties_storage_get_def python_properties_storage_remove_def
      storage_write_def storage_remove_def properties_of_def bind_res_eq_Inr smap_simps split: option.splits prod.splits)

end
