(* ===== verification/Engine_Exceptions.thy ===== *)
theory Engine_Exceptions
  imports Engine
begin

text \<open>
  Exceptions of the user's finish callback. Nothing in the engine catches them: one that is thrown
  while a connection is being finished leaves the main loop. With a callback that always throws, no
  scan that returns has finished a target.
\<close>

section \<open>Operations that finish no connection\<close>

definition same_done :: "('f, 'pl, 'w) engine \<Rightarrow> ('f, 'pl, 'w) engine \<Rightarrow> bool" where
  "same_done e e' \<longleftrightarrow> ndone e' = ndone e \<and> callback_finish e' = callback_finish e"

lemma same_done_refl [simp]: "same_done e e"
  by (simp add: same_done_def)

lemma same_done_trans: "same_done e e1 \<Longrightarrow> same_done e1 e2 \<Longrightarrow> same_done e e2"
  by (simp add: same_done_def)

lemma same_done_frames [simp]:
  "ndone (put_host_sm ip h e) = ndone e" "callback_finish (put_host_sm ip h e) = callback_finish e"
  "ndone (put_lvl4_sm s l e) = ndone e" "callback_finish (put_lvl4_sm s l e) = callback_finish e"
  "ndone (snd (get_host_sm E ip e)) = ndone e" "callback_finish (snd (get_host_sm E ip e)) = callback_finish e"
  "ndone (snd (get_lvl4_sm E s e)) = ndone e" "callback_finish (snd (get_lvl4_sm E s e)) = callback_finish e"
  "ndone (snd (new_lvl4_sm E s e)) = ndone e" "callback_finish (snd (new_lvl4_sm E s e)) = callback_finish e"
  "ndone (add_connecting_socket E s e) = ndone e" "callback_finish (add_connecting_socket E s e) = callback_finish e"
  "ndone (add_connected_socket E s e) = ndone e" "callback_finish (add_connected_socket E s e) = callback_finish e"
  "ndone (remove_connecting_socket E s e) = ndone e" "callback_finish (remove_connecting_socket E s e) = callback_finish e"
  "ndone (remove_connected_socket E s e) = ndone e" "callback_finish (remove_connected_socket E s e) = callback_finish e"
  by (simp_all add: put_host_sm_def put_lvl4_sm_def get_host_sm_def get_lvl4_sm_def new_lvl4_sm_def
      add_connecting_socket_def add_connected_socket_def remove_connecting_socket_def remove_connected_socket_def
      Let_def split: option.split)

lemma create_socket_done: "create_socket E t e = Inr x \<Longrightarrow> same_done e (snd x)"
  by (auto simp: same_done_def create_socket_def Let_def bind_res_eq_Inr split_beta split: if_splits)

lemma reconnect_done: "reconnect E s t l e = Inr e' \<Longrightarrow> same_done e e'"
  by (auto simp: same_done_def reconnect_def Let_def bind_res_eq_Inr split_beta dest!: create_socket_done)

lemma report_done: "report_and_save E e = Inr e' \<Longrightarrow> same_done e e'"
  by (auto simp: report_and_save_def should_call_status_display_def should_save_state_def save_state_def same_done_def
      Let_def bind_res_eq_Inr split: if_splits option.splits)

section \<open>A finish callback that throws\<close>

locale throwing_finish =
  fixes E :: "('f, 'pl, 'w) env" and f :: 'f
  assumes throws: "\<exists>x. call_finish E f t b i w = Inl x"
begin

lemma callback_throws [simp]: "callback_finish e = Some f \<Longrightarrow> call_callback_finish E t b err e \<noteq> Inr e'"
  using throws [of t b err "world e"] by (auto simp: call_callback_finish_def)

lemma finish_throws [simp]: "callback_finish e = Some f \<Longrightarrow> socket_finished E s err e \<noteq> Inr e'"
  by (auto simp: socket_finished_def Let_def bind_res_eq_Inr split_beta)

lemma connecting_done:
  "callback_finish e = Some f \<Longrightarrow> process_connecting_ready E s e = Inr e' \<Longrightarrow> same_done e e'"
  by (auto simp: process_connecting_ready_def same_done_def Let_def bind_res_eq_Inr split_beta split: if_splits)

lemma connected_done:
  "callback_finish e = Some f \<Longrightarrow> process_connected_ready n E s e = Inr e' \<Longrightarrow> same_done e e'"
  by (auto simp: process_connected_ready_def same_done_def Let_def bind_res_eq_Inr split_beta split: if_splits)

lemma event_list_done:
  "callback_finish e = Some f \<Longrightarrow> process_event_list n E evs e = Inr e' \<Longrightarrow> same_done e e'"
proof (induction evs arbitrary: e)
  case (Cons ev evs)
  then obtain e1 where e1: "process_event n E ev e = Inr e1" "process_event_list n E evs e1 = Inr e'"
    by (auto simp: bind_res_eq_Inr)
  then have "same_done e e1"
    using Cons.prems(1) by (auto simp: process_event_def split_beta split: if_splits dest: connecting_done connected_done)
  with Cons.IH [OF _ e1(2)] Cons.prems(1) show ?case by (simp add: same_done_def)
qed simp

lemma events_done:
  assumes "callback_finish e = Some f" and "process_events n E e = Inr (k, e')"
  shows "same_done e e'"
  using assms event_list_done [of "e\<lparr>world := w\<rparr>" for w]
  by (fastforce simp: process_events_def same_done_def Let_def bind_res_eq_Inr split: option.splits prod.splits)

lemma dirty_done: "callback_finish e = Some f \<Longrightarrow> process_dirty n E ps e = Inr e' \<Longrightarrow> same_done e e'"
proof (induction ps arbitrary: e)
  case (Cons s ps)
  then obtain e1 where "process_dirty n E ps e1 = Inr e'" "same_done e e1"
    by (auto simp: bind_res_eq_Inr Let_def split_beta same_done_def split: if_splits)
  with Cons.IH [of e1] Cons.prems(1) show ?case by (simp add: same_done_def)
qed simp

lemma timeouts_done: "callback_finish e = Some f \<Longrightarrow> finish_timeouts E tos e = Inr e' \<Longrightarrow> same_done e e'"
  by (cases tos) (auto simp: bind_res_eq_Inr)

lemma dirty_and_timeouts_done:
  assumes "callback_finish e = Some f" and "process_dirty_and_timeouts n E e = Inr (k, e')"
  shows "same_done e e'"
proof -
  from assms(2) obtain ls ps tos w e1 where
    r: "process_dirty n E ps (e\<lparr>lvl4_sms := ls, world := w\<rparr>) = Inr e1" "finish_timeouts E tos e1 = Inr e'"
    by (auto simp: process_dirty_and_timeouts_def Let_def bind_res_eq_Inr)
  with dirty_done [OF _ r(1)] timeouts_done [OF _ r(2)] assms(1) show ?thesis by (simp add: same_done_def)
qed

lemma launch_one_done:
  "callback_finish e = Some f \<Longrightarrow> launch_one n E e = Inr (r, e') \<Longrightarrow> same_done e e'"
proof (induction n arbitrary: e)
  case (Suc n)
  have fin: "socket_finished E s err (snd x) \<noteq> Inr e2" if "create_socket E t (e\<lparr>world := w, nlaunched := k\<rparr>) = Inr x"
    for t w k x s err e2
    using create_socket_done [OF that] Suc.prems(1) by (intro finish_throws) (simp add: same_done_def)
  from Suc.prems show ?case
    by (auto simp: bind_res_eq_Inr Let_def split_beta split: option.splits if_splits dest: fin)
      (auto simp: same_done_def dest!: create_socket_done)
qed simp

lemma launch_sockets_done:
  "callback_finish e = Some f \<Longrightarrow> launch_sockets lf E i e = Inr (b, e') \<Longrightarrow> same_done e e'"
proof (induction i arbitrary: e)
  case (Suc i)
  then obtain r e1 where r: "launch_one lf E e = Inr (r, e1)" by (auto simp: bind_res_eq_Inr)
  note d = launch_one_done [OF Suc.prems(1) r]
  show ?case
  proof (cases r)
    case (Launched s t)
    with Suc.prems(2) r obtain e2 where "launch_sockets lf E i e2 = Inr (b, e')" "same_done e1 e2"
      by (auto simp: Let_def split_beta same_done_def)
    with Suc.IH [of e2] d Suc.prems(1) show ?thesis by (simp add: same_done_def)
  qed (use Suc.prems(2) r d in auto)
qed simp

lemma round_done:
  assumes "callback_finish e = Some f" and "scan_round pf lf E e = Inr (stop, e')"
  shows "same_done e e'"
proof -
  from assms(2) obtain n e1 v e2 b e3 where r: "process_events pf E e = Inr (n, e1)"
    "process_dirty_and_timeouts pf E e1 = Inr (v, e2)" "launch_sockets lf E (unat (avail_socks e2)) e2 = Inr (b, e3)"
    "e' = e3 \<or> report_and_save E e3 = Inr e'"
    by (auto simp: scan_round_def process_free_socks_def bind_res_eq_Inr split: if_splits)
  have "same_done e e1" using events_done [OF assms(1) r(1)] .
  moreover from this have "same_done e1 e2" using dirty_and_timeouts_done [OF _ r(2)] assms(1) by (simp add: same_done_def)
  moreover from calculation have "same_done e2 e3" using launch_sockets_done [OF _ r(3)] assms(1) by (simp add: same_done_def)
  ultimately show ?thesis using r(4) by (auto simp: same_done_def dest!: report_done)
qed

lemma loop_done: "callback_finish e = Some f \<Longrightarrow> scan_loop n pf lf E e = Inr e' \<Longrightarrow> same_done e e'"
proof (induction n arbitrary: e)
  case (Suc n)
  then obtain stop e1 where r: "scan_round pf lf E e = Inr (stop, e1)" "e' = e1 \<or> scan_loop n pf lf E e1 = Inr e'"
    by (auto simp: bind_res_eq_Inr split: if_splits)
  with round_done [OF Suc.prems(1) r(1)] Suc.IH [of e1] Suc.prems(1) show ?case by (auto simp: same_done_def)
qed simp

lemma scan_finishes_nothing:
  assumes "callback_finish e = Some f" and "do_async_scan sf pf lf E e = Inr e'"
  shows "ndone e' = 0"
proof -
  let ?e = "e\<lparr>world := os_epoll_create (kernel E) (world e), nlaunched := 0, ndone := 0, last_time_status_display := 0\<rparr>"
  from assms(2) obtain b e1 where r: "launch_sockets lf E (unat (avail_socks e)) ?e = Inr (b, e1)" "scan_loop sf pf lf E e1 = Inr e'"
    by (auto simp: do_async_scan_def process_free_socks_def Let_def bind_res_eq_Inr)
  with launch_sockets_done [OF _ r(1)] loop_done [OF _ r(2)] assms(1) show ?thesis by (simp add: same_done_def)
qed

end

end
