(* ===== verification/Python_Module.thy ===== *)
theory Python_Module
  imports Python_Bindings Engine_Exceptions
begin

text \<open>
  The module definition of the Python bindings (\<open>BOOST_PYTHON_MODULE\<close> in \<open>pynodescan.cpp\<close>) as a table:
  the classes and enumerations it registers, with their constructors and members. What
  \<open>boost::python\<close> can convert depends on this table; \<open>follows_module\<close> is that dependence, as far as the
  theorems below need it.
\<close>

section \<open>The table\<close>

text \<open>
  A class: the C++ type, the name in Python, the bases, whether it is registered as \<open>noncopyable\<close>, the
  argument types of its constructor (none for \<open>no_init\<close>), and its members with what they call.
\<close>

record py_class =
  cls_type :: string
  cls_name :: string
  cls_bases :: "string list"
  cls_noncopyable :: bool
  cls_init :: "string list option"
  cls_defs :: "(string \<times> string) list"

record py_module =
  mod_classes :: "py_class list"
  mod_enums :: "(string \<times> string \<times> (string \<times> int) list) list"

definition py_class_of ::
  "string \<Rightarrow> string \<Rightarrow> string list \<Rightarrow> bool \<Rightarrow> string list option \<Rightarrow> (string \<times> string) list \<Rightarrow> py_class" where
  "py_class_of ty name bases nc ini defs =
     \<lparr>cls_type = ty, cls_name = name, cls_bases = bases, cls_noncopyable = nc, cls_init = ini, cls_defs = defs\<rparr>"

definition pynodescan_module :: py_module where
  "pynodescan_module =
     \<lparr>mod_classes = [
       py_class_of ''NSTargetSetWrap'' ''TargetSet'' [] True (Some [])
          [(''init'', ''ns::TargetSet::init''), (''init_shrd'', ''ns::TargetSet::init_shrd''),
           (''next_target'', ''ns::TargetSet::next_target''),
           (''target_finished'', ''ns::TargetSet::target_finished'')],
       py_class_of ''ns::IPV4TargetSet'' ''IPV4TargetSet'' [''ns::TargetSet''] False (Some [''leeloo::ip_list_intervals&'', ''leeloo::port_list_intervals&''])
          [],
       py_class_of ''RepeatableIPV4TargetSet'' ''RepeatableIPV4TargetSet'' [''ns::TargetSet''] False (Some [''leeloo::ip_list_intervals&'', ''leeloo::port_list_intervals&''])
          [],
       py_class_of ''ns::SimpleTargetSet'' ''SimpleTargetSet'' [''ns::TargetSet''] False (Some [])
          [(''add_target'', ''ns::SimpleTargetSet::add_target''),
           (''remove_target'', ''ns::SimpleTargetSet::remove_target'')],
       py_class_of ''RepeatableSimpleTargetSet'' ''RepeatableSimpleTargetSet'' [''ns::TargetSet''] False (Some [])
          [(''add_target'', ''RepeatableSimpleTargetSet::add_target''),
           (''remove_target'', ''RepeatableSimpleTargetSet::remove_target'')],
       py_class_of ''ns::TargetStdin'' ''TargetStdin'' [''ns::TargetSet''] False (Some [''leeloo::port''])
          [],
       py_class_of ''ReinjectableTargetStdin'' ''ReinjectableTargetStdin'' [''ns::TargetSet''] False (Some [''leeloo::port''])
          [(''add_target'', ''ReinjectableTargetStdin::add_target'')],
       py_class_of ''ns::AsyncEngine'' ''AsyncEngine'' [] False (Some [''ns::TargetSet&'', ''size_t'', ''size_t''])
          [(''launch'', ''ns::AsyncEngine::launch''), (''launch_shrd'', ''ns::AsyncEngine::launch_shrd''),
           (''set_lvl4_connected_callback'', ''async_engine_set_lvl4_connected_callback''),
           (''set_lvl4_finish_callback'', ''async_engine_set_lvl4_finish_callback''),
           (''set_status_display_callback'', ''async_engine_set_status_display_callback''),
           (''set_watch_timeout'', ''async_engine_set_watch_timeout''),
           (''set_timeout_of_target'', ''async_engine_set_timeout_of_target''),
           (''save_state'', ''ns::AsyncEngine::save_state''),
           (''restore_state'', ''ns::AsyncEngine::restore_state''),
           (''auto_save_state'', ''ns::AsyncEngine::auto_save_state''),
           (''ensure_available_sockets'', ''ns::AsyncEngine::ensure_available_sockets'')],
       py_class_of ''ns::Target'' ''Target'' [] False (Some [''uint32_t'', ''leeloo::port''])
          [(''ipv4'', ''ns::Target::ipv4''), (''port'', ''ns::Target::port''),
           (''port_value'', ''ns::Target::port_value''), (''port_protocol'', ''ns::Target::port_protocol''),
           (''is_end'', ''ns::Target::is_end''), (''__hash__'', ''target_hash''),
           (''__eq__'', ''ns::Target::operator=='')],
       py_class_of ''ns::ConnectedTarget'' ''ConnectedTarget'' [] False (Some [''int'', ''ns::Target const&''])
          [(''send'', ''connected_target_send''), (''ipv4'', ''ns::ConnectedTarget::ipv4''),
           (''port'', ''ns::ConnectedTarget::port''), (''port_value'', ''ns::ConnectedTarget::port_value''),
           (''port_protocol'', ''ns::ConnectedTarget::port_protocol''),
           (''target'', ''ns::ConnectedTarget::target'')],
       py_class_of ''ns::Lvl4SM'' ''Lvl4SM'' [] True (Some [])
          [(''set_reconnect'', ''ns::Lvl4SM::set_reconnect''), (''set_on_connect'', ''lvl4sm_set_on_connect''),
           (''reconnect'', ''ns::Lvl4SM::reconnect''),
           (''set_char_data_trigger'', ''lvl4sm_set_char_data_trigger''),
           (''set_size_data_trigger'', ''lvl4sm_set_size_data_trigger''),
           (''set_data_trigger'', ''lvl4sm_set_python_data_trigger''),
           (''remove_data_trigger'', ''ns::Lvl4SM::remove_data_trigger'')],
       py_class_of ''ns::HostSM'' ''HostSM'' [] True (Some [])
          [],
       py_class_of ''ns::Lvl4Buffer'' ''Lvl4Buffer'' [] True (Some [])
          [(''data'', ''lvl4buffer_data''), (''pop_by'', ''ns::Lvl4Buffer::pop_by'')],
       py_class_of ''Lvl4PythonPropertiesStorage'' ''Lvl4Properties'' [] False None
          [(''__init__'', ''python_properties_init''), (''remove'', ''Lvl4PythonPropertiesStorage::remove''),
           (''remove'', ''python_properties_storage_remove''),
           (''__getitem__'', ''Lvl4PythonPropertiesStorage::properties_of''),
           (''__getitem__'', ''python_properties_storage_get''),
           (''__setitem__'', ''python_properties_storage_set'')],
       py_class_of ''PythonProtocols'' ''protocols'' [] False (Some [])
          [],
       py_class_of ''nsp::SSL'' ''SSL'' [] False (Some [])
          [(''__call__'', ''nsp::SSL::operator()''), (''on_certificate'', ''ssl_on_certificate''),
           (''on_cipher'', ''ssl_on_cipher''), (''on_protocol_failure'', ''ssl_on_protocol_failure'')],
       py_class_of ''nsp::SSH'' ''SSH'' [] False (Some [])
          [(''__call__'', ''nsp::SSH::operator()''), (''on_certificate'', ''ssh_on_certificate''),
           (''on_invalid_answer'', ''ssh_on_invalid_answer'')],
       py_class_of ''nsp::SIP'' ''SIP'' [] False (Some [])
          [(''__call__'', ''nsp::SIP::operator()''), (''on_header'', ''sip_on_header''),
           (''on_invalid_header'', ''sip_on_invalid_header'')]],
      mod_enums = [(''ns::errors'', ''errors'', [(''NS_TIMEOUT'', NS_TIMEOUT), (''WILL_RECONNECT'', WILL_RECONNECT)])]\<rparr>"

text \<open>
  The constructor the module gives to \<open>AsyncEngine\<close> takes two \<open>size_t\<close>, the class two \<open>uint32_t\<close>.
\<close>

definition py_async_engine_init :: "u64 \<Rightarrow> u64 \<Rightarrow> 'w \<Rightarrow> ('f, 'pl, 'w) engine" where
  "py_async_engine_init n tmo w = async_engine_new (ucast n) (ucast tmo) w"

section \<open>Conversions\<close>

text \<open>
  An object is passed to Python by value if its class is registered and can be copied, as a
  reference if its class is registered; memory, strings and integers always. A value of an
  enumeration is taken from Python if the enumeration is registered.
\<close>

definition passes_value :: "py_module \<Rightarrow> string \<Rightarrow> bool" where
  "passes_value m ty = list_ex (\<lambda>c. cls_type c = ty \<and> \<not> cls_noncopyable c) (mod_classes m)"

definition passes_reference :: "py_module \<Rightarrow> string \<Rightarrow> bool" where
  "passes_reference m ty = list_ex (\<lambda>c. cls_type c = ty) (mod_classes m)"

definition module_converts :: "py_module \<Rightarrow> py_arg \<Rightarrow> bool" where
  "module_converts m a =
     (case a of
        Arg_ConnectedTarget _ \<Rightarrow> passes_value m ''ns::ConnectedTarget''
      | Arg_Target _ \<Rightarrow> passes_value m ''ns::Target''
      | Arg_Lvl4SM \<Rightarrow> passes_reference m ''ns::Lvl4SM''
      | Arg_HostSM \<Rightarrow> passes_reference m ''ns::HostSM''
      | Arg_HostSM_value \<Rightarrow> passes_value m ''ns::HostSM''
      | Arg_Lvl4Buffer \<Rightarrow> passes_reference m ''ns::Lvl4Buffer''
      | Arg_Memory _ \<Rightarrow> True
      | Arg_Str _ \<Rightarrow> True
      | Arg_Int _ \<Rightarrow> True)"

definition takes_enum :: "py_module \<Rightarrow> string \<Rightarrow> bool" where
  "takes_enum m ty = list_ex (\<lambda>e. fst e = ty) (mod_enums m)"

definition follows_module :: "('o, 'f, 'pl, 'w) python \<Rightarrow> py_module \<Rightarrow> bool" where
  "follows_module P m \<longleftrightarrow>
     (\<forall>a. py_converts P a \<longleftrightarrow> module_converts m a)
     \<and> (\<not> takes_enum m ''ns::DataTrigger::ProcessReturnCode'' \<longrightarrow> (\<forall>v. py_code P v = None))"

text \<open>Everything the wrappers pass has a converter, but for the host passed by value.\<close>

lemma pynodescan_converts: "module_converts pynodescan_module a \<longleftrightarrow> a \<noteq> Arg_HostSM_value"
  by (cases a) (simp_all add: module_converts_def passes_value_def passes_reference_def pynodescan_module_def py_class_of_def)

lemma pynodescan_enums: "\<not> takes_enum pynodescan_module ''ns::DataTrigger::ProcessReturnCode''"
  by (simp add: takes_enum_def pynodescan_module_def)

section \<open>What cannot be done from Python\<close>

lemma py_finish_cases:
  assumes "buf_ok b" and "callback_finish e = map_option Py_Finish cb"
  shows "call_callback_finish (py_callbacks P E) t b err e = Inl Python_exception
    \<or> (\<exists>w. call_callback_finish (py_callbacks P E) t b err e = Inr (e\<lparr>world := w\<rparr>))"
proof (cases cb)
  case None
  with assms(2) show ?thesis
    by (intro disjI2 exI [of _ "world e"]) (simp add: call_callback_finish_def)
next
  case (Some f)
  with assms(2) show ?thesis
    using object_from_ro_mem_contents [OF assms(1), of 0 "unat (buf_pos b)"]
    by (auto simp: call_callback_finish_def py_callbacks_def py_finish_callback_def py_extract_def call_plain_def raised_def
        bind_res_def split: option.splits prod.splits sum.splits)
qed

text \<open>
  C31. No target of a set written in Python can be finished: \<open>target_finished\<close> passes the host by
  value, the module registers \<open>HostSM\<close> as a class without copies, so that the conversion raises, and
  the exception ends the scan at the first target, whether it was reached or not.
\<close>

theorem python_target_set_never_finishes:
  assumes "ts_target_finished E = wrap_target_finished P self" and "follows_module P pynodescan_module"
    and "smap_find (sockets_targets e) s = Some t" and "smap_find (lvl4_sms e) s = Some l" and "buf_ok (l4_buf l)"
    and "callback_finish e = map_option Py_Finish cb"
  shows "socket_finished (py_callbacks P E) s err e = Inl Python_exception"
proof -
  have "\<not> py_converts P Arg_HostSM_value" using assms(2) by (simp add: follows_module_def pynodescan_converts)
  with assms(1) have "ts_target_finished (py_callbacks P E) t c = Inl Python_exception" for c
    by (cases c) (auto simp: py_callbacks_def wrap_target_finished_def call_override_def call_plain_def py_extract_def
        split: option.split)
  moreover have "call_callback_finish (py_callbacks P E) t (l4_buf l) err (e\<lparr>ndone := ndone e + 1\<rparr>) = Inl Python_exception
      \<or> (\<exists>w. call_callback_finish (py_callbacks P E) t (l4_buf l) err (e\<lparr>ndone := ndone e + 1\<rparr>)
          = Inr (e\<lparr>ndone := ndone e + 1, world := w\<rparr>))"
    using py_finish_cases [OF assms(5), of "e\<lparr>ndone := ndone e + 1\<rparr>" cb P E t err] assms(6) by auto
  ultimately show ?thesis using assms(3,4)
    by (auto simp: socket_finished_def target_from_socket_def get_lvl4_sm_def get_host_sm_def put_lvl4_sm_def Let_def
        split: option.split)
qed

lemma py_raiser_follows: "follows_module py_raiser pynodescan_module"
  by (simp add: follows_module_def pynodescan_converts py_raiser_def)

theorem python_target_set_never_finishes_witness:
  "socket_finished py_env 3 ECONNRESET py_engine = Inl Python_exception"
  unfolding py_env_def
  by (rule python_target_set_never_finishes [of _ _ "()" _ _ _ _ None, OF _ py_raiser_follows py_engine_maps(2,1)])
    (simp_all add: py_set_env_def py_engine_def lvl4sm_set_on_connect_def set_on_connect_def lvl4_sm_new_def lvl4_sm.defs
      state_machine.defs state_machine_new_def buf_new_def buf_ok_def async_engine_set_lvl4_connected_callback_def
      set_lvl4_connected_callback_def async_engine_new_def)

text \<open>
  What a Python data trigger returns is extracted as a \<open>ProcessReturnCode\<close>, an enumeration the module
  does not register: every call of such a trigger raises.
\<close>

lemma python_trigger_raises:
  assumes "follows_module P pynodescan_module"
  shows "py_process_buffer P obj ct p c = Inl Python_exception"
proof -
  have "py_code P v = None" for v using assms pynodescan_enums by (simp add: follows_module_def)
  then show ?thesis
    by (auto simp: py_process_buffer_def py_extract_def call_object_def raised_def split: option.split prod.split)
qed

lemma python_trigger_data_raises:
  assumes mod: "follows_module P pynodescan_module" and l: "l4_trigger l = Python_Data_Trigger (Py_Trigger obj)"
    and ok: "buf_ok (l4_buf l)" and room: "unat (buf_pos (l4_buf l)) + unat n < 2 ^ 30"
    and rd: "os_read K (ct_socket ct) n w = (Some (x # xs), w1)" and len: "length (x # xs) \<le> unat n"
  shows "process_lvl4_data (Suc k) K (py_actions P) ct n (l, h, w) = Inl Python_exception"
proof -
  obtain p b1 where g: "buf_grow_by (os_junk K w) n (l4_buf l) = (p, b1)" by fastforce
  from grow_by_extends [OF ok room, of "os_junk K w"] g
  have b1: "buf_ok b1" "p = length (buf_contents (l4_buf l))" "length (buf_contents b1) = p + unat n" by auto
  then obtain b2 where "buf_write p (x # xs) b1 = Inr b2"
    using buf_write_contents [of b1 p "x # xs"] len length_buf_contents [OF b1(1)] by auto
  with g rd l python_trigger_raises [OF mod] show ?thesis
    by (simp add: process_lvl4_data_def trigger_process_buffer_def py_actions_def)
qed

text \<open>
  C36. A data trigger written in Python ends the scan: the first time data arrives on a connection
  that has one, the conversion of what its \<open>process_buffer\<close> returns raises, whatever it returns,
  and the exception leaves the main loop.
\<close>

theorem python_data_trigger_ends_scan:
  assumes mod: "follows_module P pynodescan_module" and act: "actions_of E = py_actions P"
    and l: "smap_find (lvl4_sms e) s = Some l" "l4_trigger l = Python_Data_Trigger (Py_Trigger obj)" "buf_ok (l4_buf l)"
    and t: "smap_find (sockets_targets e) s = Some t"
    and ev: "os_epoll_wait (kernel E) MAX_EVENTS (world e) = (Some ((s, EPOLLIN) # evs), w1)"
    and av: "os_fionread (kernel E) s w1 = (n, w2)" "unat (buf_pos (l4_buf l)) + unat n < 2 ^ 30"
    and rd: "os_read (kernel E) s n w2 = (Some (x # xs), w3)" "length (x # xs) \<le> unat n"
  shows "scan_loop (Suc k) (Suc pf) lf E e = Inl Python_exception"
proof -
  have "n \<noteq> 0" using rd(2) by auto
  moreover have "process_lvl4_data (Suc pf) (kernel E) (actions_of E) (Connected_Target s t) n (l, h, w2)
      = Inl Python_exception" for h
    unfolding act using python_trigger_data_raises [OF mod l(2,3) av(2)] rd by simp
  ultimately have "process_connected_ready (Suc pf) E s (e\<lparr>world := w1\<rparr>) = Inl Python_exception"
    using l(1) t av(1)
    by (auto simp: process_connected_ready_def target_from_socket_def get_lvl4_sm_def get_host_sm_def Let_def split: option.split)
  then show ?thesis using ev
    by (simp add: scan_round_def process_events_def process_event_def EPOLLOUT_def EPOLLIN_def)
qed

definition py_trigger_engine :: "(unit py_fn, unit, unit net) engine" where
  "py_trigger_engine = py_engine
     \<lparr>lvl4_sms := [(3, lvl4sm_set_python_data_trigger () (lvl4_sm_new 0))],
      world := (world py_engine)\<lparr>net_table := [(3, Some EPOLLIN, 0, [65])]\<rparr>\<rparr>"

theorem python_data_trigger_ends_scan_witness:
  "scan_loop (Suc 8) (Suc 8) 9 py_env py_trigger_engine = Inl Python_exception"
proof -
  let ?w1 = "(world py_trigger_engine)\<lparr>net_clock := 1\<rparr>"
  let ?w2 = "net_set 3 (Some EPOLLIN, 1, [65]) ?w1"
  have w1: "net_table (world py_trigger_engine) = [(3, Some EPOLLIN, 0, [65])]" by (simp add: py_trigger_engine_def)
  have ev: "os_epoll_wait (kernel py_env) MAX_EVENTS (world py_trigger_engine) = (Some [(3, EPOLLIN)], ?w1)"
    by (simp add: py_env_def py_set_env_def py_callbacks_def net_kernel_def net_epoll_wait_def net_ready_def net_get_def MAX_EVENTS_def
        py_trigger_engine_def py_engine_def async_engine_set_lvl4_connected_callback_def
        set_lvl4_connected_callback_def async_engine_new_def)
  have av: "os_fionread (kernel py_env) 3 ?w1 = (1, ?w2)"
    by (simp add: py_env_def py_set_env_def py_callbacks_def net_kernel_def net_fionread_def net_get_def w1)
  have rd: "os_read (kernel py_env) 3 1 ?w2 = (Some [65], net_set 3 (Some EPOLLIN, 1, []) ?w2)"
    by (simp add: py_env_def py_set_env_def py_callbacks_def net_kernel_def net_read_def net_get_set)
  have l: "smap_find (lvl4_sms py_trigger_engine) 3 = Some (lvl4sm_set_python_data_trigger () (lvl4_sm_new 0))"
    "smap_find (sockets_targets py_trigger_engine) 3 = Some (Target 1 (Port 80 0))"
    using py_engine_maps(2) by (simp_all add: py_trigger_engine_def)
  have b: "buf_ok (l4_buf (lvl4sm_set_python_data_trigger () (lvl4_sm_new 0)))"
    "buf_pos (l4_buf (lvl4sm_set_python_data_trigger () (lvl4_sm_new 0))) = 0"
    "l4_trigger (lvl4sm_set_python_data_trigger () (lvl4_sm_new 0)) = Python_Data_Trigger (Py_Trigger ())"
    by (simp_all add: lvl4sm_set_python_data_trigger_def set_trigger_def lvl4_sm_new_def lvl4_sm.defs
        state_machine.defs state_machine_new_def buf_new_def buf_ok_def)
  have "actions_of py_env = py_actions py_raiser" by (simp add: py_env_def py_set_env_def py_callbacks_def)
  then show ?thesis
    by (rule python_data_trigger_ends_scan [OF py_raiser_follows _ l(1) b(3,1) l(2) ev av _ rd]) (simp_all add: b(2))
qed

text \<open>
  The number of sockets given in Python wraps around at \<open>2^32\<close>: an engine made with that many has none.
\<close>

lemma python_sockets_wrap:
  "avail_socks (py_async_engine_init n tmo w) = 0 \<longleftrightarrow> unat n mod 2 ^ 32 = 0"
  by (simp add: py_async_engine_init_def async_engine_new_def word_unat_eq_iff unsigned_ucast_eq take_bit_eq_mod)

section \<open>A finish callback that raises\<close>

lemma raising_finish:
  assumes "\<forall>args w. fst (py_plain_call P f args w) = None"
  shows "throwing_finish (py_callbacks P E) (Py_Finish f)"
proof
  fix t b i w
  show "\<exists>x. call_finish (py_callbacks P E) (Py_Finish f) t b i w = Inl x"
  proof (cases "object_from_ro_mem 0 (unat (buf_pos b)) b")
    case (Inr mem)
    have "call_plain P f args w = Inl Python_exception" for args
      using assms [rule_format, of args w] by (auto simp: call_plain_def raised_def split: prod.split option.split)
    with Inr show ?thesis by (simp add: py_callbacks_def py_finish_callback_def py_extract_def)
  qed (simp add: py_callbacks_def py_finish_callback_def)
qed

text \<open>The interpreter \<open>P\<close> after a change that makes every call without a connection raise.\<close>

definition py_raising :: "('o, 'f, 'pl, 'w) python \<Rightarrow> ('o, 'f, 'pl, 'w) python" where
  "py_raising P = P\<lparr>py_plain_call := \<lambda>f args w. (None, w)\<rparr>"

lemma py_raising_raises: "\<forall>args w. fst (py_plain_call (py_raising P) f args w) = None"
  by (simp add: py_raising_def)

interpretation rf: throwing_finish "py_callbacks (py_raising P) E" "Py_Finish f" for P E f
  by (rule raising_finish [OF py_raising_raises])

text \<open>
  C30. When the finish callback registered from Python raises, the scan does not survive the first
  finished target: a scan that returns at all has finished none.
\<close>

theorem python_finish_raises:
  assumes "\<forall>args w. fst (py_plain_call P f args w) = None"
    and "launch sf pf lf (py_callbacks P E) (async_engine_set_lvl4_finish_callback f e) = Inr e'"
  shows "ndone e' = 0"
proof -
  from assms(2) obtain w where
    "do_async_scan sf pf lf (py_callbacks P E) ((async_engine_set_lvl4_finish_callback f e)\<lparr>world := w\<rparr>) = Inr e'"
    by (auto simp: launch_def init_scan_def bind_res_eq_Inr)
  then show ?thesis
    by (rule throwing_finish.scan_finishes_nothing [OF raising_finish [OF assms(1)], rotated])
      (simp add: async_engine_set_lvl4_finish_callback_def set_lvl4_finish_callback_def)
qed

definition py_empty_env :: "(unit py_fn, unit, unit net) env" where
  "py_empty_env = py_set_env\<lparr>ts_init := Inr, ts_next_target := \<lambda>w. Inr (Some (target_end 0), w)\<rparr>"

lemma py_empty_sel:
  "kernel (py_callbacks P py_empty_env) = net_kernel (\<lambda>ip. [])" "ts_init (py_callbacks P py_empty_env) = Inr"
  "ts_next_target (py_callbacks P py_empty_env) w = Inr (Some (target_end 0), w)"
  by (simp_all add: py_callbacks_def py_empty_env_def py_set_env_def)

definition py_idle_engine :: "(unit py_fn, unit, unit net) engine" where
  "py_idle_engine = async_engine_new 1 5
     \<lparr>net_clock = 0, net_table = [], net_sent = [], net_log = [], net_done = [], net_targets = ()\<rparr>"

theorem python_finish_raises_witness:
  "\<exists>e'. launch (Suc 0) 1 (Suc 0) (py_callbacks (py_raising py_raiser) py_empty_env)
       (async_engine_set_lvl4_finish_callback () py_idle_engine) = Inr e' \<and> ndone e' = 0"
proof -
  obtain e' where e': "launch (Suc 0) 1 (Suc 0) (py_callbacks (py_raising py_raiser) py_empty_env)
       (async_engine_set_lvl4_finish_callback () py_idle_engine) = Inr e'"
    by (simp add: launch_def init_scan_def do_async_scan_def process_free_socks_def scan_round_def process_events_def
        process_dirty_and_timeouts_def py_empty_sel net_kernel_def net_epoll_wait_def net_ready_def
        async_engine_set_lvl4_finish_callback_def set_lvl4_finish_callback_def async_engine_new_def py_idle_engine_def)
  with python_finish_raises [OF py_raising_raises e'] show ?thesis by blast
qed

end
