(* ===== verification/HTTP.thy ===== *)
theory HTTP
  imports Protocol_Base Target_File Engine
begin

text \<open>
  The HTTP client of \<open>tests/http.cpp\<close>, the program of the repository that combines both data
  triggers with the per-target storage: the header lines come through a \<open>CharDataTrigger\<close>, the length
  announced by them is kept in a \<open>Lvl4PropertiesStorage\<close>, and the content comes through a
  \<open>SizeDataTrigger\<close> of that length. The closures are the constructors of \<open>http_fn\<close>; the storage they
  capture and what the program prints are part of the world. Each message printed is one event.
\<close>

section \<open>The C library\<close>

text \<open>\<open>strcasecmp(a, b) == 0\<close> on the bytes before the terminating zero.\<close>

definition to_lower :: "u8 \<Rightarrow> u8" where
  "to_lower x = (if 65 \<le> x \<and> x \<le> 90 then x + 32 else x)"

definition strcase_eq :: "u8 list \<Rightarrow> u8 list \<Rightarrow> bool" where
  "strcase_eq a b = (map to_lower a = map to_lower b)"

definition is_space :: "u8 \<Rightarrow> bool" where
  "is_space x = (x = 32 \<or> 9 \<le> x \<and> x \<le> 13)"

text \<open>\<open>atoll\<close>: blanks, a sign, digits up to the first other byte; saturating, as \<open>strtoll\<close> is.\<close>

fun digits_value :: "int \<Rightarrow> u8 list \<Rightarrow> int" where
  "digits_value acc [] = acc"
| "digits_value acc (x # xs) = (if 48 \<le> x \<and> x \<le> 57 then digits_value (10 * acc + (uint x - 48)) xs else acc)"

definition atoll :: "u8 list \<Rightarrow> int" where
  "atoll s =
     (let s1 = dropWhile is_space s;
          v = (case s1 of
                 [] \<Rightarrow> 0
               | x # r \<Rightarrow> if x = 45 then - digits_value 0 r else if x = 43 then digits_value 0 r else digits_value 0 s1)
      in max (- (2 ^ 63)) (min (2 ^ 63 - 1) v))"

section \<open>The program\<close>

datatype http_fn = Http_Connected | Http_Line | Http_Content

datatype http_event =
    Empty_Line u16
  | Received "u8 list" u16
  | No_Content_Length
  | Invalid_Header
  | Content "u8 list"

record http_world =
  hw_props :: "u32 storage"
  hw_out :: "http_event list"

definition http_print :: "http_event \<Rightarrow> 'a http_world_scheme \<Rightarrow> 'a http_world_scheme" where
  "http_print ev w = w\<lparr>hw_out := hw_out w @ [ev]\<rparr>"

definition http_request :: "u8 list" where
  "http_request = bytes_of (''GET / HTTP/1.0'' @ [CHR 0x0A, CHR 0x0A])"

definition content_length_name :: "u8 list" where
  "content_length_name = bytes_of ''Content-length''"

text \<open>The end of the line callback, for a line with a colon at \<open>dpts\<close>.\<close>

definition http_header ::
  "(port \<Rightarrow> u32) \<Rightarrow> connected_target \<Rightarrow> nat \<Rightarrow> nat \<Rightarrow> u32 \<Rightarrow> (http_fn, 'pl, 'a http_world_scheme) conn
     \<Rightarrow> (bool \<times> (http_fn, 'pl, 'a http_world_scheme) conn) res"
where
  "http_header as_u32 ct off dpts n c =
     (case c of (l, h, w) \<Rightarrow>
        bind_res (buf_write (off + dpts) [0] (l4_buf l)) (\<lambda>b1.
        bind_res (c_string off b1) (\<lambda>key.
          if strcase_eq key content_length_name then
            bind_res (buf_write (off + unat n) [0] b1) (\<lambda>b2.
            bind_res (c_string (off + dpts + 1) b2) (\<lambda>val.
              Inr (True, l\<lparr>l4_buf := b2\<rparr>, h,
                   w\<lparr>hw_props := storage_write as_u32 (ct_target ct) (word_of_int (atoll val)) (hw_props w)\<rparr>)))
          else Inr (True, l\<lparr>l4_buf := b1\<rparr>, h, w))))"

definition http_line ::
  "(port \<Rightarrow> u32) \<Rightarrow> connected_target \<Rightarrow> nat \<Rightarrow> u32 \<Rightarrow> (http_fn, 'pl, 'a http_world_scheme) conn
     \<Rightarrow> (bool \<times> (http_fn, 'pl, 'a http_world_scheme) conn) res"
where
  "http_line as_u32 ct off sz c =
     (case c of (l, h, w) \<Rightarrow>
        let port = port_value (ct_target ct) in
        if sz = 0 then Inr (True, l, h, http_print (Empty_Line port) w)
        else bind_res (buf_read (off + unat sz - 1) (l4_buf l)) (\<lambda>last.
          let n = (if last = 13 then sz - 1 else sz) in
          bind_res (buf_bytes off (unat n) (l4_buf l)) (\<lambda>line.
          let w1 = http_print (Received line port) w in
          if n = 0 then
            let (content_length, m) = properties_of as_u32 (\<lambda>_. 0) (ct_target ct) (hw_props w1);
                w2 = w1\<lparr>hw_props := m\<rparr>
            in if content_length = 0 then Inr (False, l, h, http_print No_Content_Length w2)
               else Inr (True, set_trigger (Size_Data_Trigger (Some Http_Content) content_length) l, h, w2)
          else bind_res (buf_memchr off 58 (unat n) (l4_buf l)) (\<lambda>dpts.
            case dpts of
              None \<Rightarrow>
                bind_res (if n \<ge> 4 then buf_memeq off (bytes_of ''HTTP'') (l4_buf l) else Inr False) (\<lambda>status.
                  if status then Inr (True, l, h, w1) else Inr (False, l, h, http_print Invalid_Header w1))
            | Some d \<Rightarrow> http_header as_u32 ct off d n (l, h, w1)))))"

definition http_content ::
  "nat \<Rightarrow> u32 \<Rightarrow> (http_fn, 'pl, 'a http_world_scheme) conn \<Rightarrow> (bool \<times> (http_fn, 'pl, 'a http_world_scheme) conn) res"
where
  "http_content off n c =
     (case c of (l, h, w) \<Rightarrow>
        bind_res (buf_bytes off (unat n) (l4_buf l)) (\<lambda>bs. Inr (False, l, h, http_print (Content bs) w)))"

definition http_connected ::
  "'a http_world_scheme os \<Rightarrow> (port \<Rightarrow> u32) \<Rightarrow> connected_target \<Rightarrow> (http_fn, 'pl, 'a http_world_scheme) conn
     \<Rightarrow> (bool \<times> (http_fn, 'pl, 'a http_world_scheme) conn) res"
where
  "http_connected K as_u32 ct c =
     (case c of (l, h, w) \<Rightarrow>
        let w1 = snd (ct_send K ct http_request w);
            w2 = w1\<lparr>hw_props := storage_write as_u32 (ct_target ct) 0 (hw_props w1)\<rparr>
        in Inr (True, set_trigger (Char_Data_Trigger (Some Http_Line) 10) l, h, w2))"

definition http_actions ::
  "'a http_world_scheme os \<Rightarrow> (port \<Rightarrow> u32) \<Rightarrow> (http_fn, 'pl, 'a http_world_scheme) actions" where
  "http_actions K as_u32 =
     \<lparr>act_data = (\<lambda>f ct off sz c. case f of
          Http_Line \<Rightarrow> http_line as_u32 ct off sz c
        | Http_Content \<Rightarrow> http_content off sz c
        | Http_Connected \<Rightarrow> Inl Bad_function_call),
      act_connect = (\<lambda>f ct c. case f of Http_Connected \<Rightarrow> http_connected K as_u32 ct c | _ \<Rightarrow> Inl Bad_function_call),
      act_python = (\<lambda>f ct p c. Inl Bad_function_call)\<rparr>"

text \<open>The engine of \<open>main\<close>, with the default number of sockets and timeout.\<close>

definition http_engine :: "'w \<Rightarrow> (http_fn, 'pl, 'w) engine" where
  "http_engine w = set_lvl4_connected_callback (Some Http_Connected) (async_engine_new 1000 5 w)"

section \<open>What an answer means\<close>

text \<open>A line without its line feed, and what it stands for.\<close>

datatype http_kind =
    Hdr_Empty
  | Hdr_End
  | Hdr_Skip "u8 list"
  | Hdr_Length "u8 list" u32
  | Hdr_Invalid "u8 list"

definition strip_cr :: "u8 list \<Rightarrow> u8 list" where
  "strip_cr f = (if f \<noteq> [] \<and> last f = 13 then butlast f else f)"

definition http_kind_of :: "u8 list \<Rightarrow> http_kind" where
  "http_kind_of f =
     (if f = [] then Hdr_Empty
      else let line = strip_cr f in
        if line = [] then Hdr_End
        else case find_byte 58 line of
            None \<Rightarrow> if take 4 line = bytes_of ''HTTP'' then Hdr_Skip line else Hdr_Invalid line
          | Some d \<Rightarrow>
              if strcase_eq (c_str (take d line)) content_length_name
              then Hdr_Length line (word_of_int (atoll (c_str (drop (d + 1) line))))
              else Hdr_Skip line)"

text \<open>
  What the client makes of received bytes: whether it goes on, the trigger it waits with, the length
  announced so far, the bytes left and what it prints.
\<close>

datatype http_wait = For_Line | For_Content u32

function http_read :: "u16 \<Rightarrow> u32 \<Rightarrow> u8 list \<Rightarrow> bool \<times> http_wait \<times> u32 \<times> u8 list \<times> http_event list" where
  "http_read port len bs =
     (case find_byte 10 bs of
        None \<Rightarrow> (True, For_Line, len, bs, [])
      | Some i \<Rightarrow>
          let rest = drop (i + 1) bs;
              go = (\<lambda>n ev. case http_read port n rest of (r, wt, m, lft, evs) \<Rightarrow> (r, wt, m, lft, ev # evs))
          in case http_kind_of (take i bs) of
               Hdr_Empty \<Rightarrow> go len (Empty_Line port)
             | Hdr_Skip line \<Rightarrow> go len (Received line port)
             | Hdr_Length line n \<Rightarrow> go n (Received line port)
             | Hdr_Invalid line \<Rightarrow> (False, For_Line, len, rest, [Received line port, Invalid_Header])
             | Hdr_End \<Rightarrow>
                 if len = 0 then (False, For_Line, len, rest, [Received [] port, No_Content_Length])
                 else if length rest < unat len then (True, For_Content len, len, rest, [Received [] port])
                 else (False, For_Content len, len, drop (unat len) rest, [Received [] port, Content (take (unat len) rest)]))"
  by pat_completeness auto
termination by (relation "measure (\<lambda>(port, len, bs). length bs)") (auto simp: find_byte_Some)

declare http_read.simps [simp del]

section \<open>The line callback\<close>

definition http_react ::
  "(port \<Rightarrow> u32) \<Rightarrow> connected_target \<Rightarrow> u32 \<Rightarrow> http_kind \<Rightarrow> (http_fn, 'pl, 'a http_world_scheme) conn
     \<Rightarrow> bool \<times> (http_fn, 'pl, 'a http_world_scheme) conn"
where
  "http_react as_u32 ct len k c =
     (case c of (l, h, w) \<Rightarrow>
        let got = (\<lambda>line. http_print (Received line (port_value (ct_target ct))) w) in
        case k of
          Hdr_Empty \<Rightarrow> (True, l, h, http_print (Empty_Line (port_value (ct_target ct))) w)
        | Hdr_Skip line \<Rightarrow> (True, l, h, got line)
        | Hdr_Length line n \<Rightarrow>
            (True, l, h, (got line)\<lparr>hw_props := storage_write as_u32 (ct_target ct) n (hw_props w)\<rparr>)
        | Hdr_Invalid line \<Rightarrow> (False, l, h, http_print Invalid_Header (got line))
        | Hdr_End \<Rightarrow>
            if len = 0 then (False, l, h, http_print No_Content_Length (got []))
            else (True, set_trigger (Size_Data_Trigger (Some Http_Content) len) l, h, got []))"

lemma http_header_eq:
  assumes ok: "buf_ok (l4_buf l)" and c: "buf_contents (l4_buf l) = ks @ 58 # vs @ y # tail"
    and n: "unat n = length ks + length vs + 1"
  shows "\<exists>b. buf_ok b \<and> buf_pos b = buf_pos (l4_buf l) \<and> drop (unat n + 1) (buf_contents b) = tail
    \<and> http_header as_u32 ct 0 (length ks) n (l, h, w) = Inr (True, l\<lparr>l4_buf := b\<rparr>, h,
        if strcase_eq (c_str ks) content_length_name
        then w\<lparr>hw_props := storage_write as_u32 (ct_target ct) (word_of_int (atoll (c_str vs))) (hw_props w)\<rparr> else w)"
proof -
  obtain b1 where b1: "buf_write (length ks) [0] (l4_buf l) = Inr b1" "buf_ok b1"
    "buf_pos b1 = buf_pos (l4_buf l)" "buf_contents b1 = ks @ 0 # vs @ y # tail"
    using buf_write_at [OF ok c refl] by blast
  have key: "c_string 0 b1 = Inr (c_str ks)" using c_string_at [OF b1(2), of "[]" ks] b1(4) by simp
  have c1: "buf_contents b1 = (ks @ 0 # vs) @ y # tail" and n': "unat n = length (ks @ 0 # vs)" using b1(4) n by simp_all
  obtain b2 where b2: "buf_write (unat n) [0] b1 = Inr b2" "buf_ok b2" "buf_pos b2 = buf_pos (l4_buf l)"
    "buf_contents b2 = (ks @ 0 # vs) @ 0 # tail"
    using buf_write_at [OF b1(2) c1 n'] b1(3) by auto
  have val: "c_string (length ks + 1) b2 = Inr (c_str vs)"
    using c_string_at [OF b2(2), of "ks @ [0]" vs] b2(4) by simp
  show ?thesis
  proof (cases "strcase_eq (c_str ks) content_length_name")
    case True
    with b1(1) b2 key val n show ?thesis by (intro exI [of _ b2]) (simp add: http_header_def)
  next
    case False
    with b1 key n show ?thesis by (intro exI [of _ b1]) (simp add: http_header_def)
  qed
qed

text \<open>The line callback on a line that the trigger delivered: the separator is still behind it.\<close>

lemma http_line_eq:
  assumes ok: "buf_ok (l4_buf l)" and c: "buf_contents (l4_buf l) = frame @ x # rest" and sz: "unat sz = length frame"
    and len: "smap_find (hw_props w) (target_key as_u32 (ct_target ct)) = Some len"
  shows "\<exists>b. buf_ok b \<and> buf_pos b = buf_pos (l4_buf l) \<and> drop (length frame + 1) (buf_contents b) = rest
    \<and> http_line as_u32 ct 0 sz (l, h, w) = Inr (http_react as_u32 ct len (http_kind_of frame) (l\<lparr>l4_buf := b\<rparr>, h, w))"
proof (cases frame rule: rev_cases)
  case Nil
  then have "sz = 0" using sz by (simp add: unat_eq_zero)
  with ok c Nil show ?thesis
    by (intro exI [of _ "l4_buf l"]) (simp add: http_line_def http_react_def http_kind_of_def Let_def)
next
  case (snoc fs z)
  let ?line = "strip_cr frame" and ?n = "if z = 13 then sz - 1 else sz"
  have sz0: "sz \<noteq> 0" "unat (sz - 1) = length fs" using sz snoc by (auto simp: unat_sub word_le_nat_alt)
  have n: "unat ?n = length ?line" using sz sz0(2) snoc by (simp add: strip_cr_def)
  have n0: "?n = 0 \<longleftrightarrow> ?line = []" unfolding unat_eq_zero [symmetric] n by simp
  obtain y tail where y: "buf_contents (l4_buf l) = ?line @ y # tail" "drop (length frame - length ?line) tail = rest"
  proof (cases "z = 13")
    case True
    with that [of 13 "x # rest"] c snoc show thesis by (simp add: strip_cr_def)
  next
    case False
    with that [of x rest] c snoc show thesis by (simp add: strip_cr_def)
  qed
  have rd: "buf_read (unat sz - 1) (l4_buf l) = Inr z"
    using buf_read_at [OF ok, of fs z "x # rest"] c sz snoc by simp
  have bt: "buf_bytes 0 (unat ?n) (l4_buf l) = Inr ?line"
    using buf_bytes_at [OF ok, of "[]" ?line "y # tail"] y(1) n by simp
  have pos: "unat (buf_pos (l4_buf l)) = length ?line + 1 + length tail"
    using length_buf_contents [OF ok] y(1) by simp
  have mc: "buf_memchr 0 58 (unat ?n) (l4_buf l) = Inr (find_byte 58 ?line)"
    using memchr_contents [OF ok, of 0 "unat ?n" 58] pos n y(1) by simp
  have mv: "(if ?n \<ge> 4 then buf_memeq 0 (bytes_of ''HTTP'') (l4_buf l) else Inr False)
      = Inr (take 4 ?line = bytes_of ''HTTP'')"
  proof -
    have h: "length (bytes_of ''HTTP'') = 4" "bytes_of ''HTTP'' \<noteq> []" by (simp_all add: bytes_of_def)
    show ?thesis
    proof (cases "4 \<le> length ?line")
      case True
      with memeq_contents [OF ok, of 0 "bytes_of ''HTTP''"] pos y(1) n h show ?thesis by (simp add: word_le_nat_alt)
    next
      case False
      then have "take 4 ?line \<noteq> bytes_of ''HTTP''" using h(1) by (metis length_take min.cobounded1)
      with False n show ?thesis by (simp add: word_le_nat_alt)
    qed
  qed
  have le: "length ?line \<le> length frame" by (simp add: strip_cr_def)
  note unf = http_line_def http_react_def http_kind_of_def properties_of_def Let_def
  show ?thesis
  proof (cases "find_byte 58 ?line")
    case None
    then show ?thesis using ok c sz0 snoc rd bt mc mv n0 len
      by (intro exI [of _ "l4_buf l"]) (auto simp: unf http_print_def)
  next
    case (Some d)
    then have d: "d < length ?line" "?line ! d = 58" by (simp_all add: find_byte_Some)
    then have line: "?line = take d ?line @ 58 # drop (d + 1) ?line" by (metis id_take_nth_drop Suc_eq_plus1)
    have c': "buf_contents (l4_buf l) = take d ?line @ 58 # drop (d + 1) ?line @ y # tail"
      using y(1) by (subst (asm) line) simp
    have n': "unat ?n = length (take d ?line) + length (drop (d + 1) ?line) + 1" using n d(1) by simp
    let ?w = "http_print (Received ?line (port_value (ct_target ct))) w"
    from http_header_eq [OF ok c' n', of as_u32 ct h ?w] d(1) obtain b where
      b: "buf_ok b" "buf_pos b = buf_pos (l4_buf l)" "drop (unat ?n + 1) (buf_contents b) = tail"
      "http_header as_u32 ct 0 d ?n (l, h, ?w) = Inr (True, l\<lparr>l4_buf := b\<rparr>, h,
        if strcase_eq (c_str (take d ?line)) content_length_name
        then ?w\<lparr>hw_props := storage_write as_u32 (ct_target ct) (word_of_int (atoll (c_str (drop (d + 1) ?line)))) (hw_props ?w)\<rparr>
        else ?w)" by auto
    have "drop (length frame + 1) (buf_contents b) = drop (length frame - length ?line) (drop (unat ?n + 1) (buf_contents b))"
      using n le by simp
    with b(3) y(2) have "drop (length frame + 1) (buf_contents b) = rest" by simp
    then show ?thesis using ok sz0 snoc rd bt mc n0 d(1) Some b
      by (intro exI [of _ b]) (auto simp: unf http_print_def)
  qed
qed

section \<open>Scanning an answer\<close>

lemma http_round:
  assumes ok: "buf_ok (l4_buf l)" and t: "l4_trigger l = Char_Data_Trigger (Some Http_Line) 10"
    and i: "find_byte 10 (buf_contents (l4_buf l)) = Some i"
    and len: "smap_find (hw_props w) (target_key as_u32 (ct_target ct)) = Some len"
  shows "\<exists>b b'. buf_ok b \<and> buf_ok b' \<and> buf_contents b' = drop (i + 1) (buf_contents (l4_buf l))
    \<and> buf_pop_by (of_nat (i + 1)) b = Inr b'
    \<and> trigger_process_buffer (http_actions K as_u32) ct 0 (l, h, w) = trigger_finish (of_nat (i + 1))
        (http_react as_u32 ct len (http_kind_of (take i (buf_contents (l4_buf l)))) (l\<lparr>l4_buf := b\<rparr>, h, w))"
proof -
  let ?c = "buf_contents (l4_buf l)"
  have lt: "i < length ?c" "?c ! i = 10" using i by (simp_all add: find_byte_Some)
  have len_c: "length ?c = unat (buf_pos (l4_buf l))" using ok by (rule length_buf_contents)
  then have "length ?c < 1073741824" using buf_ok_pos_less [OF ok] by simp
  with lt(1) have u: "unat (of_nat i :: u32) = i" "unat (of_nat (i + 1) :: u32) = i + 1"
    by (intro unat_of_nat_u32; linarith)+
  have split: "?c = take i ?c @ 10 # drop (i + 1) ?c" using id_take_nth_drop [OF lt(1)] lt(2) by simp
  have fl: "length (take i ?c) = i" using lt(1) by simp
  from http_line_eq [OF ok split, of "of_nat i", OF _ len, of h] u(1) fl obtain b where
    b: "buf_ok b" "buf_pos b = buf_pos (l4_buf l)" "drop (i + 1) (buf_contents b) = drop (i + 1) ?c"
    "http_line as_u32 ct 0 (of_nat i) (l, h, w) = Inr (http_react as_u32 ct len (http_kind_of (take i ?c)) (l\<lparr>l4_buf := b\<rparr>, h, w))"
    by auto
  have "of_nat (i + 1) \<le> buf_pos b" using u lt len_c b(2) by (simp add: word_le_nat_alt del: of_nat_add)
  from buf_pop_by_spec [OF b(1) this] obtain b' where
    "buf_pop_by (of_nat (i + 1)) b = Inr b'" "buf_ok b'" "buf_contents b' = drop (i + 1) ?c"
    using b(3) u(2) by auto
  with b(1,4) t i show ?thesis
    by (intro exI [of _ b] exI [of _ b'])
      (simp add: trigger_process_buffer_def char_trigger_process_def find_byte_from_0 http_actions_def del: of_nat_add)
qed

text \<open>The trigger a client waits with.\<close>

definition http_trigger :: "http_wait \<Rightarrow> http_fn trigger" where
  "http_trigger wt =
     (case wt of For_Line \<Rightarrow> Char_Data_Trigger (Some Http_Line) 10
      | For_Content n \<Rightarrow> Size_Data_Trigger (Some Http_Content) n)"

definition http_result ::
  "(port \<Rightarrow> u32) \<Rightarrow> connected_target \<Rightarrow> 'a http_world_scheme \<Rightarrow> bool \<times> http_wait \<times> u32 \<times> u8 list \<times> http_event list
     \<Rightarrow> bool \<Rightarrow> http_fn lvl4_sm \<Rightarrow> 'a http_world_scheme \<Rightarrow> bool"
where
  "http_result as_u32 ct w spec r l' w' \<longleftrightarrow>
     (case spec of (r0, wt, n, lft, evs) \<Rightarrow>
        r = r0 \<and> l4_trigger l' = http_trigger wt \<and> buf_ok (l4_buf l')
        \<and> (r \<longrightarrow> buf_contents (l4_buf l') = lft)
        \<and> hw_out w' = hw_out w @ evs \<and> smap_find (hw_props w') (target_key as_u32 (ct_target ct)) = Some n
        \<and> http_world.more w' = http_world.more w)"

lemma http_content_loop:
  assumes ok: "buf_ok (l4_buf l)" and t: "l4_trigger l = Size_Data_Trigger (Some Http_Content) len"
  shows "process_loop (Suc fuel) (http_actions K as_u32) ct 0 (l, h, w) =
    (if length (buf_contents (l4_buf l)) < unat len then Inr (True, l, h, w)
     else Inr (False, l, h, http_print (Content (take (unat len) (buf_contents (l4_buf l)))) w))"
  using length_buf_contents [OF ok] buf_bytes_contents [OF ok, of 0 "unat len"] t
  by (auto simp: trigger_process_buffer_def size_trigger_process_def http_actions_def http_content_def trigger_finish_def
      word_less_nat_alt)

lemma http_loop_reads:
  "buf_ok (l4_buf l) \<Longrightarrow> length (buf_contents (l4_buf l)) + 1 < fuel \<Longrightarrow> l4_trigger l = Char_Data_Trigger (Some Http_Line) 10 \<Longrightarrow>
   smap_find (hw_props w) (target_key as_u32 (ct_target ct)) = Some len \<Longrightarrow>
   \<exists>r l' w'. process_loop fuel (http_actions K as_u32) ct 0 (l, h, w) = Inr (r, l', h, w')
     \<and> http_result as_u32 ct w (http_read (port_value (ct_target ct)) len (buf_contents (l4_buf l))) r l' w'"
proof (induction fuel arbitrary: l w len)
  case (Suc fuel)
  let ?c = "buf_contents (l4_buf l)" and ?p = "port_value (ct_target ct)"
  note rd = http_read.simps [of ?p len ?c]
  show ?case
  proof (cases "find_byte 10 ?c")
    case None
    then have "quiescent l" using Suc.prems(3) by (simp add: quiescent_def)
    with Suc.prems None show ?thesis
      by (auto simp: trigger_quiescent rd http_result_def http_trigger_def)
  next
    case (Some i)
    from http_round [OF Suc.prems(1,3) Some Suc.prems(4), of K h] obtain b b' where
      r: "buf_ok b'" "buf_contents b' = drop (i + 1) ?c" "buf_pop_by (of_nat (i + 1)) b = Inr b'"
      "trigger_process_buffer (http_actions K as_u32) ct 0 (l, h, w) = trigger_finish (of_nat (i + 1))
        (http_react as_u32 ct len (http_kind_of (take i ?c)) (l\<lparr>l4_buf := b\<rparr>, h, w))" "buf_ok b" by blast
    have less: "length (buf_contents b') + 1 < fuel" using r(2) Suc.prems(2) Some by (auto simp: find_byte_Some)
    have go: ?thesis
      if "http_react as_u32 ct len (http_kind_of (take i ?c)) (l\<lparr>l4_buf := b\<rparr>, h, w) = (True, l\<lparr>l4_buf := b\<rparr>, h, w1)"
        and "hw_out w1 = hw_out w @ [ev]" "smap_find (hw_props w1) (target_key as_u32 (ct_target ct)) = Some n"
        "http_world.more w1 = http_world.more w"
        and "http_read ?p len ?c = (case http_read ?p n (drop (i + 1) ?c) of (r, wt, m, lft, evs) \<Rightarrow> (r, wt, m, lft, ev # evs))"
      for w1 ev n
    proof -
      from Suc.IH [of "l\<lparr>l4_buf := b'\<rparr>" w1 n] r(1) less Suc.prems(3) that(3) obtain q l' w' where
        q: "process_loop fuel (http_actions K as_u32) ct 0 (l\<lparr>l4_buf := b'\<rparr>, h, w1) = Inr (q, l', h, w')"
        "http_result as_u32 ct w1 (http_read ?p n (drop (i + 1) ?c)) q l' w'" using r(2) by auto
      have "process_loop (Suc fuel) (http_actions K as_u32) ct 0 (l, h, w) = Inr (q, l', h, w')"
        using r(3,4) that(1) q(1) by (simp add: trigger_finish_def del: of_nat_add)
      moreover have "http_result as_u32 ct w (http_read ?p len ?c) q l' w'"
        using q(2) that(2,4,5) by (auto simp: http_result_def split: prod.splits)
      ultimately show ?thesis by blast
    qed
    have stop: ?thesis
      if "http_react as_u32 ct len (http_kind_of (take i ?c)) (l\<lparr>l4_buf := b\<rparr>, h, w) = (False, l\<lparr>l4_buf := b\<rparr>, h, w1)"
        and "http_result as_u32 ct w (http_read ?p len ?c) False (l\<lparr>l4_buf := b\<rparr>) w1" for w1
      using that r(4) by (intro exI [of _ False] exI [of _ "l\<lparr>l4_buf := b\<rparr>"] exI [of _ w1]) (simp add: trigger_finish_def)
    show ?thesis
    proof (cases "http_kind_of (take i ?c)")
      case Hdr_Empty
      with Suc.prems(4) show ?thesis
        by (intro go [of "http_print (Empty_Line ?p) w"]) (simp_all add: http_react_def http_print_def rd Some)
    next
      case (Hdr_Skip line)
      with Suc.prems(4) show ?thesis
        by (intro go [of "http_print (Received line ?p) w"]) (simp_all add: http_react_def http_print_def rd Some)
    next
      case (Hdr_Length line n)
      then show ?thesis
        by (intro go [of "(http_print (Received line ?p) w)\<lparr>hw_props := storage_write as_u32 (ct_target ct) n (hw_props w)\<rparr>"])
          (simp_all add: http_react_def http_print_def rd Some storage_write_def smap_put_find)
    next
      case (Hdr_Invalid line)
      with r(5) Suc.prems(3,4) show ?thesis
        by (intro stop [of "http_print Invalid_Header (http_print (Received line ?p) w)"])
          (simp_all add: http_react_def http_print_def rd Some http_result_def http_trigger_def)
    next
      case Hdr_End
      show ?thesis
      proof (cases "len = 0")
        case True
        with Hdr_End r(5) Suc.prems(3,4) show ?thesis
          by (intro stop [of "http_print No_Content_Length (http_print (Received [] ?p) w)"])
            (simp_all add: http_react_def http_print_def http_read.simps [of ?p 0] Some http_result_def http_trigger_def)
      next
        case False
        obtain k where k: "fuel = Suc k" using less by (cases fuel) auto
        let ?l = "set_trigger (Size_Data_Trigger (Some Http_Content) len) l\<lparr>l4_buf := b'\<rparr>"
        have "process_loop (Suc fuel) (http_actions K as_u32) ct 0 (l, h, w) =
            process_loop fuel (http_actions K as_u32) ct 0 (?l, h, http_print (Received [] ?p) w)"
          using r(3,4) Hdr_End False
          by (simp add: http_react_def trigger_finish_def set_trigger_def del: of_nat_add)
        then have eq: "process_loop (Suc fuel) (http_actions K as_u32) ct 0 (l, h, w) =
            (if length (drop (i + 1) ?c) < unat len then Inr (True, ?l, h, http_print (Received [] ?p) w)
             else Inr (False, ?l, h, http_print (Content (take (unat len) (drop (i + 1) ?c))) (http_print (Received [] ?p) w)))"
          using http_content_loop [of ?l len k K as_u32 ct h "http_print (Received [] ?p) w"] k r(1,2)
          by (simp add: set_trigger_def del: process_loop.simps)
        show ?thesis
        proof (cases "length (drop (i + 1) ?c) < unat len")
          case True
          with eq False Hdr_End r(1,2) Suc.prems(4) show ?thesis
            by (auto simp: rd Some http_result_def http_trigger_def set_trigger_def http_print_def simp del: process_loop.simps)
        next
          case nl: False
          with eq False Hdr_End r(1,2) Suc.prems(4) show ?thesis
            by (auto simp: rd Some http_result_def http_trigger_def set_trigger_def http_print_def simp del: process_loop.simps)
        qed
      qed
    qed
  qed
qed simp

text \<open>
  C15. The HTTP client reads what \<open>http_read\<close> says, on every sequence of bytes: it never faults, ends
  within one round per byte, prints the lines and the content in order, and when it goes on it waits
  with the right trigger for the bytes not used so far.
\<close>

theorem http_answer:
  assumes "buf_ok (l4_buf l)" and "length (buf_contents (l4_buf l)) + 1 < fuel"
    and "l4_trigger l = Char_Data_Trigger (Some Http_Line) 10"
    and "smap_find (hw_props w) (target_key as_u32 (ct_target ct)) = Some len"
  shows "\<exists>r l' w'. process_buffer fuel (http_actions K as_u32) ct (l, h, w) = Inr (r, l', h, w')
    \<and> http_result as_u32 ct w (http_read (port_value (ct_target ct)) len (buf_contents (l4_buf l))) r l' w'"
  unfolding process_buffer_def using assms by (rule http_loop_reads)

section \<open>Well-formed answers\<close>

text \<open>The length that header lines announce: the last one counts.\<close>

fun announced :: "u32 \<Rightarrow> u8 list list \<Rightarrow> u32" where
  "announced n [] = n"
| "announced n (x # xs) = announced (case http_kind_of (x @ [13]) of Hdr_Length _ m \<Rightarrow> m | _ \<Rightarrow> n) xs"

definition header_line :: "u8 list \<Rightarrow> bool" where
  "header_line x \<longleftrightarrow> x \<noteq> [] \<and> 10 \<notin> set x \<and> (58 \<in> set x \<or> take 4 x = bytes_of ''HTTP'')"

definition http_message :: "u8 list list \<Rightarrow> u8 list \<Rightarrow> u8 list" where
  "http_message hs body = concat (map (\<lambda>x. x @ [13, 10]) hs) @ [13, 10] @ body"

lemma header_line_kind:
  assumes "header_line x"
  shows "http_kind_of (x @ [13]) = Hdr_Skip x \<or> (\<exists>n. http_kind_of (x @ [13]) = Hdr_Length x n)"
  using assms by (auto simp: header_line_def http_kind_of_def strip_cr_def split: option.split)

lemma http_read_skip:
  assumes "find_byte 10 bs = Some i" and "http_kind_of (take i bs) = Hdr_Skip line"
  shows "http_read port len bs =
    (case http_read port len (drop (i + 1) bs) of (r, wt, m, lft, evs) \<Rightarrow> (r, wt, m, lft, Received line port # evs))"
  using assms by (subst http_read.simps) simp

lemma http_read_length:
  assumes "find_byte 10 bs = Some i" and "http_kind_of (take i bs) = Hdr_Length line n"
  shows "http_read port len bs =
    (case http_read port n (drop (i + 1) bs) of (r, wt, m, lft, evs) \<Rightarrow> (r, wt, m, lft, Received line port # evs))"
  using assms by (subst http_read.simps) simp

lemma http_read_message:
  "(\<forall>x\<in>set hs. header_line x) \<Longrightarrow> announced len hs \<noteq> 0 \<Longrightarrow> unat (announced len hs) = length body \<Longrightarrow>
   http_read port len (http_message hs body @ rest) =
     (False, For_Content (announced len hs), announced len hs, rest,
      map (\<lambda>x. Received x port) hs @ [Received [] port, Content body])"
proof (induction hs arbitrary: len)
  case Nil
  have "http_kind_of [13] = Hdr_End" by (simp add: http_kind_of_def strip_cr_def)
  with Nil show ?case
    by (subst http_read.simps) (simp add: http_message_def)
next
  case (Cons x hs)
  have hl: "header_line x" and nl: "10 \<notin> set x" using Cons.prems(1) by (auto simp: header_line_def)
  have m: "http_message (x # hs) body @ rest = (x @ [13]) @ 10 # (http_message hs body @ rest)" by (simp add: http_message_def)
  have f: "find_byte 10 (http_message (x # hs) body @ rest) = Some (length x + 1)"
    unfolding m using nl by (simp add: find_byte_append)
  have IH: "http_read port n (http_message hs body @ rest) = (False, For_Content (announced n hs), announced n hs, rest,
      map (\<lambda>x. Received x port) hs @ [Received [] port, Content body])"
    if "announced n hs = announced len (x # hs)" for n
    using Cons.IH [of n] Cons.prems that by simp
  have td: "take (length x + 1) (http_message (x # hs) body @ rest) = x @ [13]"
    "drop (length x + 1 + 1) (http_message (x # hs) body @ rest) = http_message hs body @ rest"
    unfolding m by simp_all
  from header_line_kind [OF hl] show ?case
  proof (elim disjE exE)
    assume "http_kind_of (x @ [13]) = Hdr_Skip x"
    with IH [of len] http_read_skip [OF f, unfolded td] show ?thesis by simp
  next
    fix n assume "http_kind_of (x @ [13]) = Hdr_Length x n"
    with IH [of n] http_read_length [OF f, unfolded td] show ?thesis by simp
  qed
qed

fun decimal :: "nat \<Rightarrow> u8 list" where
  "decimal n = (if n < 10 then [of_nat (48 + n)] else decimal (n div 10) @ [of_nat (48 + n mod 10)])"

declare decimal.simps [simp del]

lemma digit_byte: "d < 10 \<Longrightarrow> uint (of_nat (48 + d) :: u8) = 48 + int d"
  using take_bit_nat_eq_self [of "48 + d" 8] by (simp add: unsigned_of_nat del: of_nat_add)

lemma digits_value_append:
  "\<forall>x\<in>set xs. 48 \<le> x \<and> x \<le> 57 \<Longrightarrow> digits_value acc (xs @ ys) = digits_value (digits_value acc xs) ys"
  by (induction xs arbitrary: acc) auto

lemma decimal_digits: "x \<in> set (decimal n) \<Longrightarrow> 48 \<le> x \<and> x \<le> 57"
proof (induction n rule: decimal.induct)
  case (1 n)
  have d: "48 \<le> (of_nat (48 + d) :: u8) \<and> (of_nat (48 + d) :: u8) \<le> 57" if "d < 10" for d
    using digit_byte [OF that] that by (simp add: word_le_def)
  show ?case
    using 1 d [of n] d [of "n mod 10"] by (auto simp: decimal.simps [of n] split: if_splits)
qed

lemma digits_value_decimal: "digits_value 0 (decimal n) = int n"
proof (induction n rule: decimal.induct)
  case (1 n)
  have one: "digits_value acc [of_nat (48 + d)] = 10 * acc + int d" if "d < 10" for acc d
    using digit_byte [OF that] that by (simp add: word_le_def)
  show ?case
  proof (cases "n < 10")
    case True
    then show ?thesis using one [of n 0] by (simp add: decimal.simps [of n])
  next
    case False
    then have "digits_value 0 (decimal n) = 10 * int (n div 10) + int (n mod 10)"
      using 1 one [of "n mod 10"] decimal_digits [of _ "n div 10"]
      by (simp add: decimal.simps [of n] digits_value_append del: of_nat_add)
    then show ?thesis by (simp add: of_nat_div of_nat_mod)
  qed
qed

text \<open>
  The length of the content is read as it is written: a header line with the usual name, in any
  case, and the decimal digits of a number below \<open>2^32\<close> announces that number.
\<close>

definition length_header :: "u8 list \<Rightarrow> nat \<Rightarrow> u8 list" where
  "length_header name n = name @ [58, 32] @ decimal n"

definition length_name :: "u8 list \<Rightarrow> bool" where
  "length_name name \<longleftrightarrow> strcase_eq name content_length_name \<and> 58 \<notin> set name \<and> 0 \<notin> set name \<and> 10 \<notin> set name"

lemma length_header_kind:
  assumes "length_name name" and "n < 2 ^ 32"
  shows "http_kind_of (length_header name n @ [13]) = Hdr_Length (length_header name n) (of_nat n)"
proof -
  obtain x xs where x: "decimal n = x # xs" by (cases "decimal n") (simp_all add: decimal.simps [of n] split: if_splits)
  have dig: "48 \<le> y \<and> y \<le> 57" if "y \<in> set (decimal n)" for y using decimal_digits [OF that] .
  then have "0 \<notin> set (decimal n)" by fastforce
  then have str: "c_str (32 # decimal n) = 32 # decimal n" by (simp add: c_str_def takeWhile_eq_all_conv) metis
  have "48 \<le> x" using dig [of x] x by simp
  then have nx: "\<not> is_space x" "x \<noteq> 45" "x \<noteq> 43" "is_space 32" by (auto simp: is_space_def word_le_nat_alt)
  have "digits_value 0 (x # xs) = int n" using digits_value_decimal [of n] x by (simp del: digits_value.simps)
  with nx x have "atoll (32 # decimal n) = max (- (2 ^ 63)) (min (2 ^ 63 - 1) (int n))"
    by (simp add: atoll_def del: digits_value.simps)
  also have "\<dots> = int n" using assms(2) by simp
  finally have at: "atoll (c_str (32 # decimal n)) = int n" using str by simp
  have "c_str name = name" using assms(1) by (auto simp: c_str_def takeWhile_eq_all_conv length_name_def)
  with at assms(1) show ?thesis
    by (simp add: http_kind_of_def strip_cr_def find_byte_append butlast_append length_header_def length_name_def)
qed

lemma length_header_line:
  assumes "length_name name"
  shows "header_line (length_header name n)"
proof -
  have "(10 :: u8) \<notin> set (decimal n)" using decimal_digits [of 10 n] by fastforce
  with assms show ?thesis by (auto simp: header_line_def length_header_def length_name_def)
qed

lemma announced_append: "announced n (xs @ [x]) = (case http_kind_of (x @ [13]) of Hdr_Length _ m \<Rightarrow> m | _ \<Rightarrow> announced n xs)"
  by (induction xs arbitrary: n) (auto split: http_kind.splits)

text \<open>The kernel does not touch the memory of the program.\<close>

definition http_kernel :: "'a http_world_scheme os \<Rightarrow> bool" where
  "http_kernel K \<longleftrightarrow>
     (\<forall>s bs w. hw_props (snd (os_write K s bs w)) = hw_props w \<and> hw_out (snd (os_write K s bs w)) = hw_out w)
     \<and> (\<forall>s n w. hw_props (snd (os_read K s n w)) = hw_props w \<and> hw_out (snd (os_read K s n w)) = hw_out w)"

lemma http_connect_ready:
  assumes "http_kernel K" and "func_connect l = Some Http_Connected"
  shows "\<exists>w1. on_connect (http_actions K as_u32) ct (l, h, w) =
      Inr (True, set_trigger (Char_Data_Trigger (Some Http_Line) 10) l, h, w1)
    \<and> hw_out w1 = hw_out w \<and> smap_find (hw_props w1) (target_key as_u32 (ct_target ct)) = Some 0"
  using assms
  by (simp add: on_connect_def http_actions_def http_connected_def ct_send_def http_kernel_def storage_write_def smap_put_find Let_def)

lemma http_delivers:
  assumes "buf_ok (l4_buf l)" and "length (buf_contents (l4_buf l)) + 1 < fuel"
    and "l4_trigger l = Char_Data_Trigger (Some Http_Line) 10"
    and "smap_find (hw_props w) (target_key as_u32 (ct_target ct)) = Some 0"
    and "buf_contents (l4_buf l) = http_message hs body" and "\<forall>x\<in>set hs. header_line x"
    and "body \<noteq> []" and "unat (announced 0 hs) = length body"
  shows "\<exists>l' w'. process_buffer fuel (http_actions K as_u32) ct (l, h, w) = Inr (False, l', h, w')
    \<and> hw_out w' = hw_out w @ map (\<lambda>x. Received x (port_value (ct_target ct))) hs
        @ [Received [] (port_value (ct_target ct)), Content body]"
proof -
  have "announced 0 hs \<noteq> 0" using assms(7,8) by auto
  with http_loop_reads [OF assms(1-4), of K h] http_read_message [OF assms(6) _ assms(8), of "port_value (ct_target ct)" "[]"]
  show ?thesis unfolding assms(5) by (auto simp: process_buffer_def http_result_def)
qed


definition ok_lines :: "u8 list list" where
  "ok_lines = [bytes_of ''HTTP/1.0 200 OK'', bytes_of ''Server: a'']"

definition ok_answer :: "u8 list" where
  "ok_answer = http_message (ok_lines @ [length_header (bytes_of ''content-LENGTH'') 2]) [7, 8]"

definition http_conn :: "u8 list \<Rightarrow> http_fn lvl4_sm" where
  "http_conn xs = logger_conn (Char_Data_Trigger (Some Http_Line) 10) xs"

definition http_start :: "http_world" where
  "http_start = \<lparr>hw_props = storage_write port_pack (Target 1 (Port 80 0)) 0 [], hw_out = []\<rparr>"

theorem http_answer_witness:
  "\<exists>r l' w'. process_buffer 9 (http_actions no_os port_pack) (Connected_Target 3 (Target 1 (Port 80 0)))
      (http_conn [72, 13, 10], host_sm_new unit_ports 0, http_start) = Inr (r, l', host_sm_new unit_ports 0, w')
    \<and> http_result port_pack (Connected_Target 3 (Target 1 (Port 80 0))) http_start
        (http_read (port_value (Target 1 (Port 80 0))) 0 [72, 13, 10]) r l' w'"
  using http_answer [of "http_conn [72, 13, 10]" 9 http_start port_pack "Connected_Target 3 (Target 1 (Port 80 0))" 0 no_os
      "host_sm_new unit_ports 0"]
  by (simp add: http_conn_def http_start_def logger_conn_simps storage_write_def)

definition http_server :: "u8 list \<Rightarrow> http_world os" where
  "http_server msg = no_os\<lparr>os_read := \<lambda>_ _ w. (Some msg, w), os_write := \<lambda>_ bs w. (int (length bs), w)\<rparr>"


end
