(* ===== verification/Client_Programs.thy ===== *)
theory Client_Programs
  imports Engine_Theorems IPV4_Target_Set Target_File
begin

text \<open>
  Programs of \<open>tests/\<close>. \<open>tests/recon.cpp\<close> reconnects and sends back what it received before, with a
  \<open>Lvl4PropertiesStorage\<close> as memory. It is run as a whole: the engine, the product of addresses and
  ports, the size trigger, the callbacks of the program and the kernel of \<open>Scripted_Net\<close>, with a server
  that sends a fixed answer and hangs up, as \<open>tests/server_recon.py\<close> does. What the closures capture is a
  value of type \<open>'m\<close> that the world keeps beside the target set. Of \<open>tests/target_set.cpp\<close> the last loop
  is modelled.
\<close>

section \<open>The environment of a program\<close>

type_synonym one_list = "(u32 list, port list, u32 list, port list \<times> nat, unit) ipv4_set"
type_synonym 'm client_net = "(one_list \<times> 'm) net"

definition client_mem :: "'m client_net \<Rightarrow> 'm" where
  "client_mem w = snd (net_targets w)"

definition client_put :: "'m \<Rightarrow> 'm client_net \<Rightarrow> 'm client_net" where
  "client_put m w = w\<lparr>net_targets := (fst (net_targets w), m)\<rparr>"

definition client_env ::
  "u8 list \<Rightarrow> ('f, port list, 'm client_net) actions \<Rightarrow> ('f \<Rightarrow> target \<Rightarrow> lvl4_buffer \<Rightarrow> int \<Rightarrow> 'm client_net \<Rightarrow> 'm client_net res)
     \<Rightarrow> ('f, port list, 'm client_net) env"
where
  "client_env answer A fin =
     \<lparr>kernel = net_kernel (\<lambda>ip. answer), actions_of = A, port_ops = list_ports, port_socket_type = (\<lambda>p. 1),
      port_socket_proto = (\<lambda>p. 6), protocol_from_socket_type = (\<lambda>ty pr. 6),
      ts_init = (\<lambda>w. case net_targets w of (s, m) \<Rightarrow> Inr (w\<lparr>net_targets := (ipv4_init list_leeloo s, m)\<rparr>)),
      ts_next_target = (\<lambda>w. case net_targets w of (s, m) \<Rightarrow>
         (case ipv4_next_target 0 list_leeloo s of (t, s') \<Rightarrow> Inr (Some t, w\<lparr>net_targets := (s', m)\<rparr>))),
      ts_target_finished = (\<lambda>t (h, w). case net_targets w of (s, m) \<Rightarrow>
         bind_res (ipv4_target_finished list_ports list_leeloo t (h, s))
           (\<lambda>(d, h', s'). Inr (d, h', w\<lparr>net_targets := (s', m)\<rparr>))),
      ts_init_host_sm = (\<lambda>t (h, w). case net_targets w of (s, m) \<Rightarrow>
         (case ipv4_init_host_sm list_leeloo t (h, s) of (h', s') \<Rightarrow> (h', w\<lparr>net_targets := (s', m)\<rparr>))),
      ts_save_state = (\<lambda>f w. Inr w), ts_restore_state = (\<lambda>f w. Inr w),
      call_finish = fin, call_status = (\<lambda>f nl nd w. Inl Bad_function_call),
      call_watch_timeout = (\<lambda>f ct w. Inl Bad_function_call), call_timeout_target = (\<lambda>f t w. Inl Bad_function_call)\<rparr>"

definition client_start :: "u32 list \<Rightarrow> port list \<Rightarrow> 'm \<Rightarrow> 'm client_net" where
  "client_start ips ports m = \<lparr>net_clock = 0, net_table = [], net_sent = [], net_log = [], net_done = [],
     net_targets = (ipv4_new list_leeloo ips ports () (), m)\<rparr>"

lemma client_sel:
  "kernel (client_env bs A fin) = net_kernel (\<lambda>ip. bs)" "actions_of (client_env bs A fin) = A"
  "port_ops (client_env bs A fin) = list_ports" "port_socket_type (client_env bs A fin) p = 1"
  "port_socket_proto (client_env bs A fin) p = 6"
  "ts_init (client_env bs A fin) w = (case net_targets w of (s, m) \<Rightarrow> Inr (w\<lparr>net_targets := (ipv4_init list_leeloo s, m)\<rparr>))"
  "ts_next_target (client_env bs A fin) w = (case net_targets w of (s, m) \<Rightarrow>
     (case ipv4_next_target 0 list_leeloo s of (t, s') \<Rightarrow> Inr (Some t, w\<lparr>net_targets := (s', m)\<rparr>)))"
  "ts_target_finished (client_env bs A fin) t (h, w) = (case net_targets w of (s, m) \<Rightarrow>
     bind_res (ipv4_target_finished list_ports list_leeloo t (h, s)) (\<lambda>(d, h', s'). Inr (d, h', w\<lparr>net_targets := (s', m)\<rparr>)))"
  "ts_init_host_sm (client_env bs A fin) t (h, w) = (case net_targets w of (s, m) \<Rightarrow>
     (case ipv4_init_host_sm list_leeloo t (h, s) of (h', s') \<Rightarrow> (h', w\<lparr>net_targets := (s', m)\<rparr>)))"
  "call_finish (client_env bs A fin) = fin"
  by (simp_all add: client_env_def)

lemma net_sel:
  "os_time (net_kernel answers) w = int (net_clock w)" "os_junk (net_kernel answers) w = (\<lambda>_. 0)"
  "os_write (net_kernel answers) s bs w = (int (length bs), w\<lparr>net_sent := net_sent w @ [(s, bs)]\<rparr>)"
  by (simp_all add: net_kernel_def)

lemma launch_sockets_step:
  "launch_sockets lf E (numeral k) e =
     bind_res (launch_one lf E e) (\<lambda>(r, e1).
       case r of
         End_of_targets \<Rightarrow> Inr (False, e1)
       | Would_block \<Rightarrow> Inr (True, e1)
       | Launched s t \<Rightarrow>
           let (h, e2) = get_host_sm E (ipv4 t) e1;
               (h', w') = ts_init_host_sm E t (h, world e2);
               e3 = put_host_sm (ipv4 t) h' (e2\<lparr>world := w'\<rparr>)
           in launch_sockets lf E (pred_numeral k) (add_connecting_socket E s e3))"
  by (simp only: numeral_eq_Suc launch_sockets.simps)

text \<open>What a run evaluates.\<close>

lemmas kernel_run = net_kernel_sel net_sel net_socket_def net_connect_def net_close_def net_epoll_add_def net_epoll_del_def
  net_epoll_wait_def net_ready_def net_fionread_def net_read_def net_get_def net_set_def

lemmas engine_run = launch_def init_scan_def do_async_scan_def process_free_socks_def set_lvl4_connected_callback_def
  set_lvl4_finish_callback_def async_engine_new_def create_socket_def new_socket_def Let_def EINPROGRESS_def new_lvl4_sm_def
  put_lvl4_sm_def get_host_sm_def put_host_sm_def add_connecting_socket_def is_end_def port_value_def smap_find_def
  timestamp_def host_sm_new_def lvl4_sm_new_def set_valid_def set_on_connect_def update_ts_def state_machine_new_def
  lvl4_sm.defs host_sm.defs state_machine.defs process_events_def process_dirty_and_timeouts_def should_process_buffer_def
  timeout_of_target_def has_watch_timedout_def EPOLLIN_def EPOLLOUT_def MAX_EVENTS_def process_event_def
  process_connecting_ready_def process_connected_ready_def get_lvl4_sm_def target_from_socket_def on_connect_def
  add_connected_socket_def remove_connecting_socket_def remove_connected_socket_def target_end_def host_set_rand_idx_ip_def
  set_trigger_def ct_send_def scan_round_def set_reconnect_def socket_finished_def free_socket_def call_callback_finish_def
  del_lvl4_sm_def del_host_sm_def free_buffer_def reconnect_def report_and_save_def should_call_status_display_def
  should_save_state_def host_port_done_def host_ports_done_count_def host_rand_idx_ip_def launch_sockets_step

lemmas data_run = process_lvl4_data_def buf_grow_by_def buf_new_def buf_allocate_def malloc_block_def realloc_block_def
  size_buf_def buf_write_def trigger_process_buffer_def size_trigger_process_def trigger_finish_def buf_bytes_def
  buf_pop_by_def buf_free_def process_buffer_def storage_write_def properties_of_def target_key_def port_pack_def storage_new_def

lemmas set_run = list_leeloo_def ipv4_new_def ipv4_init_def ipv4_next_target_def ipv4_init_host_sm_def list_ports_def
  ipv4_target_finished_def ipv4_ports_count_def

lemmas client_run = client_sel client_start_def client_mem_def client_put_def

section \<open>tests/recon.cpp\<close>

datatype recon_fn = Recon_Connected | Recon_Data | Recon_Again

definition recon_connected ::
  "'w os \<Rightarrow> connected_target \<Rightarrow> (recon_fn, 'pl, 'w) conn \<Rightarrow> (bool \<times> (recon_fn, 'pl, 'w) conn) res" where
  "recon_connected K ct c =
     (case c of (l, h, w) \<Rightarrow>
        let w1 = snd (ct_send K ct (bytes_of ''break'') w)
        in Inr (True, set_trigger (Size_Data_Trigger (Some Recon_Data) 4) l, h, w1))"

definition recon_data ::
  "(port \<Rightarrow> u32) \<Rightarrow> ('w \<Rightarrow> u8 list storage) \<Rightarrow> (u8 list storage \<Rightarrow> 'w \<Rightarrow> 'w) \<Rightarrow> connected_target \<Rightarrow> nat
     \<Rightarrow> (recon_fn, 'pl, 'w) conn \<Rightarrow> (bool \<times> (recon_fn, 'pl, 'w) conn) res"
where
  "recon_data as_u32 getp putp ct off c =
     (case c of (l, h, w) \<Rightarrow>
        bind_res (buf_bytes off 4 (l4_buf l)) (\<lambda>bs.
          let w1 = putp (storage_write as_u32 (ct_target ct) bs (getp w)) w;
              l1 = set_reconnect True l
          in Inr (True, set_on_connect (Some Recon_Again) l1, h, w1)))"

definition recon_again ::
  "'w os \<Rightarrow> (port \<Rightarrow> u32) \<Rightarrow> ('w \<Rightarrow> u8 list storage) \<Rightarrow> (u8 list storage \<Rightarrow> 'w \<Rightarrow> 'w) \<Rightarrow> connected_target
     \<Rightarrow> (recon_fn, 'pl, 'w) conn \<Rightarrow> (bool \<times> (recon_fn, 'pl, 'w) conn) res"
where
  "recon_again K as_u32 getp putp ct c =
     (case c of (l, h, w) \<Rightarrow>
        let (bs, m) = properties_of as_u32 (\<lambda>_. [0, 0, 0, 0]) (ct_target ct) (getp w)
        in Inr (False, l, h, snd (ct_send K ct bs (putp m w))))"

definition recon_actions ::
  "'w os \<Rightarrow> (port \<Rightarrow> u32) \<Rightarrow> ('w \<Rightarrow> u8 list storage) \<Rightarrow> (u8 list storage \<Rightarrow> 'w \<Rightarrow> 'w) \<Rightarrow> (recon_fn, 'pl, 'w) actions"
where
  "recon_actions K as_u32 getp putp =
     \<lparr>act_data = (\<lambda>f ct off n c. case f of Recon_Data \<Rightarrow> recon_data as_u32 getp putp ct off c | _ \<Rightarrow> Inl Bad_function_call),
      act_connect = (\<lambda>f ct c. case f of
          Recon_Connected \<Rightarrow> recon_connected K ct c
        | Recon_Again \<Rightarrow> recon_again K as_u32 getp putp ct c
        | Recon_Data \<Rightarrow> Inl Bad_function_call),
      act_python = (\<lambda>f ct p c. Inl Bad_function_call)\<rparr>"

text \<open>\<open>main\<close>: one address, one port, the default engine, and the run of \<open>launch\<close>.\<close>

definition recon_main ::
  "nat \<Rightarrow> nat \<Rightarrow> nat \<Rightarrow> u8 list \<Rightarrow> (recon_fn, port list, u8 list storage client_net) engine res" where
  "recon_main sf pf lf answer =
     launch sf pf lf
       (client_env answer (recon_actions (net_kernel (\<lambda>ip. answer)) port_pack client_mem client_put)
          (\<lambda>f t b err w. Inl Bad_function_call))
       (set_lvl4_connected_callback (Some Recon_Connected)
          (async_engine_new 1000 5 (client_start [0x7F000001] [Port 1245 6] storage_new)))"

lemmas recon_run_defs = recon_main_def recon_actions_def recon_connected_def recon_data_def recon_again_def


section \<open>The last loop of tests/target_set.cpp\<close>

text \<open>
  The loop takes targets from a \<open>RepeatableTargetSet<IPV4TargetSet>\<close> over the address \<open>127.0.0.1\<close> until it
  is handed the end, and prints the address of each and whether it is the end.
\<close>

fun print_until_end :: "('s \<Rightarrow> (target \<times> 's) res) \<Rightarrow> nat \<Rightarrow> 's \<Rightarrow> ((u32 \<times> bool) list \<times> 's) res" where
  "print_until_end nx 0 s = Inl Out_of_fuel"
| "print_until_end nx (Suc n) s =
     bind_res (nx s) (\<lambda>(t, s1).
       if \<not> is_end t
       then bind_res (print_until_end nx n s1) (\<lambda>(out, s2). Inr ((ipv4 t, is_end t) # out, s2))
       else Inr ([(ipv4 t, is_end t)], s1))"

lemma print_until_end_stuck:
  assumes keep: "\<And>s. ok s \<Longrightarrow> \<exists>t s'. nx s = Inr (t, s') \<and> \<not> is_end t \<and> ok s'"
  shows "ok s \<Longrightarrow> print_until_end nx n s = Inl Out_of_fuel"
proof (induction n arbitrary: s)
  case (Suc n)
  with keep [OF Suc.prems] show ?case by auto
qed simp

lemma ipv4_next_lists:
  "ips_list (snd (ipv4_next_target u G s)) = ips_list s \<and> ports_list (snd (ipv4_next_target u G s)) = ports_list s"
  by (simp add: ipv4_next_target_def Let_def split_def)

lemma ipv4_init_lists:
  assumes "list_laws G addrs ports"
  shows "set (addrs (ips_list (ipv4_init G s))) = set (addrs (ips_list s))"
    and "set (ports (ports_list (ipv4_init G s))) = set (ports (ports_list s))"
  using assms by (simp_all add: ipv4_init_def list_laws_def Let_def split_def)

lemma ipv4_first_target:
  assumes laws: "list_laws G addrs ports" and perm: "permuting G addrs ports vl pl"
    and "addrs (ips_list s) \<noteq> []" and "ports (ports_list s) \<noteq> []" and "0xFFFFFFFF \<notin> set (addrs (ips_list s))"
  shows "\<not> is_end (fst (ipv4_next_target u G (ipv4_init G s)))"
proof -
  let ?s = "ipv4_init G s"
  let ?v = "vl (ips_list ?s) (rand_v4 ?s)" and ?p = "pl (ports_list ?s) (rand_port ?s)"
  have "mset ?v = mset (addrs (ips_list ?s))" "mset ?p = mset (ports (ports_list ?s))"
    using perm by (simp_all add: ipv4_init_def permuting_def Let_def split_def)
  from this [THEN mset_eq_setD] ipv4_init_lists [OF laws] have
    sets: "set ?v = set (addrs (ips_list s))" "set ?p = set (ports (ports_list s))" by auto
  then obtain i "is" p ps where ip: "?v = i # is" "?p = p # ps" using assms(3,4) by (cases ?v; cases ?p) auto
  with permuting_step (1,2) [OF perm] have "ipv4 (fst (ipv4_next_target u G ?s)) = i"
    by (auto simp: ipv4_next_target_def Let_def split_def)
  moreover have "i \<noteq> 0xFFFFFFFF" using ip(1) sets(1) assms(5) by (metis list.set_intros(1))
  ultimately show ?thesis by (simp add: is_end_def)
qed

text \<open>
  C25. The loop at the end of \<open>tests/target_set.cpp\<close> never ends: a repeatable set with an address and a
  port starts over whenever its base set is exhausted, so that the end the loop waits for is never
  handed out. The address \<open>255.255.255.255\<close>, which is the mark of the end, is not in the list.
\<close>

theorem repeatable_ipv4_never_ends:
  fixes s :: "('a, 'b, 'c, 'd, 'e) ipv4_set"
  assumes laws: "list_laws G addrs ports" and perm: "permuting G addrs ports vl pl"
    and some: "addrs (ips_list s) \<noteq> []" "ports (ports_list s) \<noteq> []" and "0xFFFFFFFF \<notin> set (addrs (ips_list s))"
  shows "print_until_end (repeatable_next_target (ipv4_init G) (ipv4_source u G)) n (ipv4_init G s) = Inl Out_of_fuel"
proof (rule print_until_end_stuck)
  let ?ok = "\<lambda>x :: ('a, 'b, 'c, 'd, 'e) ipv4_set. set (addrs (ips_list x)) = set (addrs (ips_list s))
    \<and> set (ports (ports_list x)) = set (ports (ports_list s))"
  show "?ok (ipv4_init G s)" using ipv4_init_lists [OF laws] by blast
  fix x :: "('a, 'b, 'c, 'd, 'e) ipv4_set"
  assume ok: "?ok x"
  let ?y = "snd (ipv4_next_target u G x)"
  have y: "?ok ?y" using ok ipv4_next_lists [of u G x] by simp
  then have "\<not> is_end (fst (ipv4_next_target u G (ipv4_init G ?y)))"
    using some assms(5) by (intro ipv4_first_target [OF laws perm]) auto
  moreover have "?ok (snd (ipv4_next_target u G (ipv4_init G ?y)))"
    using y ipv4_init_lists [OF laws] ipv4_next_lists [of u G "ipv4_init G ?y"] by simp
  ultimately show "\<exists>t s'. repeatable_next_target (ipv4_init G) (ipv4_source u G) x = Inr (t, s') \<and> \<not> is_end t \<and> ?ok s'"
    using y by (auto simp: repeatable_next_target_def ipv4_source_def split_def prod_eq_iff)
qed

definition loopback_set :: one_list where
  "loopback_set = ipv4_new list_leeloo [0x7F000001] (map (\<lambda>i. Port (10 + of_nat i) 6) [0..<191]) () ()"

theorem repeatable_ipv4_never_ends_witness:
  "print_until_end (repeatable_next_target (ipv4_init list_leeloo) (ipv4_source 0 list_leeloo)) 1000
     (ipv4_init list_leeloo loopback_set) = Inl Out_of_fuel"
  by (rule repeatable_ipv4_never_ends [OF list_leeloo_laws]) (simp_all add: loopback_set_def ipv4_new_def)

end
